(* ===== verification/Prelude.thy ===== *)
theory Prelude
  imports Main "HOL-Library.Word" "HOL-Library.While_Combinator" "HOL-Library.Sublist"
begin

text \<open>
  The vocabulary every component theory shares: the machine integer types, the outcomes of
  a Rust call (a value, or one of the ways it does not return one), the loop combinator that
  makes divergence a value, and the byte encodings of the integer types that the standard
  library offers and the buffers use.

  \<^item> \<open>usize\<close> is \<open>nat\<close> with \<open>usize_max = 2^64 - 1\<close>; every place where the source can
    overflow writes the wrap, the saturation or the panic out.
  \<^item> \<open>u8 \<dots> u128\<close> are words. A signed type is the word of the same width, read with \<open>sint\<close>.
  \<^item> \<open>outcome\<close> is the result of running code: \<open>Ok\<close> of its value, or \<open>Fault\<close> with the
    panic, the abort, the divergence or the undefined behaviour that ended it.
\<close>

unbundle bit_operations_syntax

section \<open>Machine integers\<close>

type_synonym u8 = "8 word"
type_synonym u16 = "16 word"
type_synonym u32 = "32 word"
type_synonym u64 = "64 word"
type_synonym u128 = "128 word"
type_synonym i8 = "8 word"
type_synonym i16 = "16 word"
type_synonym i32 = "32 word"
type_synonym i64 = "64 word"
type_synonym i128 = "128 word"
type_synonym f32 = "32 word"
type_synonym f64 = "64 word"
type_synonym usize = nat

definition usize_max :: nat where
  "usize_max = 18446744073709551615"

definition isize_max :: nat where
  "isize_max = 9223372036854775807"

definition saturating_add :: "usize \<Rightarrow> usize \<Rightarrow> usize" where
  "saturating_add a b = min (a + b) usize_max"

definition checked_add :: "usize \<Rightarrow> usize \<Rightarrow> usize option" where
  "checked_add a b = (if a + b \<le> usize_max then Some (a + b) else None)"

definition checked_sub :: "usize \<Rightarrow> usize \<Rightarrow> usize option" where
  "checked_sub a b = (if b \<le> a then Some (a - b) else None)"

text \<open>Rust's \<open>/\<close> and \<open>%\<close> on signed integers truncate towards zero.\<close>

definition tdiv :: "int \<Rightarrow> int \<Rightarrow> int" where
  "tdiv a b = sgn a * sgn b * (\<bar>a\<bar> div \<bar>b\<bar>)"

definition tmod :: "int \<Rightarrow> int \<Rightarrow> int" where
  "tmod a b = a - b * tdiv a b"

lemma tdiv_nonneg: "0 \<le> a \<Longrightarrow> 0 < b \<Longrightarrow> tdiv a b = a div b"
  by (cases "a = 0") (simp_all add: tdiv_def)

lemma tmod_nonneg: "0 \<le> a \<Longrightarrow> 0 < b \<Longrightarrow> tmod a b = a mod b"
  by (simp add: tmod_def tdiv_nonneg minus_mult_div_eq_mod)

lemma tdiv_neg: "a < 0 \<Longrightarrow> 0 < b \<Longrightarrow> tdiv a b = - ((- a) div b)"
  by (simp add: tdiv_def)

section \<open>Outcomes\<close>

text \<open>
  The ways a call ends without a value. \<open>PanicAdvance idx len\<close> is \<open>panic_advance(idx, len)\<close>
  and \<open>PanicDoesNotFit size nbytes\<close> is \<open>panic_does_not_fit(size, nbytes)\<close> of
  \<open>bytes/src/lib.rs\<close>; the other panics are the ones the language and its library raise.
\<close>

datatype fault =
    PanicAdvance usize usize
  | PanicDoesNotFit usize usize
  | PanicAssert
  | PanicOverflow
  | PanicIndex
  | PanicUnwrap
  | PanicExpect
  | PanicUnreachable
  | PanicExplicit
  | AbortProcess
  | ExitProcess
  | UndefinedBehaviour
  | Diverges

text \<open>\<open>cmp::Ordering\<close>.\<close>

datatype ordering = Less | Equal | Greater

datatype 'a outcome = Ok 'a | Fault fault

primrec obind :: "'a outcome \<Rightarrow> ('a \<Rightarrow> 'b outcome) \<Rightarrow> 'b outcome" where
  "obind (Ok x) f = f x"
| "obind (Fault e) f = Fault e"

definition omap :: "('a \<Rightarrow> 'b) \<Rightarrow> 'a outcome \<Rightarrow> 'b outcome" where
  "omap f r = obind r (\<lambda>x. Ok (f x))"

definition guard :: "bool \<Rightarrow> fault \<Rightarrow> unit outcome" where
  "guard b e = (if b then Ok () else Fault e)"

definition is_ok :: "'a outcome \<Rightarrow> bool" where
  "is_ok r = (case r of Ok _ \<Rightarrow> True | Fault _ \<Rightarrow> False)"

text \<open>The call panics, which is neither an end of the process nor undefined nor an endless loop.\<close>

definition panics :: "'a outcome \<Rightarrow> bool" where
  "panics r = (case r of Ok _ \<Rightarrow> False | Fault f \<Rightarrow> f \<notin> {AbortProcess, ExitProcess, UndefinedBehaviour, Diverges})"

lemma panics_simps [simp]:
  "\<not> panics (Ok x)" "panics (Fault f) \<longleftrightarrow> f \<notin> {AbortProcess, ExitProcess, UndefinedBehaviour, Diverges}"
  by (simp_all add: panics_def)

lemma panics_obind: "panics r \<Longrightarrow> panics (obind r f)"
  by (cases r) simp_all

lemma omap_simps [simp]:
  "omap f (Ok x) = Ok (f x)" "omap f (Fault e) = Fault e"
  by (simp_all add: omap_def)

lemma guard_simps [simp]: "guard True e = Ok ()" "guard False e = Fault e"
  by (simp_all add: guard_def)

lemma is_ok_simps [simp]: "is_ok (Ok x)" "\<not> is_ok (Fault e)"
  by (simp_all add: is_ok_def)

lemma is_ok_iff: "is_ok r \<longleftrightarrow> (\<exists>x. r = Ok x)"
  by (cases r) simp_all

lemma obind_OkE:
  assumes "obind r f = Ok y"
  obtains x where "r = Ok x" "f x = Ok y"
  using assms by (cases r) simp_all

lemma obind_Ok_conv: "obind r f = Ok y \<longleftrightarrow> (\<exists>x. r = Ok x \<and> f x = Ok y)"
  by (cases r) simp_all

lemma obind_Fault_conv:
  "obind r f = Fault e \<longleftrightarrow> r = Fault e \<or> (\<exists>x. r = Ok x \<and> f x = Fault e)"
  by (cases r) simp_all

lemma omap_Ok_conv: "omap f r = Ok y \<longleftrightarrow> (\<exists>x. r = Ok x \<and> y = f x)"
  by (cases r) auto

lemma obind_assoc: "obind (obind r f) g = obind r (\<lambda>x. obind (f x) g)"
  by (cases r) simp_all

lemma obind_cong [fundef_cong]:
  "r = r' \<Longrightarrow> (\<And>x. r' = Ok x \<Longrightarrow> f x = g x) \<Longrightarrow> obind r f = obind r' g"
  by (cases r') simp_all

section \<open>Loops\<close>

text \<open>
  \<open>while b { c }\<close> over a state. A body that faults ends the loop with that fault, and a loop
  that runs forever is the value \<open>Fault Diverges\<close>, so that a statement \<open>\<dots> = Ok r\<close> says that
  the loop ends.
\<close>

definition loop :: "('s \<Rightarrow> bool) \<Rightarrow> ('s \<Rightarrow> 's outcome) \<Rightarrow> 's \<Rightarrow> 's outcome" where
  "loop b c s =
     (case while_option (\<lambda>st. case st of Ok s \<Rightarrow> b s | Fault _ \<Rightarrow> False)
                        (\<lambda>st. obind st c) (Ok s) of
        Some r \<Rightarrow> r
      | None \<Rightarrow> Fault Diverges)"

lemma loop_unfold: "loop b c s = (if b s then obind (c s) (loop b c) else Ok s)"
proof (cases "b s")
  case True
  show ?thesis
  proof (cases "c s")
    case (Ok s')
    with True show ?thesis by (simp add: loop_def while_option_unfold [of _ _ "Ok s"])
  next
    case (Fault e)
    with True show ?thesis
      by (simp add: loop_def while_option_unfold [of _ _ "Ok s"]
          while_option_unfold [of _ _ "Fault e"])
  qed
next
  case False
  then show ?thesis by (simp add: loop_def while_option_unfold [of _ _ "Ok s"])
qed

lemma loop_done: "\<not> b s \<Longrightarrow> loop b c s = Ok s"
  by (subst loop_unfold) simp

lemma loop_step: "b s \<Longrightarrow> c s = Ok s' \<Longrightarrow> loop b c s = loop b c s'"
  by (subst loop_unfold) simp

text \<open>
  Total correctness: an invariant the body keeps while it decreases a measure gives a
  result, with the invariant and the negated guard.
\<close>

lemma loop_rule:
  fixes m :: "'s \<Rightarrow> nat"
  assumes "I s"
    and step: "\<And>s. I s \<Longrightarrow> b s \<Longrightarrow> \<exists>s'. c s = Ok s' \<and> I s' \<and> m s' < m s"
  shows "\<exists>s'. loop b c s = Ok s' \<and> I s' \<and> \<not> b s'"
  using \<open>I s\<close>
proof (induction "m s" arbitrary: s rule: less_induct)
  case less
  show ?case
  proof (cases "b s")
    case True
    with step [OF less.prems] obtain s' where s': "c s = Ok s'" "I s'" "m s' < m s"
      by blast
    then have "\<exists>r. loop b c s' = Ok r \<and> I r \<and> \<not> b r"
      using less.hyps by blast
    with True s'(1) show ?thesis by (simp add: loop_step)
  next
    case False
    with less.prems show ?thesis by (auto simp: loop_done)
  qed
qed

text \<open>A body that returns the same state whenever the guard holds never leaves the loop.\<close>

lemma loop_diverges:
  assumes "b s" and "c s = Ok s"
  shows "loop b c s = Fault Diverges"
proof -
  let ?B = "\<lambda>st. case st of Ok s \<Rightarrow> b s | Fault _ \<Rightarrow> False"
  have inv: "while_option ?B (\<lambda>st. obind st c) (Ok s) = Some t \<Longrightarrow> t = Ok s" for t
    by (rule while_option_rule [where P = "\<lambda>t. t = Ok s"]) (use assms in auto)
  have "while_option ?B (\<lambda>st. obind st c) (Ok s) = None"
  proof (cases "while_option ?B (\<lambda>st. obind st c) (Ok s)")
    case (Some t)
    with inv have "t = Ok s" by blast
    with Some while_option_stop [OF Some] assms(1) show ?thesis by simp
  qed simp
  then show ?thesis by (simp add: loop_def)
qed

section \<open>Byte encodings of the integer types\<close>

text \<open>
  \<open>to_le_bytes\<close>, \<open>to_be_bytes\<close>, \<open>from_le_bytes\<close> and \<open>from_be_bytes\<close> of the primitive integer
  types; \<open>k\<close> is \<open>size_of::<T>()\<close>. The native order is one of the two, chosen by the target.
\<close>

primrec le_value :: "u8 list \<Rightarrow> nat" where
  "le_value [] = 0"
| "le_value (b # bs) = unat b + 256 * le_value bs"

primrec le_digits :: "nat \<Rightarrow> nat \<Rightarrow> u8 list" where
  "le_digits 0 n = []"
| "le_digits (Suc k) n = of_nat (n mod 256) # le_digits k (n div 256)"

definition from_le_bytes :: "u8 list \<Rightarrow> 'n::len word" where
  "from_le_bytes bs = of_nat (le_value bs)"

definition from_be_bytes :: "u8 list \<Rightarrow> 'n::len word" where
  "from_be_bytes bs = of_nat (le_value (rev bs))"

definition from_ne_bytes :: "bool \<Rightarrow> u8 list \<Rightarrow> 'n::len word" where
  "from_ne_bytes big bs = (if big then from_be_bytes bs else from_le_bytes bs)"

definition to_le_bytes :: "nat \<Rightarrow> 'n::len word \<Rightarrow> u8 list" where
  "to_le_bytes k w = le_digits k (unat w)"

definition to_be_bytes :: "nat \<Rightarrow> 'n::len word \<Rightarrow> u8 list" where
  "to_be_bytes k w = rev (le_digits k (unat w))"

definition to_ne_bytes :: "bool \<Rightarrow> nat \<Rightarrow> 'n::len word \<Rightarrow> u8 list" where
  "to_ne_bytes big k w = (if big then to_be_bytes k w else to_le_bytes k w)"

lemma length_le_digits [simp]: "length (le_digits k n) = k"
  by (induction k arbitrary: n) auto

lemma length_to_bytes [simp]:
  "length (to_le_bytes k w) = k" "length (to_be_bytes k w) = k"
  "length (to_ne_bytes big k w) = k"
  by (simp_all add: to_le_bytes_def to_be_bytes_def to_ne_bytes_def)

lemma unat_of_nat_byte [simp]: "unat (of_nat (n mod 256) :: u8) = n mod 256"
  by (simp add: unat_of_nat)

lemma le_value_le_digits: "le_value (le_digits k n) = n mod 256 ^ k"
  by (induction k arbitrary: n) (simp_all add: mod_mult2_eq add.commute)

lemma le_value_bound: "le_value bs < 256 ^ length bs"
proof (induction bs)
  case (Cons b bs)
  have "unat b < 256" using unsigned_less [of b] by simp
  with Cons show ?case by simp
qed simp

lemma le_digits_le_value: "le_digits (length bs) (le_value bs) = bs"
proof (induction bs)
  case (Cons b bs)
  have b: "unat b < 256" using unsigned_less [of b] by simp
  then have "(unat b + 256 * le_value bs) mod 256 = unat b"
    and "(unat b + 256 * le_value bs) div 256 = le_value bs" by simp_all
  with Cons show ?case by simp
qed simp

lemma le_value_append: "le_value (xs @ ys) = le_value xs + 256 ^ length xs * le_value ys"
  by (induction xs) (simp_all add: algebra_simps)

lemma le_value_replicate_0 [simp]: "le_value (replicate n 0) = 0"
  by (induction n) simp_all

lemma pow256: "(256::nat) ^ k = 2 ^ (8 * k)"
proof -
  have "(256::nat) = 2 ^ 8" by simp
  then show ?thesis by (simp only: power_mult)
qed

text \<open>Decoding the encoding gives the integer back, when the width is that of the type.\<close>

lemma from_to_le_bytes:
  fixes w :: "'n::len word"
  assumes "LENGTH('n) = 8 * k"
  shows "from_le_bytes (to_le_bytes k w) = w"
proof -
  have "unat w < 256 ^ k" using unsigned_less [of w] by (simp add: pow256 assms)
  then show ?thesis by (simp add: from_le_bytes_def to_le_bytes_def le_value_le_digits)
qed

lemma from_to_be_bytes:
  fixes w :: "'n::len word"
  assumes "LENGTH('n) = 8 * k"
  shows "from_be_bytes (to_be_bytes k w) = w"
  using from_to_le_bytes [OF assms, of w]
  by (simp add: from_be_bytes_def to_be_bytes_def from_le_bytes_def to_le_bytes_def)

lemma from_to_ne_bytes:
  fixes w :: "'n::len word"
  assumes "LENGTH('n) = 8 * k"
  shows "from_ne_bytes big (to_ne_bytes big k w) = w"
  by (simp add: from_ne_bytes_def to_ne_bytes_def from_to_le_bytes from_to_be_bytes assms)

lemma unat_from_le_bytes:
  assumes "LENGTH('n::len) \<ge> 8 * length bs"
  shows "unat (from_le_bytes bs :: 'n word) = le_value bs"
proof -
  have "le_value bs < 2 ^ (8 * length bs)" using le_value_bound [of bs] by (simp add: pow256)
  also have "\<dots> \<le> 2 ^ LENGTH('n)" using assms by simp
  finally show ?thesis by (simp add: from_le_bytes_def unat_of_nat)
qed

lemma unat_from_be_bytes:
  assumes "LENGTH('n::len) \<ge> 8 * length bs"
  shows "unat (from_be_bytes bs :: 'n word) = le_value (rev bs)"
  using unat_from_le_bytes [of "rev bs", where 'n = 'n] assms
  by (simp add: from_be_bytes_def from_le_bytes_def)

section \<open>Lists and slices\<close>

text \<open>\<open>s.get(..n)\<close>: the first \<open>n\<close> elements, or \<open>None\<close> when there are fewer.\<close>

definition get_prefix :: "'a list \<Rightarrow> nat \<Rightarrow> 'a list option" where
  "get_prefix xs n = (if n \<le> length xs then Some (take n xs) else None)"

text \<open>\<open>s[i]\<close> and \<open>s[a..b]\<close>, which panic out of range.\<close>

definition index :: "'a list \<Rightarrow> nat \<Rightarrow> 'a outcome" where
  "index xs i = (if i < length xs then Ok (xs ! i) else Fault PanicIndex)"

definition slice :: "'a list \<Rightarrow> nat \<Rightarrow> nat \<Rightarrow> 'a list outcome" where
  "slice xs a b = (if a \<le> b \<and> b \<le> length xs then Ok (take (b - a) (drop a xs)) else Fault PanicIndex)"

lemma index_ok [simp]: "i < length xs \<Longrightarrow> index xs i = Ok (xs ! i)"
  by (simp add: index_def)

lemma slice_ok [simp]: "a \<le> b \<Longrightarrow> b \<le> length xs \<Longrightarrow> slice xs a b = Ok (take (b - a) (drop a xs))"
  by (simp add: slice_def)

text \<open>Overwriting a stretch of a list, as \<open>copy_from_slice\<close> and \<open>ptr::copy\<close> do.\<close>

definition overwrite :: "'a list \<Rightarrow> nat \<Rightarrow> 'a list \<Rightarrow> 'a list" where
  "overwrite xs i ys = take i xs @ ys @ drop (i + length ys) xs"

lemma length_overwrite [simp]: "i + length ys \<le> length xs \<Longrightarrow> length (overwrite xs i ys) = length xs"
  by (simp add: overwrite_def)

lemma take_overwrite: "j \<le> i \<Longrightarrow> i \<le> length xs \<Longrightarrow> take j (overwrite xs i ys) = take j xs"
  by (simp add: overwrite_def min_def)

lemma take_overwrite_end:
  "i \<le> length xs \<Longrightarrow> take (i + length ys) (overwrite xs i ys) = take i xs @ ys"
  by (simp add: overwrite_def)

lemma drop_overwrite:
  "i + length ys \<le> length xs \<Longrightarrow> i + length ys \<le> j \<Longrightarrow> drop j (overwrite xs i ys) = drop j xs"
  by (simp add: overwrite_def)

lemma take_min_length [simp]:
  "take (min (length xs) n) xs = take n xs" "take (min n (length xs)) xs = take n xs"
  by (simp_all add: min_def)

lemma drop_min_length [simp]:
  "drop (min (length xs) n) xs = drop n xs" "drop (min n (length xs)) xs = drop n xs"
  by (simp_all add: min_def)

lemma prefix_take_eq: "prefix xs ys \<Longrightarrow> n \<le> length xs \<Longrightarrow> take n xs = take n ys"
  by (auto simp: prefix_def)

end
