(* ===== verification/Buf.thy ===== *)
theory Buf
  imports Prelude
begin

text \<open>
  The reading side of the \<open>bytes\<close> crate: the trait \<open>Buf\<close> of \<open>bytes/src/buf/buf_impl.rs\<close>, its
  provided methods, the forwarding implementations for \<open>&mut T\<close> and \<open>Box<T>\<close>, and the
  implementations for \<open>&[u8]\<close>, \<open>io::Cursor\<close> and \<open>VecDeque<u8>\<close>.

  A trait implementation is a record of operations. \<open>buf_required\<close> holds the three methods an
  implementer must write; \<open>buf_ops\<close> adds the provided methods that some implementer of the
  crate overrides, and \<open>buf_defaults\<close> fills these in with the provided bodies. Every other
  provided method is a definition over a \<open>buf_ops\<close>. A method on \<open>&mut self\<close> takes the buffer
  and returns its value with the new buffer, as an \<open>outcome\<close>.

  The locale \<open>buf_contract\<close> is what the crate relies on in an implementer: there is a
  sequence of bytes left (\<open>view\<close>), \<open>chunk\<close> shows a prefix of it that is not empty unless the
  sequence is, \<open>advance\<close> drops from its front, and both panic rather than run past its end.
\<close>

section \<open>The trait\<close>

record 'b buf_required =
  req_remaining :: "'b \<Rightarrow> usize"
  req_chunk :: "'b \<Rightarrow> u8 list"
  req_advance :: "'b \<Rightarrow> usize \<Rightarrow> 'b outcome"

record 'b buf_ops =
  remaining :: "'b \<Rightarrow> usize"
  chunk :: "'b \<Rightarrow> u8 list"
  advance :: "'b \<Rightarrow> usize \<Rightarrow> 'b outcome"
  copy_to_slice :: "'b \<Rightarrow> usize \<Rightarrow> (u8 list \<times> 'b) outcome"
  chunks_vectored :: "'b \<Rightarrow> u8 list list \<Rightarrow> (u8 list list \<times> usize) outcome"

text \<open>
  \<open>copy_to_slice(dst)\<close>: the state of the loop is what has been written to \<open>dst\<close>, the number
  of bytes of \<open>dst\<close> still to fill, and the buffer. An implementer whose \<open>chunk\<close> is empty while
  \<open>remaining\<close> is not would make the loop run forever.
\<close>

definition copy_to_slice_step ::
    "'b buf_required \<Rightarrow> u8 list \<times> usize \<times> 'b \<Rightarrow> (u8 list \<times> usize \<times> 'b) outcome" where
  "copy_to_slice_step R = (\<lambda>(out, dst, s).
     let src = req_chunk R s;
         cnt = min (length src) dst
     in obind (req_advance R s cnt) (\<lambda>s'. Ok (out @ take cnt src, dst - cnt, s')))"

definition copy_to_slice_default ::
    "'b buf_required \<Rightarrow> 'b \<Rightarrow> usize \<Rightarrow> (u8 list \<times> 'b) outcome" where
  "copy_to_slice_default R s dst_len =
     (if req_remaining R s < dst_len then Fault (PanicAdvance dst_len (req_remaining R s))
      else omap (\<lambda>(out, dst, s'). (out, s'))
             (loop (\<lambda>(out, dst, s). dst \<noteq> 0) (copy_to_slice_step R) ([], dst_len, s)))"

text \<open>\<open>chunks_vectored(dst)\<close>: \<open>dst\<close> is the list of the slices its entries hold.\<close>

definition chunks_vectored_default ::
    "'b buf_required \<Rightarrow> 'b \<Rightarrow> u8 list list \<Rightarrow> (u8 list list \<times> usize) outcome" where
  "chunks_vectored_default R s dst =
     (if dst = [] then Ok (dst, 0)
      else if req_remaining R s > 0 then Ok (dst[0 := req_chunk R s], 1)
      else Ok (dst, 0))"

definition buf_defaults :: "'b buf_required \<Rightarrow> 'b buf_ops" where
  "buf_defaults R =
     \<lparr>remaining = req_remaining R,
      chunk = req_chunk R,
      advance = req_advance R,
      copy_to_slice = copy_to_slice_default R,
      chunks_vectored = chunks_vectored_default R\<rparr>"

definition has_remaining :: "'b buf_ops \<Rightarrow> 'b \<Rightarrow> bool" where
  "has_remaining B s = (remaining B s > 0)"

section \<open>Reading integers\<close>

text \<open>
  The three arms of the macro \<open>buf_get_impl!\<close>: a fixed-width read, which converts straight
  from the chunk when that is long enough, and the little- and big-endian reads of
  \<open>len_to_read\<close> bytes into a wider integer.
\<close>

definition buf_get_impl ::
    "usize \<Rightarrow> (u8 list \<Rightarrow> 'n::len word) \<Rightarrow> 'b buf_ops \<Rightarrow> 'b \<Rightarrow> ('n word \<times> 'b) outcome" where
  "buf_get_impl SIZE conv B s =
     (if remaining B s < SIZE then Fault (PanicAdvance SIZE (remaining B s))
      else case get_prefix (chunk B s) SIZE of
             Some src \<Rightarrow> obind (advance B s SIZE) (\<lambda>s'. Ok (conv src, s'))
           | None \<Rightarrow> obind (copy_to_slice B s SIZE) (\<lambda>(buf, s'). Ok (conv buf, s')))"

definition buf_get_impl_le ::
    "usize \<Rightarrow> 'b buf_ops \<Rightarrow> usize \<Rightarrow> 'b \<Rightarrow> ('n::len word \<times> 'b) outcome" where
  "buf_get_impl_le SIZE B len_to_read s =
     (if len_to_read \<le> SIZE
      then obind (copy_to_slice B s len_to_read) (\<lambda>(sub, s').
             Ok (from_le_bytes (sub @ replicate (SIZE - len_to_read) 0), s'))
      else Fault (PanicDoesNotFit SIZE len_to_read))"

definition buf_get_impl_be ::
    "usize \<Rightarrow> 'b buf_ops \<Rightarrow> usize \<Rightarrow> 'b \<Rightarrow> ('n::len word \<times> 'b) outcome" where
  "buf_get_impl_be SIZE B len_to_read s =
     (case checked_sub SIZE len_to_read of
        Some slice_at \<Rightarrow>
          obind (copy_to_slice B s len_to_read) (\<lambda>(sub, s').
            Ok (from_be_bytes (replicate slice_at 0 @ sub), s'))
      | None \<Rightarrow> Fault (PanicDoesNotFit SIZE len_to_read))"

text \<open>
  \<open>sign_extend\<close>. The subtraction panics for \<open>nbytes > 8\<close> where overflow is checked; the
  callers never get there, because reading more than 8 bytes has panicked before.
\<close>

definition sign_extend :: "u64 \<Rightarrow> usize \<Rightarrow> i64 outcome" where
  "sign_extend val nbytes =
     (if nbytes \<le> 8
      then let shift = (8 - nbytes) + 8 in Ok (signed_drop_bit shift (push_bit shift val))
      else Fault PanicOverflow)"

definition get_u8 :: "'b buf_ops \<Rightarrow> 'b \<Rightarrow> (u8 \<times> 'b) outcome" where
  "get_u8 B s =
     (if remaining B s < 1 then Fault (PanicAdvance 1 0)
      else obind (index (chunk B s) 0) (\<lambda>ret.
           obind (advance B s 1) (\<lambda>s'. Ok (ret, s'))))"

definition get_i8 :: "'b buf_ops \<Rightarrow> 'b \<Rightarrow> (i8 \<times> 'b) outcome" where
  "get_i8 B s =
     (if remaining B s < 1 then Fault (PanicAdvance 1 0)
      else obind (index (chunk B s) 0) (\<lambda>ret.
           obind (advance B s 1) (\<lambda>s'. Ok (ret, s'))))"

definition get_u16 :: "'b buf_ops \<Rightarrow> 'b \<Rightarrow> (u16 \<times> 'b) outcome" where
  "get_u16 = buf_get_impl 2 from_be_bytes"

definition get_u16_le :: "'b buf_ops \<Rightarrow> 'b \<Rightarrow> (u16 \<times> 'b) outcome" where
  "get_u16_le = buf_get_impl 2 from_le_bytes"

definition get_u16_ne :: "bool \<Rightarrow> 'b buf_ops \<Rightarrow> 'b \<Rightarrow> (u16 \<times> 'b) outcome" where
  "get_u16_ne big = buf_get_impl 2 (from_ne_bytes big)"

definition get_i16 :: "'b buf_ops \<Rightarrow> 'b \<Rightarrow> (i16 \<times> 'b) outcome" where
  "get_i16 = buf_get_impl 2 from_be_bytes"

definition get_i16_le :: "'b buf_ops \<Rightarrow> 'b \<Rightarrow> (i16 \<times> 'b) outcome" where
  "get_i16_le = buf_get_impl 2 from_le_bytes"

definition get_i16_ne :: "bool \<Rightarrow> 'b buf_ops \<Rightarrow> 'b \<Rightarrow> (i16 \<times> 'b) outcome" where
  "get_i16_ne big = buf_get_impl 2 (from_ne_bytes big)"

definition get_u32 :: "'b buf_ops \<Rightarrow> 'b \<Rightarrow> (u32 \<times> 'b) outcome" where
  "get_u32 = buf_get_impl 4 from_be_bytes"

definition get_u32_le :: "'b buf_ops \<Rightarrow> 'b \<Rightarrow> (u32 \<times> 'b) outcome" where
  "get_u32_le = buf_get_impl 4 from_le_bytes"

definition get_u32_ne :: "bool \<Rightarrow> 'b buf_ops \<Rightarrow> 'b \<Rightarrow> (u32 \<times> 'b) outcome" where
  "get_u32_ne big = buf_get_impl 4 (from_ne_bytes big)"

definition get_i32 :: "'b buf_ops \<Rightarrow> 'b \<Rightarrow> (i32 \<times> 'b) outcome" where
  "get_i32 = buf_get_impl 4 from_be_bytes"

definition get_i32_le :: "'b buf_ops \<Rightarrow> 'b \<Rightarrow> (i32 \<times> 'b) outcome" where
  "get_i32_le = buf_get_impl 4 from_le_bytes"

definition get_i32_ne :: "bool \<Rightarrow> 'b buf_ops \<Rightarrow> 'b \<Rightarrow> (i32 \<times> 'b) outcome" where
  "get_i32_ne big = buf_get_impl 4 (from_ne_bytes big)"

definition get_u64 :: "'b buf_ops \<Rightarrow> 'b \<Rightarrow> (u64 \<times> 'b) outcome" where
  "get_u64 = buf_get_impl 8 from_be_bytes"

definition get_u64_le :: "'b buf_ops \<Rightarrow> 'b \<Rightarrow> (u64 \<times> 'b) outcome" where
  "get_u64_le = buf_get_impl 8 from_le_bytes"

definition get_u64_ne :: "bool \<Rightarrow> 'b buf_ops \<Rightarrow> 'b \<Rightarrow> (u64 \<times> 'b) outcome" where
  "get_u64_ne big = buf_get_impl 8 (from_ne_bytes big)"

definition get_i64 :: "'b buf_ops \<Rightarrow> 'b \<Rightarrow> (i64 \<times> 'b) outcome" where
  "get_i64 = buf_get_impl 8 from_be_bytes"

definition get_i64_le :: "'b buf_ops \<Rightarrow> 'b \<Rightarrow> (i64 \<times> 'b) outcome" where
  "get_i64_le = buf_get_impl 8 from_le_bytes"

definition get_i64_ne :: "bool \<Rightarrow> 'b buf_ops \<Rightarrow> 'b \<Rightarrow> (i64 \<times> 'b) outcome" where
  "get_i64_ne big = buf_get_impl 8 (from_ne_bytes big)"

definition get_u128 :: "'b buf_ops \<Rightarrow> 'b \<Rightarrow> (u128 \<times> 'b) outcome" where
  "get_u128 = buf_get_impl 16 from_be_bytes"

definition get_u128_le :: "'b buf_ops \<Rightarrow> 'b \<Rightarrow> (u128 \<times> 'b) outcome" where
  "get_u128_le = buf_get_impl 16 from_le_bytes"

definition get_u128_ne :: "bool \<Rightarrow> 'b buf_ops \<Rightarrow> 'b \<Rightarrow> (u128 \<times> 'b) outcome" where
  "get_u128_ne big = buf_get_impl 16 (from_ne_bytes big)"

definition get_i128 :: "'b buf_ops \<Rightarrow> 'b \<Rightarrow> (i128 \<times> 'b) outcome" where
  "get_i128 = buf_get_impl 16 from_be_bytes"

definition get_i128_le :: "'b buf_ops \<Rightarrow> 'b \<Rightarrow> (i128 \<times> 'b) outcome" where
  "get_i128_le = buf_get_impl 16 from_le_bytes"

definition get_i128_ne :: "bool \<Rightarrow> 'b buf_ops \<Rightarrow> 'b \<Rightarrow> (i128 \<times> 'b) outcome" where
  "get_i128_ne big = buf_get_impl 16 (from_ne_bytes big)"

definition get_uint :: "'b buf_ops \<Rightarrow> usize \<Rightarrow> 'b \<Rightarrow> (u64 \<times> 'b) outcome" where
  "get_uint B nbytes s = buf_get_impl_be 8 B nbytes s"

definition get_uint_le :: "'b buf_ops \<Rightarrow> usize \<Rightarrow> 'b \<Rightarrow> (u64 \<times> 'b) outcome" where
  "get_uint_le B nbytes s = buf_get_impl_le 8 B nbytes s"

definition get_uint_ne :: "bool \<Rightarrow> 'b buf_ops \<Rightarrow> usize \<Rightarrow> 'b \<Rightarrow> (u64 \<times> 'b) outcome" where
  "get_uint_ne big B nbytes s = (if big then get_uint B nbytes s else get_uint_le B nbytes s)"

definition get_int :: "'b buf_ops \<Rightarrow> usize \<Rightarrow> 'b \<Rightarrow> (i64 \<times> 'b) outcome" where
  "get_int B nbytes s =
     obind (get_uint B nbytes s) (\<lambda>(val, s').
       obind (sign_extend val nbytes) (\<lambda>r. Ok (r, s')))"

definition get_int_le :: "'b buf_ops \<Rightarrow> usize \<Rightarrow> 'b \<Rightarrow> (i64 \<times> 'b) outcome" where
  "get_int_le B nbytes s =
     obind (get_uint_le B nbytes s) (\<lambda>(val, s').
       obind (sign_extend val nbytes) (\<lambda>r. Ok (r, s')))"

definition get_int_ne :: "bool \<Rightarrow> 'b buf_ops \<Rightarrow> usize \<Rightarrow> 'b \<Rightarrow> (i64 \<times> 'b) outcome" where
  "get_int_ne big B nbytes s = (if big then get_int B nbytes s else get_int_le B nbytes s)"

text \<open>A float is its bit pattern, so \<open>from_bits\<close> is the identity.\<close>

definition get_f32 :: "'b buf_ops \<Rightarrow> 'b \<Rightarrow> (f32 \<times> 'b) outcome" where
  "get_f32 B s = get_u32 B s"

definition get_f32_le :: "'b buf_ops \<Rightarrow> 'b \<Rightarrow> (f32 \<times> 'b) outcome" where
  "get_f32_le B s = get_u32_le B s"

definition get_f32_ne :: "bool \<Rightarrow> 'b buf_ops \<Rightarrow> 'b \<Rightarrow> (f32 \<times> 'b) outcome" where
  "get_f32_ne big B s = get_u32_ne big B s"

definition get_f64 :: "'b buf_ops \<Rightarrow> 'b \<Rightarrow> (f64 \<times> 'b) outcome" where
  "get_f64 B s = get_u64 B s"

definition get_f64_le :: "'b buf_ops \<Rightarrow> 'b \<Rightarrow> (f64 \<times> 'b) outcome" where
  "get_f64_le B s = get_u64_le B s"

definition get_f64_ne :: "bool \<Rightarrow> 'b buf_ops \<Rightarrow> 'b \<Rightarrow> (f64 \<times> 'b) outcome" where
  "get_f64_ne big B s = get_u64_ne big B s"

section \<open>Implementations\<close>

text \<open>
  \<open>deref_forward_buf!\<close>, the implementation for \<open>&mut T\<close> and \<open>Box<T>\<close>: every method is that of
  the buffer behind the pointer.
\<close>

definition deref_forward_buf :: "'b buf_ops \<Rightarrow> 'b buf_ops" where
  "deref_forward_buf B =
     \<lparr>remaining = (\<lambda>self. remaining B self),
      chunk = (\<lambda>self. chunk B self),
      advance = (\<lambda>self cnt. advance B self cnt),
      copy_to_slice = (\<lambda>self dst. copy_to_slice B self dst),
      chunks_vectored = (\<lambda>self dst. chunks_vectored B self dst)\<rparr>"

text \<open>\<open>impl Buf for &[u8]\<close>: the buffer is the slice that is left.\<close>

definition slice_advance :: "u8 list \<Rightarrow> usize \<Rightarrow> u8 list outcome" where
  "slice_advance self cnt =
     (if length self < cnt then Fault (PanicAdvance cnt (length self)) else Ok (drop cnt self))"

definition slice_copy_to_slice :: "u8 list \<Rightarrow> usize \<Rightarrow> (u8 list \<times> u8 list) outcome" where
  "slice_copy_to_slice self dst_len =
     (if length self < dst_len then Fault (PanicAdvance dst_len (length self))
      else obind (slice_advance self dst_len) (\<lambda>self'. Ok (take dst_len self, self')))"

definition slice_required :: "u8 list buf_required" where
  "slice_required =
     \<lparr>req_remaining = length, req_chunk = (\<lambda>self. self), req_advance = slice_advance\<rparr>"

definition slice_buf :: "u8 list buf_ops" where
  "slice_buf = (buf_defaults slice_required)\<lparr>copy_to_slice := slice_copy_to_slice\<rparr>"

text \<open>
  \<open>impl Buf for io::Cursor\<close>. The position is a \<open>u64\<close> and may lie past the end of the data.
\<close>

record cursor =
  get_ref :: "u8 list"
  position :: nat

definition usize_try_from :: "nat \<Rightarrow> usize option" where
  "usize_try_from b = (if b \<le> usize_max then Some b else None)"

definition saturating_sub_usize_u64 :: "usize \<Rightarrow> nat \<Rightarrow> usize" where
  "saturating_sub_usize_u64 a b = (case usize_try_from b of Some b' \<Rightarrow> a - b' | None \<Rightarrow> 0)"

definition min_u64_usize :: "nat \<Rightarrow> usize \<Rightarrow> usize" where
  "min_u64_usize a b = (case usize_try_from a of Some a' \<Rightarrow> min a' b | None \<Rightarrow> b)"

definition cursor_remaining :: "cursor \<Rightarrow> usize" where
  "cursor_remaining self = saturating_sub_usize_u64 (length (get_ref self)) (position self)"

definition cursor_chunk :: "cursor \<Rightarrow> u8 list" where
  "cursor_chunk self =
     (let slice = get_ref self; pos = min_u64_usize (position self) (length slice)
      in drop pos slice)"

definition cursor_advance :: "cursor \<Rightarrow> usize \<Rightarrow> cursor outcome" where
  "cursor_advance self cnt =
     (let len = length (get_ref self);
          pos = position self;
          max_cnt = saturating_sub_usize_u64 len pos
      in if cnt > max_cnt then Fault (PanicAdvance cnt max_cnt)
         else Ok (self\<lparr>position := pos + cnt\<rparr>))"

definition cursor_buf :: "cursor buf_ops" where
  "cursor_buf = buf_defaults
     \<lparr>req_remaining = cursor_remaining, req_chunk = cursor_chunk, req_advance = cursor_advance\<rparr>"

text \<open>
  \<open>impl Buf for VecDeque<u8>\<close> (\<open>bytes/src/buf/vec_deque.rs\<close>). The deque is the pair that
  \<open>as_slices\<close> gives; draining from the front moves the head of the ring buffer, and past the
  first slice it continues in the second.
\<close>

type_synonym vec_deque = "u8 list \<times> u8 list"

definition vec_deque_remaining :: "vec_deque \<Rightarrow> usize" where
  "vec_deque_remaining self = (case self of (s1, s2) \<Rightarrow> length s1 + length s2)"

definition vec_deque_chunk :: "vec_deque \<Rightarrow> u8 list" where
  "vec_deque_chunk self = (case self of (s1, s2) \<Rightarrow> if s1 = [] then s2 else s1)"

definition vec_deque_advance :: "vec_deque \<Rightarrow> usize \<Rightarrow> vec_deque outcome" where
  "vec_deque_advance self cnt =
     (case self of (s1, s2) \<Rightarrow>
        if length s1 + length s2 < cnt then Fault PanicIndex
        else if cnt < length s1 then Ok (drop cnt s1, s2)
        else Ok (drop (cnt - length s1) s2, []))"

definition vec_deque_buf :: "vec_deque buf_ops" where
  "vec_deque_buf = buf_defaults
     \<lparr>req_remaining = vec_deque_remaining, req_chunk = vec_deque_chunk,
      req_advance = vec_deque_advance\<rparr>"

named_theorems buf_simps \<open>projections of the buffer records\<close>

lemma buf_defaults_simps [buf_simps, simp]:
  "remaining (buf_defaults R) = req_remaining R"
  "chunk (buf_defaults R) = req_chunk R"
  "advance (buf_defaults R) = req_advance R"
  "copy_to_slice (buf_defaults R) = copy_to_slice_default R"
  "chunks_vectored (buf_defaults R) = chunks_vectored_default R"
  by (simp_all add: buf_defaults_def)

lemmas get_impl_defs =
  get_u16_def get_u16_le_def get_u16_ne_def get_i16_def get_i16_le_def get_i16_ne_def get_u32_def get_u32_le_def get_u32_ne_def get_i32_def get_i32_le_def get_i32_ne_def get_u64_def get_u64_le_def get_u64_ne_def get_i64_def get_i64_le_def get_i64_ne_def get_u128_def get_u128_le_def get_u128_ne_def get_i128_def get_i128_le_def get_i128_ne_def

section \<open>The contract\<close>

text \<open>
  \<open>reads invar view s n x r\<close>: the outcome \<open>r\<close> of a read from \<open>s\<close> is the value \<open>x\<close>, and the buffer
  has lost exactly its first \<open>n\<close> bytes.
\<close>

definition reads ::
    "('b \<Rightarrow> bool) \<Rightarrow> ('b \<Rightarrow> u8 list) \<Rightarrow> 'b \<Rightarrow> nat \<Rightarrow> 'a \<Rightarrow> ('a \<times> 'b) outcome \<Rightarrow> bool" where
  "reads invar view s n x r \<longleftrightarrow> (\<exists>s'. r = Ok (x, s') \<and> invar s' \<and> view s' = drop n (view s))"

lemma readsI: "r = Ok (x, s') \<Longrightarrow> invar s' \<Longrightarrow> view s' = drop n (view s) \<Longrightarrow> reads invar view s n x r"
  by (auto simp: reads_def)

lemma readsE:
  assumes "reads invar view s n x r"
  obtains s' where "r = Ok (x, s')" "invar s'" "view s' = drop n (view s)"
  using assms by (auto simp: reads_def)

text \<open>What an implementer of the three required methods owes.\<close>

locale buf_required_contract =
  fixes R :: "'b buf_required" and invar :: "'b \<Rightarrow> bool" and view :: "'b \<Rightarrow> u8 list"
  assumes req_remaining_view: "invar s \<Longrightarrow> req_remaining R s = length (view s)"
    and req_chunk_prefix: "invar s \<Longrightarrow> prefix (req_chunk R s) (view s)"
    and req_chunk_nonempty: "invar s \<Longrightarrow> view s \<noteq> [] \<Longrightarrow> req_chunk R s \<noteq> []"
    and req_advance_ok: "invar s \<Longrightarrow> n \<le> length (view s) \<Longrightarrow>
      \<exists>s'. req_advance R s n = Ok s' \<and> invar s' \<and> view s' = drop n (view s)"
    and req_advance_panics: "invar s \<Longrightarrow> length (view s) < n \<Longrightarrow> \<not> is_ok (req_advance R s n)"

text \<open>What a client of the whole trait relies on.\<close>

locale buf_contract =
  fixes B :: "'b buf_ops" and invar :: "'b \<Rightarrow> bool" and view :: "'b \<Rightarrow> u8 list"
  assumes remaining_view: "invar s \<Longrightarrow> remaining B s = length (view s)"
    and chunk_prefix: "invar s \<Longrightarrow> prefix (chunk B s) (view s)"
    and chunk_nonempty: "invar s \<Longrightarrow> view s \<noteq> [] \<Longrightarrow> chunk B s \<noteq> []"
    and advance_ok: "invar s \<Longrightarrow> n \<le> length (view s) \<Longrightarrow>
      \<exists>s'. advance B s n = Ok s' \<and> invar s' \<and> view s' = drop n (view s)"
    and advance_panics: "invar s \<Longrightarrow> length (view s) < n \<Longrightarrow> \<not> is_ok (advance B s n)"
    and copy_to_slice_ok: "invar s \<Longrightarrow> n \<le> length (view s) \<Longrightarrow>
      reads invar view s n (take n (view s)) (copy_to_slice B s n)"
    and copy_to_slice_panics: "invar s \<Longrightarrow> length (view s) < n \<Longrightarrow>
      copy_to_slice B s n = Fault (PanicAdvance n (length (view s)))"

context buf_required_contract
begin

text \<open>One round of the copy loop writes a non-empty stretch and advances over it.\<close>

lemma copy_step:
  assumes "invar s" and "n \<noteq> 0" and "n \<le> length (view s)"
  obtains k s' where "copy_to_slice_step R (out, n, s) = Ok (out @ take k (view s), n - k, s')"
    and "0 < k" and "k \<le> n" and "invar s'" and "view s' = drop k (view s)"
proof -
  let ?k = "min (length (req_chunk R s)) n"
  have ne: "view s \<noteq> []" using assms by auto
  with assms(1) have pos: "0 < ?k" using req_chunk_nonempty assms(2) by simp
  have le: "?k \<le> length (view s)" using assms(3) by simp
  obtain s' where s': "req_advance R s ?k = Ok s'" "invar s'" "view s' = drop ?k (view s)"
    using req_advance_ok [OF assms(1) le] by blast
  have "take ?k (req_chunk R s) = take ?k (view s)"
    by (rule prefix_take_eq [OF req_chunk_prefix [OF assms(1)]]) simp
  then have "copy_to_slice_step R (out, n, s) = Ok (out @ take ?k (view s), n - ?k, s')"
    using s'(1) by (simp add: copy_to_slice_step_def Let_def)
  with pos s' show thesis by (intro that [of ?k s']) simp_all
qed

lemma copy_loop:
  assumes "invar s" and "n \<le> length (view s)"
  shows "\<exists>s'. loop (\<lambda>(out, dst, s). dst \<noteq> 0) (copy_to_slice_step R) (out, n, s)
              = Ok (out @ take n (view s), 0, s') \<and> invar s' \<and> view s' = drop n (view s)"
  using assms
proof (induction n arbitrary: s out rule: less_induct)
  case (less n)
  show ?case
  proof (cases "n = 0")
    case True
    with less.prems show ?thesis by (simp add: loop_done)
  next
    case False
    obtain k s' where k: "copy_to_slice_step R (out, n, s) = Ok (out @ take k (view s), n - k, s')"
      "0 < k" "k \<le> n" "invar s'" "view s' = drop k (view s)"
      using copy_step [OF less.prems(1) False less.prems(2)] by metis
    have "n - k \<le> length (view s')" using k(5) less.prems(2) by simp
    then obtain s'' where s'':
      "loop (\<lambda>(out, dst, s). dst \<noteq> 0) (copy_to_slice_step R) (out @ take k (view s), n - k, s')
        = Ok ((out @ take k (view s)) @ take (n - k) (view s'), 0, s'')"
      "invar s''" "view s'' = drop (n - k) (view s')"
      using less.IH [of "n - k" s' "out @ take k (view s)"] k(2,3,4) False by auto
    have "take k (view s) @ take (n - k) (drop k (view s)) = take n (view s)"
      using k(3) by (metis le_add_diff_inverse take_add)
    with s'' k(1,3,5) False show ?thesis by (simp add: loop_step)
  qed
qed

lemma copy_to_slice_default_ok:
  "invar s \<Longrightarrow> n \<le> length (view s) \<Longrightarrow>
   reads invar view s n (take n (view s)) (copy_to_slice_default R s n)"
  using copy_loop [of s n "[]"]
  by (auto simp: copy_to_slice_default_def req_remaining_view reads_def)

lemma copy_to_slice_default_panics:
  "invar s \<Longrightarrow> length (view s) < n \<Longrightarrow>
   copy_to_slice_default R s n = Fault (PanicAdvance n (length (view s)))"
  by (simp add: copy_to_slice_default_def req_remaining_view)

end

text \<open>The provided \<open>copy_to_slice\<close> meets the contract, so required methods are enough.\<close>

sublocale buf_required_contract \<subseteq> full: buf_contract "buf_defaults R" invar view
  by unfold_locales
    (simp_all add: req_remaining_view req_chunk_prefix req_chunk_nonempty req_advance_ok
      req_advance_panics copy_to_slice_default_ok copy_to_slice_default_panics)

context buf_required_contract
begin

lemma defaults_contract: "buf_contract (buf_defaults R) invar view"
  by (rule full.buf_contract_axioms)

end

context buf_contract
begin

lemma has_remaining_iff: "invar s \<Longrightarrow> has_remaining B s \<longleftrightarrow> view s \<noteq> []"
  by (simp add: has_remaining_def remaining_view)

lemma get_impl_ok:
  assumes "invar s" and "n \<le> length (view s)"
  shows "reads invar view s n (conv (take n (view s))) (buf_get_impl n conv B s)"
proof (cases "n \<le> length (chunk B s)")
  case True
  obtain s' where s': "advance B s n = Ok s'" "invar s'" "view s' = drop n (view s)"
    using advance_ok [OF assms] by blast
  have "take n (chunk B s) = take n (view s)"
    by (rule prefix_take_eq [OF chunk_prefix [OF assms(1)] True])
  with True s' assms show ?thesis
    by (auto simp: buf_get_impl_def remaining_view get_prefix_def intro!: readsI)
next
  case False
  with copy_to_slice_ok [OF assms] assms show ?thesis
    by (auto simp: buf_get_impl_def remaining_view get_prefix_def elim!: readsE intro!: readsI)
qed

lemma get_impl_panics:
  "invar s \<Longrightarrow> length (view s) < n \<Longrightarrow>
   buf_get_impl n conv B s = Fault (PanicAdvance n (length (view s)))"
  by (simp add: buf_get_impl_def remaining_view)

lemma get_u8_ok:
  assumes "invar s" and "view s = b # bs"
  shows "reads invar view s 1 b (get_u8 B s)"
proof -
  have "chunk B s \<noteq> []" and "prefix (chunk B s) (b # bs)"
    using chunk_nonempty [OF assms(1)] chunk_prefix [OF assms(1)] assms(2) by simp_all
  then have "0 < length (chunk B s)" and "chunk B s ! 0 = b"
    by (cases "chunk B s"; simp)+
  moreover obtain s' where "advance B s 1 = Ok s'" "invar s'" "view s' = drop 1 (view s)"
    using advance_ok [of s 1] assms by auto
  ultimately show ?thesis
    using assms by (auto simp: get_u8_def remaining_view intro!: readsI)
qed

lemma get_i8_eq: "get_i8 B s = get_u8 B s"
  by (simp add: get_i8_def get_u8_def)

lemma get_impl_be_ok:
  assumes "invar s" and "n \<le> 8" and "n \<le> length (view s)"
  shows "reads invar view s n (of_nat (le_value (rev (take n (view s)))) :: u64)
           (buf_get_impl_be 8 B n s)"
  using copy_to_slice_ok [OF assms(1,3)] assms(2)
  by (auto simp: buf_get_impl_be_def checked_sub_def from_be_bytes_def le_value_append
      elim!: readsE intro!: readsI)

lemma get_impl_le_ok:
  assumes "invar s" and "n \<le> 8" and "n \<le> length (view s)"
  shows "reads invar view s n (of_nat (le_value (take n (view s))) :: u64)
           (buf_get_impl_le 8 B n s)"
  using copy_to_slice_ok [OF assms(1,3)] assms(2)
  by (auto simp: buf_get_impl_le_def from_le_bytes_def le_value_append
      elim!: readsE intro!: readsI)

lemma get_uint_too_wide:
  "8 < n \<Longrightarrow> get_uint B n s = Fault (PanicDoesNotFit 8 n)"
  "8 < n \<Longrightarrow> get_uint_le B n s = Fault (PanicDoesNotFit 8 n)"
  by (simp_all add: get_uint_def get_uint_le_def buf_get_impl_be_def buf_get_impl_le_def
      checked_sub_def)

end

section \<open>The implementations meet the contract\<close>

interpretation slice_req: buf_required_contract slice_required "\<lambda>_. True" "\<lambda>s. s"
  by unfold_locales (simp_all add: slice_required_def slice_advance_def)

interpretation slice_b: buf_contract slice_buf "\<lambda>_. True" "\<lambda>s. s"
  by unfold_locales
    (auto simp: slice_buf_def slice_required_def slice_advance_def slice_copy_to_slice_def
      reads_def)

lemma cursor_remaining_eq: "cursor_remaining c = length (get_ref c) - position c"
  if "length (get_ref c) \<le> usize_max"
  using that
  by (auto simp: cursor_remaining_def saturating_sub_usize_u64_def usize_try_from_def
      split: option.splits if_splits)

lemma cursor_chunk_eq: "cursor_chunk c = drop (position c) (get_ref c)"
  if "length (get_ref c) \<le> usize_max"
  using that
  by (auto simp: cursor_chunk_def min_u64_usize_def usize_try_from_def Let_def min_def)

interpretation cursor_req: buf_required_contract
  "\<lparr>req_remaining = cursor_remaining, req_chunk = cursor_chunk, req_advance = cursor_advance\<rparr>"
  "\<lambda>c. length (get_ref c) \<le> usize_max" "\<lambda>c. drop (position c) (get_ref c)"
proof (unfold_locales, goal_cases)
  case (4 c n)
  then show ?case
    by (auto simp: cursor_advance_def Let_def cursor_remaining_eq [unfolded cursor_remaining_def]
        add.commute)
next
  case (5 c n)
  then show ?case
    by (auto simp: cursor_advance_def Let_def cursor_remaining_eq [unfolded cursor_remaining_def])
qed (simp_all add: cursor_remaining_eq cursor_chunk_eq)

interpretation vec_deque_req: buf_required_contract
  "\<lparr>req_remaining = vec_deque_remaining, req_chunk = vec_deque_chunk,
    req_advance = vec_deque_advance\<rparr>"
  "\<lambda>_. True" "\<lambda>(s1, s2). s1 @ s2"
  by unfold_locales
    (auto simp: vec_deque_remaining_def vec_deque_chunk_def vec_deque_advance_def
      split: prod.splits)

text \<open>Forwarding through a pointer changes nothing.\<close>

lemma deref_forward_buf_id [simp]: "deref_forward_buf B = B"
  by (simp add: deref_forward_buf_def)

end
