(* ===== verification/Read_Adapters.thy ===== *)
theory Read_Adapters
  imports Buf
begin

text \<open>
  The adapters over \<open>Buf\<close>: \<open>Chain\<close> (\<open>bytes/src/buf/chain.rs\<close>, its reading half), \<open>Take\<close>
  (\<open>take.rs\<close>), the byte iterator \<open>IntoIter\<close> (\<open>iter.rs\<close>) and the \<open>io::Read\<close> adapter \<open>Reader\<close>
  (\<open>reader.rs\<close>). Each is a definition over the operations of the buffers it wraps; the
  locales \<open>chain_contract\<close> and \<open>take_contract\<close> show that an adapter of buffers that meet the
  contract of \<open>Buf\<close> meets it again, so that adapters nest.
\<close>

section \<open>Chain\<close>

record ('a, 'b) chain =
  chain_a :: 'a
  chain_b :: 'b

definition chain_new :: "'a \<Rightarrow> 'b \<Rightarrow> ('a, 'b) chain" where
  "chain_new a b = \<lparr>chain_a = a, chain_b = b\<rparr>"

definition chain_into_inner :: "('a, 'b) chain \<Rightarrow> 'a \<times> 'b" where
  "chain_into_inner self = (chain_a self, chain_b self)"

definition chain_remaining :: "'a buf_ops \<Rightarrow> 'b buf_ops \<Rightarrow> ('a, 'b) chain \<Rightarrow> usize" where
  "chain_remaining A B self =
     saturating_add (remaining A (chain_a self)) (remaining B (chain_b self))"

definition chain_chunk :: "'a buf_ops \<Rightarrow> 'b buf_ops \<Rightarrow> ('a, 'b) chain \<Rightarrow> u8 list" where
  "chain_chunk A B self =
     (if has_remaining A (chain_a self) then chunk A (chain_a self) else chunk B (chain_b self))"

definition chain_advance ::
    "'a buf_ops \<Rightarrow> 'b buf_ops \<Rightarrow> ('a, 'b) chain \<Rightarrow> usize \<Rightarrow> ('a, 'b) chain outcome" where
  "chain_advance A B self cnt =
     (let a_rem = remaining A (chain_a self)
      in if a_rem \<noteq> 0
         then if a_rem > cnt
              then obind (advance A (chain_a self) cnt) (\<lambda>a'. Ok (self\<lparr>chain_a := a'\<rparr>))
              else obind (advance A (chain_a self) a_rem) (\<lambda>a'.
                   obind (advance B (chain_b self) (cnt - a_rem)) (\<lambda>b'.
                     Ok (self\<lparr>chain_a := a', chain_b := b'\<rparr>)))
         else obind (advance B (chain_b self) cnt) (\<lambda>b'. Ok (self\<lparr>chain_b := b'\<rparr>)))"

text \<open>
  \<open>chunks_vectored\<close>: the second buffer is handed \<open>&mut dst[..n]\<close>, the entries that the first
  one has just filled.
\<close>

definition chain_chunks_vectored ::
    "'a buf_ops \<Rightarrow> 'b buf_ops \<Rightarrow> ('a, 'b) chain \<Rightarrow> u8 list list \<Rightarrow> (u8 list list \<times> usize) outcome" where
  "chain_chunks_vectored A B self dst =
     obind (chunks_vectored A (chain_a self) dst) (\<lambda>(dst1, n).
     obind (guard (n \<le> length dst1) PanicIndex) (\<lambda>_.
     obind (chunks_vectored B (chain_b self) (take n dst1)) (\<lambda>(dst2, m).
       Ok (dst2 @ drop n dst1, n + m))))"

definition chain_required :: "'a buf_ops \<Rightarrow> 'b buf_ops \<Rightarrow> ('a, 'b) chain buf_required" where
  "chain_required A B =
     \<lparr>req_remaining = chain_remaining A B, req_chunk = chain_chunk A B,
      req_advance = chain_advance A B\<rparr>"

definition chain_buf :: "'a buf_ops \<Rightarrow> 'b buf_ops \<Rightarrow> ('a, 'b) chain buf_ops" where
  "chain_buf A B =
     (buf_defaults (chain_required A B))\<lparr>chunks_vectored := chain_chunks_vectored A B\<rparr>"

section \<open>Take\<close>

record 'b take_adapter =
  take_inner :: 'b
  take_limit :: usize

definition take_new :: "'b \<Rightarrow> usize \<Rightarrow> 'b take_adapter" where
  "take_new inner limit = \<lparr>take_inner = inner, take_limit = limit\<rparr>"

definition take_set_limit :: "'b take_adapter \<Rightarrow> usize \<Rightarrow> 'b take_adapter" where
  "take_set_limit self new_limit = self\<lparr>take_limit := new_limit\<rparr>"

definition take_remaining :: "'b buf_ops \<Rightarrow> 'b take_adapter \<Rightarrow> usize" where
  "take_remaining B self = min (remaining B (take_inner self)) (take_limit self)"

definition take_chunk :: "'b buf_ops \<Rightarrow> 'b take_adapter \<Rightarrow> u8 list" where
  "take_chunk B self =
     (let bytes = chunk B (take_inner self) in take (min (length bytes) (take_limit self)) bytes)"

definition take_advance ::
    "'b buf_ops \<Rightarrow> 'b take_adapter \<Rightarrow> usize \<Rightarrow> 'b take_adapter outcome" where
  "take_advance B self cnt =
     obind (guard (cnt \<le> take_limit self) PanicAssert) (\<lambda>_.
     obind (advance B (take_inner self) cnt) (\<lambda>inner'.
       Ok (self\<lparr>take_inner := inner', take_limit := take_limit self - cnt\<rparr>)))"

definition take_required :: "'b buf_ops \<Rightarrow> 'b take_adapter buf_required" where
  "take_required B =
     \<lparr>req_remaining = take_remaining B, req_chunk = take_chunk B, req_advance = take_advance B\<rparr>"

definition take_buf :: "'b buf_ops \<Rightarrow> 'b take_adapter buf_ops" where
  "take_buf B = buf_defaults (take_required B)"

section \<open>IntoIter\<close>

text \<open>\<open>next\<close> returns the item with the iterator; the iterator is its inner buffer.\<close>

definition into_iter_next :: "'b buf_ops \<Rightarrow> 'b \<Rightarrow> (u8 option \<times> 'b) outcome" where
  "into_iter_next B inner =
     (if \<not> has_remaining B inner then Ok (None, inner)
      else obind (index (chunk B inner) 0) (\<lambda>b.
           obind (advance B inner 1) (\<lambda>inner'. Ok (Some b, inner'))))"

definition into_iter_size_hint :: "'b buf_ops \<Rightarrow> 'b \<Rightarrow> usize \<times> usize option" where
  "into_iter_size_hint B inner = (let rem = remaining B inner in (rem, Some rem))"

text \<open>A \<open>for\<close> loop over the iterator: it calls \<open>next\<close> until that is \<open>None\<close>.\<close>

definition into_iter_collect :: "'b buf_ops \<Rightarrow> 'b \<Rightarrow> (u8 list \<times> 'b) outcome" where
  "into_iter_collect B inner =
     omap (\<lambda>(items, more, inner'). (items, inner'))
       (loop (\<lambda>(items, more, inner). more)
          (\<lambda>(items, more, inner).
             obind (into_iter_next B inner) (\<lambda>(item, inner').
               Ok (case item of Some b \<Rightarrow> (items @ [b], True, inner')
                   | None \<Rightarrow> (items, False, inner'))))
          ([], True, inner))"

section \<open>Reader\<close>

text \<open>\<open>read(buf)\<close>: the count, what \<open>buf\<close> holds afterwards, and the reader.\<close>

definition reader_read :: "'b buf_ops \<Rightarrow> 'b \<Rightarrow> u8 list \<Rightarrow> (usize \<times> u8 list \<times> 'b) outcome" where
  "reader_read B self buf =
     (let len = min (remaining B self) (length buf)
      in obind (copy_to_slice B self len) (\<lambda>(out, self').
           Ok (len, overwrite buf 0 out, self')))"

definition reader_fill_buf :: "'b buf_ops \<Rightarrow> 'b \<Rightarrow> u8 list" where
  "reader_fill_buf B self = chunk B self"

definition reader_consume :: "'b buf_ops \<Rightarrow> 'b \<Rightarrow> usize \<Rightarrow> 'b outcome" where
  "reader_consume B self amt = advance B self amt"

section \<open>Chains of buffers that meet the contract\<close>

text \<open>
  The invariant of a chain keeps the total length within \<open>usize\<close>: beyond it \<open>remaining\<close>
  saturates and no longer counts the bytes.
\<close>

definition chain_invar ::
    "('a \<Rightarrow> bool) \<Rightarrow> ('a \<Rightarrow> u8 list) \<Rightarrow> ('b \<Rightarrow> bool) \<Rightarrow> ('b \<Rightarrow> u8 list) \<Rightarrow> ('a, 'b) chain \<Rightarrow> bool" where
  "chain_invar IA VA IB VB c \<longleftrightarrow> IA (chain_a c) \<and> IB (chain_b c)
     \<and> length (VA (chain_a c)) + length (VB (chain_b c)) \<le> usize_max"

definition chain_view :: "('a \<Rightarrow> u8 list) \<Rightarrow> ('b \<Rightarrow> u8 list) \<Rightarrow> ('a, 'b) chain \<Rightarrow> u8 list" where
  "chain_view VA VB c = VA (chain_a c) @ VB (chain_b c)"

locale chain_contract =
  front: buf_contract A IA VA + rear: buf_contract B IB VB
  for A :: "'a buf_ops" and IA VA and B :: "'b buf_ops" and IB VB
begin

lemma chain_advance_ok:
  assumes "chain_invar IA VA IB VB c" and "n \<le> length (chain_view VA VB c)"
  shows "\<exists>c'. chain_advance A B c n = Ok c' \<and> chain_invar IA VA IB VB c'
           \<and> chain_view VA VB c' = drop n (chain_view VA VB c)"
proof -
  let ?a = "chain_a c" and ?b = "chain_b c"
  have I: "IA ?a" "IB ?b" and len: "length (VA ?a) + length (VB ?b) \<le> usize_max"
    and n: "n \<le> length (VA ?a) + length (VB ?b)"
    using assms by (auto simp: chain_invar_def chain_view_def)
  note rem = front.remaining_view [OF I(1)]
  show ?thesis
  proof (cases "n < length (VA ?a)")
    case True
    then obtain a' where "advance A ?a n = Ok a'" "IA a'" "VA a' = drop n (VA ?a)"
      using front.advance_ok [OF I(1), of n] by auto
    with True I len rem show ?thesis
      by (auto simp: chain_advance_def Let_def chain_invar_def chain_view_def)
  next
    case False
    let ?k = "n - length (VA ?a)"
    obtain a' where a': "advance A ?a (length (VA ?a)) = Ok a'" "IA a'" "VA a' = []"
      using front.advance_ok [OF I(1), of "length (VA ?a)"] by auto
    have "?k \<le> length (VB ?b)" using n by arith
    then obtain b' where b': "advance B ?b ?k = Ok b'" "IB b'" "VB b' = drop ?k (VB ?b)"
      using rear.advance_ok [OF I(2)] by blast
    from False a' b' I len rem show ?thesis
      by (cases "VA ?a = []") (auto simp: chain_advance_def Let_def chain_invar_def chain_view_def)
  qed
qed

lemma chain_advance_panics:
  assumes "chain_invar IA VA IB VB c" and "length (chain_view VA VB c) < n"
  shows "\<not> is_ok (chain_advance A B c n)"
proof -
  let ?a = "chain_a c" and ?b = "chain_b c"
  have I: "IA ?a" "IB ?b" and n: "length (VA ?a) + length (VB ?b) < n"
    using assms by (auto simp: chain_invar_def chain_view_def)
  then have "\<not> is_ok (advance B ?b (n - length (VA ?a)))"
    by (intro rear.advance_panics) simp_all
  then obtain e where "advance B ?b (n - length (VA ?a)) = Fault e"
    by (cases "advance B ?b (n - length (VA ?a))") auto
  with front.remaining_view [OF I(1)] n show ?thesis
    by (cases "advance A ?a (length (VA ?a))") (auto simp: chain_advance_def Let_def)
qed

end

sublocale chain_contract \<subseteq> chained_req: buf_required_contract
  "chain_required A B" "chain_invar IA VA IB VB" "chain_view VA VB"
proof (unfold_locales, goal_cases)
  case (1 c)
  then show ?case
    by (auto simp: chain_required_def chain_remaining_def chain_invar_def chain_view_def
        saturating_add_def front.remaining_view rear.remaining_view)
next
  case (2 c)
  then show ?case
    by (auto simp: chain_required_def chain_chunk_def chain_invar_def chain_view_def
        front.has_remaining_iff intro: front.chunk_prefix rear.chunk_prefix prefix_prefix)
next
  case (3 c)
  then show ?case
    by (auto simp: chain_required_def chain_chunk_def chain_invar_def chain_view_def
        front.has_remaining_iff front.chunk_nonempty rear.chunk_nonempty)
qed (simp_all add: chain_required_def chain_advance_ok chain_advance_panics)

sublocale chain_contract \<subseteq> chained: buf_contract
  "chain_buf A B" "chain_invar IA VA IB VB" "chain_view VA VB"
  by unfold_locales
    (simp_all add: chain_buf_def chained_req.req_remaining_view chained_req.req_chunk_prefix
      chained_req.req_chunk_nonempty chained_req.req_advance_ok chained_req.req_advance_panics
      chained_req.copy_to_slice_default_ok chained_req.copy_to_slice_default_panics)

context chain_contract
begin

lemma chain_meets: "buf_contract (chain_buf A B) (chain_invar IA VA IB VB) (chain_view VA VB)"
  by (rule chained.buf_contract_axioms)

end

section \<open>A limited buffer\<close>

definition take_invar :: "('b \<Rightarrow> bool) \<Rightarrow> 'b take_adapter \<Rightarrow> bool" where
  "take_invar I t \<longleftrightarrow> I (take_inner t)"

definition take_view :: "('b \<Rightarrow> u8 list) \<Rightarrow> 'b take_adapter \<Rightarrow> u8 list" where
  "take_view V t = take (take_limit t) (V (take_inner t))"

locale take_contract = inner: buf_contract B I V for B :: "'b buf_ops" and I V
begin

lemma take_advance_ok:
  assumes "I (take_inner t)" and "n \<le> take_limit t" and "n \<le> length (V (take_inner t))"
  obtains t' where "take_advance B t n = Ok t'" and "I (take_inner t')"
    and "V (take_inner t') = drop n (V (take_inner t))" and "take_limit t' = take_limit t - n"
proof -
  obtain i where "advance B (take_inner t) n = Ok i" "I i" "V i = drop n (V (take_inner t))"
    using inner.advance_ok [OF assms(1,3)] by blast
  with assms(2) show thesis
    by (intro that [of "t\<lparr>take_inner := i, take_limit := take_limit t - n\<rparr>"])
      (simp_all add: take_advance_def)
qed

lemma take_advance_panics:
  assumes "I (take_inner t)" and "take_limit t < n \<or> length (V (take_inner t)) < n"
  shows "\<not> is_ok (take_advance B t n)"
proof (cases "take_limit t < n")
  case True
  then show ?thesis by (simp add: take_advance_def)
next
  case False
  with assms have "\<not> is_ok (advance B (take_inner t) n)" by (simp add: inner.advance_panics)
  with False show ?thesis
    by (cases "advance B (take_inner t) n") (simp_all add: take_advance_def)
qed

end

sublocale take_contract \<subseteq> limited: buf_required_contract
  "take_required B" "take_invar I" "take_view V"
proof (unfold_locales, goal_cases)
  case (1 t)
  then show ?case
    by (auto simp: take_required_def take_remaining_def take_invar_def take_view_def
        inner.remaining_view)
next
  case (2 t)
  then have "prefix (chunk B (take_inner t)) (V (take_inner t))"
    by (simp add: take_invar_def inner.chunk_prefix)
  then show ?case
    by (auto simp: take_required_def take_chunk_def take_view_def Let_def prefix_def min_def)
next
  case (3 t)
  then have "V (take_inner t) \<noteq> []" and "take_limit t \<noteq> 0" and "I (take_inner t)"
    by (auto simp: take_invar_def take_view_def)
  then show ?case
    using inner.chunk_nonempty by (simp add: take_required_def take_chunk_def Let_def)
next
  case (4 t n)
  then have "I (take_inner t)" "n \<le> take_limit t" "n \<le> length (V (take_inner t))"
    by (simp_all add: take_invar_def take_view_def)
  then obtain t' where "take_advance B t n = Ok t'" "I (take_inner t')"
    "V (take_inner t') = drop n (V (take_inner t))" "take_limit t' = take_limit t - n"
    by (rule take_advance_ok)
  then show ?case
    by (simp add: take_required_def take_invar_def take_view_def drop_take)
next
  case (5 t n)
  then show ?case
    using take_advance_panics [of t n]
    by (auto simp: take_required_def take_invar_def take_view_def min_def split: if_splits)
qed

context take_contract
begin

lemma take_meets:
  "buf_required_contract (take_required B) (take_invar I) (take_view V)"
  "buf_contract (take_buf B) (take_invar I) (take_view V)"
  unfolding take_buf_def
  by (rule limited.buf_required_contract_axioms limited.full.buf_contract_axioms)+

end

section \<open>Iterating and reading\<close>

context buf_contract
begin

lemma iter_next_ok:
  assumes "invar s" and "view s = b # bs"
  shows "reads invar view s 1 (Some b) (into_iter_next B s)"
  using get_u8_ok [OF assms] assms
  by (auto simp: into_iter_next_def get_u8_def has_remaining_iff remaining_view reads_def
      obind_Ok_conv split: if_splits)

lemma iter_next_end: "invar s \<Longrightarrow> view s = [] \<Longrightarrow> into_iter_next B s = Ok (None, s)"
  by (simp add: into_iter_next_def has_remaining_iff)

lemma iter_collect_loop:
  assumes "invar s"
  shows "\<exists>s'. loop (\<lambda>(items, more, inner). more)
          (\<lambda>(items, more, inner).
             obind (into_iter_next B inner) (\<lambda>(item, inner').
               Ok (case item of Some b \<Rightarrow> (items @ [b], True, inner')
                   | None \<Rightarrow> (items, False, inner'))))
          (items, True, s) = Ok (items @ view s, False, s') \<and> invar s' \<and> view s' = []"
  using assms
proof (induction "view s" arbitrary: s items)
  case Nil
  then show ?case
    by (auto simp: iter_next_end loop_done loop_step)
next
  case (Cons b bs)
  obtain s' where s': "into_iter_next B s = Ok (Some b, s')" "invar s'" "view s' = bs"
    using iter_next_ok [OF Cons.prems Cons.hyps(2) [symmetric]] Cons.hyps(2) [symmetric]
    by (auto elim!: readsE)
  from Cons.hyps(1) [OF s'(3) [symmetric] s'(2), of "items @ [b]"] s'
  show ?case by (simp add: loop_step Cons.hyps(2) [symmetric])
qed

lemma iter_collect_ok:
  "invar s \<Longrightarrow> \<exists>s'. into_iter_collect B s = Ok (view s, s') \<and> invar s' \<and> view s' = []"
  using iter_collect_loop [of s "[]"] by (auto simp: into_iter_collect_def)

lemma reader_read_ok:
  assumes "invar s"
  shows "\<exists>s'. reader_read B s buf
           = Ok (min (length (view s)) (length buf),
                 take (length buf) (view s) @ drop (length (view s)) buf, s')
         \<and> invar s' \<and> view s' = drop (length buf) (view s)"
proof -
  let ?n = "min (length (view s)) (length buf)"
  have "reads invar view s ?n (take ?n (view s)) (copy_to_slice B s ?n)"
    by (rule copy_to_slice_ok [OF assms]) simp
  then show ?thesis
    by (auto simp: reader_read_def remaining_view assms overwrite_def min_def Let_def elim!: readsE)
qed

end

section \<open>Instances\<close>

interpretation slice_chain: chain_contract
  slice_buf "\<lambda>_. True" "\<lambda>s. s" slice_buf "\<lambda>_. True" "\<lambda>s. s"
  by unfold_locales

interpretation slice_take: take_contract slice_buf "\<lambda>_. True" "\<lambda>s. s"
  by unfold_locales

interpretation take_chain: take_contract
  "chain_buf slice_buf slice_buf" "chain_invar (\<lambda>_. True) (\<lambda>s. s) (\<lambda>_. True) (\<lambda>s. s)"
  "chain_view (\<lambda>s. s) (\<lambda>s. s)"
  by unfold_locales

interpretation cursor_deque_chain: chain_contract
  cursor_buf "\<lambda>c. length (get_ref c) \<le> usize_max" "\<lambda>c. drop (position c) (get_ref c)"
  vec_deque_buf "\<lambda>_. True" "\<lambda>(s1, s2). s1 @ s2"
  unfolding cursor_buf_def vec_deque_buf_def
  by unfold_locales

end
