(* ===== verification/BufMut.thy ===== *)
theory BufMut
  imports Buf
begin

text \<open>
  The writing side of the \<open>bytes\<close> crate: the trait \<open>BufMut\<close> of \<open>bytes/src/buf/buf_mut.rs\<close>, its
  provided methods, the wrapper \<open>UninitSlice\<close> (\<open>uninit_slice.rs\<close>), the forwarding
  implementations and those for \<open>&mut [u8]\<close>, \<open>&mut [MaybeUninit<u8>]\<close> and \<open>Vec<u8>\<close>.

  \<open>chunk_mut\<close> may grow the buffer, so it returns the length of the slice at the cursor with
  the buffer. What a caller then stores through that slice is the separate operation
  \<open>chunk_write\<close>: it puts bytes at the start of the slice and does not move the cursor.

  The locale \<open>bufmut_contract\<close> is what the crate relies on: \<open>written\<close> is the sequence of bytes
  behind the cursor, and up to \<open>room\<close> more bytes can be put without a panic.
\<close>

section \<open>UninitSlice\<close>

text \<open>A slice whose bytes may be uninitialised (\<open>None\<close>).\<close>

type_synonym uninit_slice = "u8 option list"

definition uninit_new :: "u8 list \<Rightarrow> uninit_slice" where
  "uninit_new s = map Some s"

definition uninit_write_byte :: "uninit_slice \<Rightarrow> usize \<Rightarrow> u8 \<Rightarrow> uninit_slice outcome" where
  "uninit_write_byte self i byte =
     obind (guard (i < length self) PanicAssert) (\<lambda>_. Ok (self[i := Some byte]))"

definition uninit_copy_from_slice :: "uninit_slice \<Rightarrow> u8 list \<Rightarrow> uninit_slice outcome" where
  "uninit_copy_from_slice self src =
     obind (guard (length self = length src) PanicAssert) (\<lambda>_. Ok (map Some src))"

definition uninit_index :: "uninit_slice \<Rightarrow> usize \<Rightarrow> usize \<Rightarrow> uninit_slice outcome" where
  "uninit_index self a b = slice self a b"

section \<open>The trait\<close>

record 'b bufmut_required =
  mreq_remaining_mut :: "'b \<Rightarrow> usize"
  mreq_advance_mut :: "'b \<Rightarrow> usize \<Rightarrow> 'b outcome"
  mreq_chunk_mut :: "'b \<Rightarrow> (usize \<times> 'b) outcome"
  mreq_chunk_write :: "'b \<Rightarrow> u8 list \<Rightarrow> 'b"

record 'b bufmut_ops =
  remaining_mut :: "'b \<Rightarrow> usize"
  advance_mut :: "'b \<Rightarrow> usize \<Rightarrow> 'b outcome"
  chunk_mut :: "'b \<Rightarrow> (usize \<times> 'b) outcome"
  chunk_write :: "'b \<Rightarrow> u8 list \<Rightarrow> 'b"
  put_slice :: "'b \<Rightarrow> u8 list \<Rightarrow> 'b outcome"
  put_bytes :: "'b \<Rightarrow> u8 \<Rightarrow> usize \<Rightarrow> 'b outcome"

definition has_remaining_mut :: "'b bufmut_ops \<Rightarrow> 'b \<Rightarrow> bool" where
  "has_remaining_mut M s = (remaining_mut M s > 0)"

text \<open>The bodies of the loops of \<open>put\<close>, \<open>put_slice\<close> and \<open>put_bytes\<close>.\<close>

definition put_step ::
    "'s buf_ops \<Rightarrow> 'b bufmut_required \<Rightarrow> 's \<times> 'b \<Rightarrow> ('s \<times> 'b) outcome" where
  "put_step S R = (\<lambda>(src, self).
     let s = chunk S src in
     obind (mreq_chunk_mut R self) (\<lambda>(d, self1).
       let cnt = min (length s) d in
       obind (mreq_advance_mut R (mreq_chunk_write R self1 (take cnt s)) cnt) (\<lambda>self2.
       obind (advance S src cnt) (\<lambda>src'. Ok (src', self2)))))"

definition put_default ::
    "'s buf_ops \<Rightarrow> 'b bufmut_required \<Rightarrow> 'b \<Rightarrow> 's \<Rightarrow> ('s \<times> 'b) outcome" where
  "put_default S R self src =
     (if mreq_remaining_mut R self < remaining S src
      then Fault (PanicAdvance (remaining S src) (mreq_remaining_mut R self))
      else loop (\<lambda>(src, self). has_remaining S src) (put_step S R) (src, self))"

definition put_slice_step :: "'b bufmut_required \<Rightarrow> u8 list \<times> 'b \<Rightarrow> (u8 list \<times> 'b) outcome" where
  "put_slice_step R = (\<lambda>(src, self).
     obind (mreq_chunk_mut R self) (\<lambda>(dst, self1).
       let cnt = min (length src) dst in
       obind (mreq_advance_mut R (mreq_chunk_write R self1 (take cnt src)) cnt) (\<lambda>self2.
         Ok (drop cnt src, self2))))"

definition put_slice_default :: "'b bufmut_required \<Rightarrow> 'b \<Rightarrow> u8 list \<Rightarrow> 'b outcome" where
  "put_slice_default R self src =
     (if mreq_remaining_mut R self < length src
      then Fault (PanicAdvance (length src) (mreq_remaining_mut R self))
      else omap snd (loop (\<lambda>(src, self). src \<noteq> []) (put_slice_step R) (src, self)))"

definition put_bytes_step ::
    "'b bufmut_required \<Rightarrow> u8 \<Rightarrow> usize \<times> 'b \<Rightarrow> (usize \<times> 'b) outcome" where
  "put_bytes_step R val = (\<lambda>(cnt, self).
     obind (mreq_chunk_mut R self) (\<lambda>(dst, self1).
       let dst_len = min dst cnt in
       obind (mreq_advance_mut R (mreq_chunk_write R self1 (replicate dst_len val)) dst_len)
         (\<lambda>self2. Ok (cnt - dst_len, self2))))"

definition put_bytes_default :: "'b bufmut_required \<Rightarrow> 'b \<Rightarrow> u8 \<Rightarrow> usize \<Rightarrow> 'b outcome" where
  "put_bytes_default R self val cnt =
     (if mreq_remaining_mut R self < cnt
      then Fault (PanicAdvance cnt (mreq_remaining_mut R self))
      else omap snd (loop (\<lambda>(cnt, self). cnt > 0) (put_bytes_step R val) (cnt, self)))"

definition bufmut_defaults :: "'b bufmut_required \<Rightarrow> 'b bufmut_ops" where
  "bufmut_defaults R =
     \<lparr>remaining_mut = mreq_remaining_mut R,
      advance_mut = mreq_advance_mut R,
      chunk_mut = mreq_chunk_mut R,
      chunk_write = mreq_chunk_write R,
      put_slice = put_slice_default R,
      put_bytes = put_bytes_default R\<rparr>"

definition required_of :: "'b bufmut_ops \<Rightarrow> 'b bufmut_required" where
  "required_of M =
     \<lparr>mreq_remaining_mut = remaining_mut M, mreq_advance_mut = advance_mut M,
      mreq_chunk_mut = chunk_mut M, mreq_chunk_write = chunk_write M\<rparr>"

section \<open>Writing integers\<close>

definition put_u8 :: "'b bufmut_ops \<Rightarrow> 'b \<Rightarrow> u8 \<Rightarrow> 'b outcome" where
  "put_u8 M self n = put_slice M self [n]"

definition put_i8 :: "'b bufmut_ops \<Rightarrow> 'b \<Rightarrow> i8 \<Rightarrow> 'b outcome" where
  "put_i8 M self n = put_slice M self [n]"

definition put_u16 :: "'b bufmut_ops \<Rightarrow> 'b \<Rightarrow> u16 \<Rightarrow> 'b outcome" where
  "put_u16 M self n = put_slice M self (to_be_bytes 2 n)"

definition put_u16_le :: "'b bufmut_ops \<Rightarrow> 'b \<Rightarrow> u16 \<Rightarrow> 'b outcome" where
  "put_u16_le M self n = put_slice M self (to_le_bytes 2 n)"

definition put_u16_ne :: "bool \<Rightarrow> 'b bufmut_ops \<Rightarrow> 'b \<Rightarrow> u16 \<Rightarrow> 'b outcome" where
  "put_u16_ne big M self n = put_slice M self (to_ne_bytes big 2 n)"

definition put_i16 :: "'b bufmut_ops \<Rightarrow> 'b \<Rightarrow> i16 \<Rightarrow> 'b outcome" where
  "put_i16 M self n = put_slice M self (to_be_bytes 2 n)"

definition put_i16_le :: "'b bufmut_ops \<Rightarrow> 'b \<Rightarrow> i16 \<Rightarrow> 'b outcome" where
  "put_i16_le M self n = put_slice M self (to_le_bytes 2 n)"

definition put_i16_ne :: "bool \<Rightarrow> 'b bufmut_ops \<Rightarrow> 'b \<Rightarrow> i16 \<Rightarrow> 'b outcome" where
  "put_i16_ne big M self n = put_slice M self (to_ne_bytes big 2 n)"

definition put_u32 :: "'b bufmut_ops \<Rightarrow> 'b \<Rightarrow> u32 \<Rightarrow> 'b outcome" where
  "put_u32 M self n = put_slice M self (to_be_bytes 4 n)"

definition put_u32_le :: "'b bufmut_ops \<Rightarrow> 'b \<Rightarrow> u32 \<Rightarrow> 'b outcome" where
  "put_u32_le M self n = put_slice M self (to_le_bytes 4 n)"

definition put_u32_ne :: "bool \<Rightarrow> 'b bufmut_ops \<Rightarrow> 'b \<Rightarrow> u32 \<Rightarrow> 'b outcome" where
  "put_u32_ne big M self n = put_slice M self (to_ne_bytes big 4 n)"

definition put_i32 :: "'b bufmut_ops \<Rightarrow> 'b \<Rightarrow> i32 \<Rightarrow> 'b outcome" where
  "put_i32 M self n = put_slice M self (to_be_bytes 4 n)"

definition put_i32_le :: "'b bufmut_ops \<Rightarrow> 'b \<Rightarrow> i32 \<Rightarrow> 'b outcome" where
  "put_i32_le M self n = put_slice M self (to_le_bytes 4 n)"

definition put_i32_ne :: "bool \<Rightarrow> 'b bufmut_ops \<Rightarrow> 'b \<Rightarrow> i32 \<Rightarrow> 'b outcome" where
  "put_i32_ne big M self n = put_slice M self (to_ne_bytes big 4 n)"

definition put_u64 :: "'b bufmut_ops \<Rightarrow> 'b \<Rightarrow> u64 \<Rightarrow> 'b outcome" where
  "put_u64 M self n = put_slice M self (to_be_bytes 8 n)"

definition put_u64_le :: "'b bufmut_ops \<Rightarrow> 'b \<Rightarrow> u64 \<Rightarrow> 'b outcome" where
  "put_u64_le M self n = put_slice M self (to_le_bytes 8 n)"

definition put_u64_ne :: "bool \<Rightarrow> 'b bufmut_ops \<Rightarrow> 'b \<Rightarrow> u64 \<Rightarrow> 'b outcome" where
  "put_u64_ne big M self n = put_slice M self (to_ne_bytes big 8 n)"

definition put_i64 :: "'b bufmut_ops \<Rightarrow> 'b \<Rightarrow> i64 \<Rightarrow> 'b outcome" where
  "put_i64 M self n = put_slice M self (to_be_bytes 8 n)"

definition put_i64_le :: "'b bufmut_ops \<Rightarrow> 'b \<Rightarrow> i64 \<Rightarrow> 'b outcome" where
  "put_i64_le M self n = put_slice M self (to_le_bytes 8 n)"

definition put_i64_ne :: "bool \<Rightarrow> 'b bufmut_ops \<Rightarrow> 'b \<Rightarrow> i64 \<Rightarrow> 'b outcome" where
  "put_i64_ne big M self n = put_slice M self (to_ne_bytes big 8 n)"

definition put_u128 :: "'b bufmut_ops \<Rightarrow> 'b \<Rightarrow> u128 \<Rightarrow> 'b outcome" where
  "put_u128 M self n = put_slice M self (to_be_bytes 16 n)"

definition put_u128_le :: "'b bufmut_ops \<Rightarrow> 'b \<Rightarrow> u128 \<Rightarrow> 'b outcome" where
  "put_u128_le M self n = put_slice M self (to_le_bytes 16 n)"

definition put_u128_ne :: "bool \<Rightarrow> 'b bufmut_ops \<Rightarrow> 'b \<Rightarrow> u128 \<Rightarrow> 'b outcome" where
  "put_u128_ne big M self n = put_slice M self (to_ne_bytes big 16 n)"

definition put_i128 :: "'b bufmut_ops \<Rightarrow> 'b \<Rightarrow> i128 \<Rightarrow> 'b outcome" where
  "put_i128 M self n = put_slice M self (to_be_bytes 16 n)"

definition put_i128_le :: "'b bufmut_ops \<Rightarrow> 'b \<Rightarrow> i128 \<Rightarrow> 'b outcome" where
  "put_i128_le M self n = put_slice M self (to_le_bytes 16 n)"

definition put_i128_ne :: "bool \<Rightarrow> 'b bufmut_ops \<Rightarrow> 'b \<Rightarrow> i128 \<Rightarrow> 'b outcome" where
  "put_i128_ne big M self n = put_slice M self (to_ne_bytes big 16 n)"

text \<open>
  The \<open>n\<close>-byte writes. Their panic reports its two numbers the other way round than
  \<open>panic_does_not_fit(size, nbytes)\<close> names them.
\<close>

definition put_uint :: "'b bufmut_ops \<Rightarrow> 'b \<Rightarrow> u64 \<Rightarrow> usize \<Rightarrow> 'b outcome" where
  "put_uint M self n nbytes =
     (case checked_sub 8 nbytes of
        Some start \<Rightarrow> put_slice M self (drop start (to_be_bytes 8 n))
      | None \<Rightarrow> Fault (PanicDoesNotFit nbytes 8))"

definition put_uint_le :: "'b bufmut_ops \<Rightarrow> 'b \<Rightarrow> u64 \<Rightarrow> usize \<Rightarrow> 'b outcome" where
  "put_uint_le M self n nbytes =
     (case get_prefix (to_le_bytes 8 n) nbytes of
        Some sl \<Rightarrow> put_slice M self sl
      | None \<Rightarrow> Fault (PanicDoesNotFit nbytes 8))"

definition put_uint_ne :: "bool \<Rightarrow> 'b bufmut_ops \<Rightarrow> 'b \<Rightarrow> u64 \<Rightarrow> usize \<Rightarrow> 'b outcome" where
  "put_uint_ne big M self n nbytes =
     (if big then put_uint M self n nbytes else put_uint_le M self n nbytes)"

definition put_int :: "'b bufmut_ops \<Rightarrow> 'b \<Rightarrow> i64 \<Rightarrow> usize \<Rightarrow> 'b outcome" where
  "put_int M self n nbytes =
     (case checked_sub 8 nbytes of
        Some start \<Rightarrow> put_slice M self (drop start (to_be_bytes 8 n))
      | None \<Rightarrow> Fault (PanicDoesNotFit nbytes 8))"

definition put_int_le :: "'b bufmut_ops \<Rightarrow> 'b \<Rightarrow> i64 \<Rightarrow> usize \<Rightarrow> 'b outcome" where
  "put_int_le M self n nbytes =
     (case get_prefix (to_le_bytes 8 n) nbytes of
        Some sl \<Rightarrow> put_slice M self sl
      | None \<Rightarrow> Fault (PanicDoesNotFit nbytes 8))"

definition put_int_ne :: "bool \<Rightarrow> 'b bufmut_ops \<Rightarrow> 'b \<Rightarrow> i64 \<Rightarrow> usize \<Rightarrow> 'b outcome" where
  "put_int_ne big M self n nbytes =
     (if big then put_int M self n nbytes else put_int_le M self n nbytes)"

definition put_f32 :: "'b bufmut_ops \<Rightarrow> 'b \<Rightarrow> f32 \<Rightarrow> 'b outcome" where
  "put_f32 M self n = put_u32 M self n"

definition put_f32_le :: "'b bufmut_ops \<Rightarrow> 'b \<Rightarrow> f32 \<Rightarrow> 'b outcome" where
  "put_f32_le M self n = put_u32_le M self n"

definition put_f32_ne :: "bool \<Rightarrow> 'b bufmut_ops \<Rightarrow> 'b \<Rightarrow> f32 \<Rightarrow> 'b outcome" where
  "put_f32_ne big M self n = put_u32_ne big M self n"

definition put_f64 :: "'b bufmut_ops \<Rightarrow> 'b \<Rightarrow> f64 \<Rightarrow> 'b outcome" where
  "put_f64 M self n = put_u64 M self n"

definition put_f64_le :: "'b bufmut_ops \<Rightarrow> 'b \<Rightarrow> f64 \<Rightarrow> 'b outcome" where
  "put_f64_le M self n = put_u64_le M self n"

definition put_f64_ne :: "bool \<Rightarrow> 'b bufmut_ops \<Rightarrow> 'b \<Rightarrow> f64 \<Rightarrow> 'b outcome" where
  "put_f64_ne big M self n = put_u64_ne big M self n"

section \<open>Implementations\<close>

text \<open>
  \<open>deref_forward_bufmut!\<close>: \<open>put_slice\<close> and the integer writes go to the buffer behind the
  pointer; \<open>put_bytes\<close> is not forwarded, so it is the provided one over the forwarded
  required methods.
\<close>

definition deref_forward_bufmut :: "'b bufmut_ops \<Rightarrow> 'b bufmut_ops" where
  "deref_forward_bufmut M =
     (bufmut_defaults (required_of M))\<lparr>put_slice := put_slice M\<rparr>"

text \<open>
  \<open>impl BufMut for &mut [u8]\<close>. The value is the part of the array that is left; the model keeps
  the part before it too, since that is where the written bytes are.
\<close>

record slice_mut =
  sm_done :: "u8 list"
  sm_rest :: "u8 list"

definition slice_mut_remaining_mut :: "slice_mut \<Rightarrow> usize" where
  "slice_mut_remaining_mut self = length (sm_rest self)"

definition slice_mut_chunk_mut :: "slice_mut \<Rightarrow> (usize \<times> slice_mut) outcome" where
  "slice_mut_chunk_mut self = Ok (length (uninit_new (sm_rest self)), self)"

definition slice_mut_chunk_write :: "slice_mut \<Rightarrow> u8 list \<Rightarrow> slice_mut" where
  "slice_mut_chunk_write self bs = self\<lparr>sm_rest := overwrite (sm_rest self) 0 bs\<rparr>"

definition slice_mut_advance_mut :: "slice_mut \<Rightarrow> usize \<Rightarrow> slice_mut outcome" where
  "slice_mut_advance_mut self cnt =
     (if length (sm_rest self) < cnt then Fault (PanicAdvance cnt (length (sm_rest self)))
      else Ok (self\<lparr>sm_done := sm_done self @ take cnt (sm_rest self),
                    sm_rest := drop cnt (sm_rest self)\<rparr>))"

definition slice_mut_put_slice :: "slice_mut \<Rightarrow> u8 list \<Rightarrow> slice_mut outcome" where
  "slice_mut_put_slice self src =
     (if length (sm_rest self) < length src
      then Fault (PanicAdvance (length src) (length (sm_rest self)))
      else slice_mut_advance_mut (slice_mut_chunk_write self src) (length src))"

definition slice_mut_put_bytes :: "slice_mut \<Rightarrow> u8 \<Rightarrow> usize \<Rightarrow> slice_mut outcome" where
  "slice_mut_put_bytes self val cnt =
     (if length (sm_rest self) < cnt then Fault (PanicAdvance cnt (length (sm_rest self)))
      else slice_mut_advance_mut (slice_mut_chunk_write self (replicate cnt val)) cnt)"

definition slice_bufmut :: "slice_mut bufmut_ops" where
  "slice_bufmut =
     \<lparr>remaining_mut = slice_mut_remaining_mut, advance_mut = slice_mut_advance_mut,
      chunk_mut = slice_mut_chunk_mut, chunk_write = slice_mut_chunk_write,
      put_slice = slice_mut_put_slice, put_bytes = slice_mut_put_bytes\<rparr>"

text \<open>\<open>impl BufMut for &mut [MaybeUninit<u8>]\<close>, over memory that may be uninitialised.\<close>

record uninit_mut =
  um_done :: uninit_slice
  um_rest :: uninit_slice

definition uninit_mut_remaining_mut :: "uninit_mut \<Rightarrow> usize" where
  "uninit_mut_remaining_mut self = length (um_rest self)"

definition uninit_mut_chunk_mut :: "uninit_mut \<Rightarrow> (usize \<times> uninit_mut) outcome" where
  "uninit_mut_chunk_mut self = Ok (length (um_rest self), self)"

definition uninit_mut_chunk_write :: "uninit_mut \<Rightarrow> u8 list \<Rightarrow> uninit_mut" where
  "uninit_mut_chunk_write self bs = self\<lparr>um_rest := overwrite (um_rest self) 0 (map Some bs)\<rparr>"

definition uninit_mut_advance_mut :: "uninit_mut \<Rightarrow> usize \<Rightarrow> uninit_mut outcome" where
  "uninit_mut_advance_mut self cnt =
     (if length (um_rest self) < cnt then Fault (PanicAdvance cnt (length (um_rest self)))
      else Ok (self\<lparr>um_done := um_done self @ take cnt (um_rest self),
                    um_rest := drop cnt (um_rest self)\<rparr>))"

definition uninit_mut_put_slice :: "uninit_mut \<Rightarrow> u8 list \<Rightarrow> uninit_mut outcome" where
  "uninit_mut_put_slice self src =
     (if length (um_rest self) < length src
      then Fault (PanicAdvance (length src) (length (um_rest self)))
      else uninit_mut_advance_mut (uninit_mut_chunk_write self src) (length src))"

definition uninit_mut_put_bytes :: "uninit_mut \<Rightarrow> u8 \<Rightarrow> usize \<Rightarrow> uninit_mut outcome" where
  "uninit_mut_put_bytes self val cnt =
     (if length (um_rest self) < cnt then Fault (PanicAdvance cnt (length (um_rest self)))
      else uninit_mut_advance_mut (uninit_mut_chunk_write self (replicate cnt val)) cnt)"

definition uninit_bufmut :: "uninit_mut bufmut_ops" where
  "uninit_bufmut =
     \<lparr>remaining_mut = uninit_mut_remaining_mut, advance_mut = uninit_mut_advance_mut,
      chunk_mut = uninit_mut_chunk_mut, chunk_write = uninit_mut_chunk_write,
      put_slice = uninit_mut_put_slice, put_bytes = uninit_mut_put_bytes\<rparr>"

text \<open>
  \<open>impl BufMut for Vec<u8>\<close>. A vector is its bytes and the spare capacity behind them.
  \<open>Vec::reserve\<close> grows to the larger of what is needed and twice the capacity (at least 8) and
  panics when that passes \<open>isize::MAX\<close>; \<open>set_len\<close> over bytes nobody has written is undefined.
\<close>

record vec =
  vec_data :: "u8 list"
  vec_spare :: uninit_slice

definition vec_len :: "vec \<Rightarrow> usize" where
  "vec_len v = length (vec_data v)"

definition vec_capacity :: "vec \<Rightarrow> usize" where
  "vec_capacity v = length (vec_data v) + length (vec_spare v)"

definition vec_grown :: "usize \<Rightarrow> usize \<Rightarrow> usize" where
  "vec_grown cap required = max 8 (max (2 * cap) required)"

definition vec_reserve :: "vec \<Rightarrow> usize \<Rightarrow> vec outcome" where
  "vec_reserve v additional =
     (if additional \<le> vec_capacity v - vec_len v then Ok v
      else let new_cap = vec_grown (vec_capacity v) (vec_len v + additional)
           in if new_cap \<le> isize_max
              then Ok (v\<lparr>vec_spare := vec_spare v @ replicate (new_cap - vec_capacity v) None\<rparr>)
              else Fault PanicOverflow)"

definition vec_extend_from_slice :: "vec \<Rightarrow> u8 list \<Rightarrow> vec outcome" where
  "vec_extend_from_slice v src =
     obind (vec_reserve v (length src)) (\<lambda>v'.
       Ok (v'\<lparr>vec_data := vec_data v' @ src, vec_spare := drop (length src) (vec_spare v')\<rparr>))"

definition vec_set_len :: "vec \<Rightarrow> usize \<Rightarrow> vec outcome" where
  "vec_set_len v new_len =
     (if vec_capacity v < new_len then Fault UndefinedBehaviour
      else if new_len \<le> vec_len v
      then Ok (v\<lparr>vec_data := take new_len (vec_data v),
                 vec_spare := map Some (drop new_len (vec_data v)) @ vec_spare v\<rparr>)
      else let cnt = new_len - vec_len v
           in if None \<in> set (take cnt (vec_spare v)) then Fault UndefinedBehaviour
              else Ok (v\<lparr>vec_data := vec_data v @ map the (take cnt (vec_spare v)),
                         vec_spare := drop cnt (vec_spare v)\<rparr>))"

definition vec_remaining_mut :: "vec \<Rightarrow> usize" where
  "vec_remaining_mut self = isize_max - vec_len self"

definition vec_chunk_mut :: "vec \<Rightarrow> (usize \<times> vec) outcome" where
  "vec_chunk_mut self =
     obind (if vec_capacity self = vec_len self then vec_reserve self 64 else Ok self) (\<lambda>self'.
       Ok (vec_capacity self' - vec_len self', self'))"

definition vec_chunk_write :: "vec \<Rightarrow> u8 list \<Rightarrow> vec" where
  "vec_chunk_write self bs = self\<lparr>vec_spare := overwrite (vec_spare self) 0 (map Some bs)\<rparr>"

definition vec_advance_mut :: "vec \<Rightarrow> usize \<Rightarrow> vec outcome" where
  "vec_advance_mut self cnt =
     (let len = vec_len self; remaining = vec_capacity self - len
      in if remaining < cnt then Fault (PanicAdvance cnt remaining)
         else vec_set_len self (len + cnt))"

definition vec_put :: "'s buf_ops \<Rightarrow> vec \<Rightarrow> 's \<Rightarrow> ('s \<times> vec) outcome" where
  "vec_put S self src =
     obind (vec_reserve self (remaining S src)) (\<lambda>self.
       loop (\<lambda>(src, self). has_remaining S src)
         (\<lambda>(src, self).
            let s = chunk S src; l = length s in
            obind (vec_extend_from_slice self s) (\<lambda>self'.
            obind (advance S src l) (\<lambda>src'. Ok (src', self'))))
         (src, self))"

definition vec_put_slice :: "vec \<Rightarrow> u8 list \<Rightarrow> vec outcome" where
  "vec_put_slice self src = vec_extend_from_slice self src"

definition vec_put_bytes :: "vec \<Rightarrow> u8 \<Rightarrow> usize \<Rightarrow> vec outcome" where
  "vec_put_bytes self val cnt =
     (let new_len = saturating_add (vec_len self) cnt
      in vec_extend_from_slice self (replicate (new_len - vec_len self) val))"

definition vec_bufmut :: "vec bufmut_ops" where
  "vec_bufmut =
     \<lparr>remaining_mut = vec_remaining_mut, advance_mut = vec_advance_mut,
      chunk_mut = vec_chunk_mut, chunk_write = vec_chunk_write,
      put_slice = vec_put_slice, put_bytes = vec_put_bytes\<rparr>"

lemma bufmut_defaults_simps [simp]:
  "remaining_mut (bufmut_defaults R) = mreq_remaining_mut R"
  "advance_mut (bufmut_defaults R) = mreq_advance_mut R"
  "chunk_mut (bufmut_defaults R) = mreq_chunk_mut R"
  "chunk_write (bufmut_defaults R) = mreq_chunk_write R"
  "put_slice (bufmut_defaults R) = put_slice_default R"
  "put_bytes (bufmut_defaults R) = put_bytes_default R"
  by (simp_all add: bufmut_defaults_def)

lemma required_of_simps [simp]:
  "mreq_remaining_mut (required_of M) = remaining_mut M"
  "mreq_advance_mut (required_of M) = advance_mut M"
  "mreq_chunk_mut (required_of M) = chunk_mut M"
  "mreq_chunk_write (required_of M) = chunk_write M"
  by (simp_all add: required_of_def)

lemmas put_defs =
  put_u8_def put_i8_def put_u16_def put_u16_le_def put_u16_ne_def put_i16_def put_i16_le_def put_i16_ne_def put_u32_def put_u32_le_def put_u32_ne_def put_i32_def put_i32_le_def put_i32_ne_def put_u64_def put_u64_le_def put_u64_ne_def put_i64_def put_i64_le_def put_i64_ne_def put_u128_def put_u128_le_def put_u128_ne_def put_i128_def put_i128_le_def put_i128_ne_def

section \<open>The contract\<close>

text \<open>
  \<open>appends invar written room s bs r\<close>: the outcome \<open>r\<close> of a write to \<open>s\<close> is a buffer with
  exactly \<open>bs\<close> added behind the cursor.
\<close>

definition appends ::
    "('b \<Rightarrow> bool) \<Rightarrow> ('b \<Rightarrow> u8 list) \<Rightarrow> ('b \<Rightarrow> nat) \<Rightarrow> 'b \<Rightarrow> u8 list \<Rightarrow> 'b outcome \<Rightarrow> bool" where
  "appends invar written room s bs r \<longleftrightarrow>
     (\<exists>s'. r = Ok s' \<and> invar s' \<and> written s' = written s @ bs \<and> room s' = room s - length bs)"

lemma appendsI:
  "r = Ok s' \<Longrightarrow> invar s' \<Longrightarrow> written s' = written s @ bs \<Longrightarrow> room s' = room s - length bs \<Longrightarrow>
   appends invar written room s bs r"
  by (auto simp: appends_def)

lemma appendsE:
  assumes "appends invar written room s bs r"
  obtains s' where "r = Ok s'" "invar s'" "written s' = written s @ bs"
    "room s' = room s - length bs"
  using assms by (auto simp: appends_def)

lemma appends_trans:
  assumes "appends invar written room s xs (Ok s')" and "appends invar written room s' ys r"
  shows "appends invar written room s (xs @ ys) r"
  using assms by (auto simp: appends_def)

text \<open>
  What an implementer of the required methods owes: while there is room, \<open>chunk_mut\<close> gives a
  slice that is not empty and changes nothing that counts, and writing some of it and moving
  the cursor over what was written appends it.
\<close>

locale bufmut_required_contract =
  fixes R :: "'b bufmut_required" and invar :: "'b \<Rightarrow> bool" and written :: "'b \<Rightarrow> u8 list"
    and room :: "'b \<Rightarrow> nat"
  assumes room_le: "invar s \<Longrightarrow> room s \<le> mreq_remaining_mut R s"
    and mreq_chunk: "invar s \<Longrightarrow> 0 < room s \<Longrightarrow>
      \<exists>n s1. mreq_chunk_mut R s = Ok (n, s1) \<and> 0 < n \<and> n \<le> mreq_remaining_mut R s
        \<and> mreq_remaining_mut R s1 = mreq_remaining_mut R s
        \<and> (\<forall>bs. length bs \<le> n \<longrightarrow>
             mreq_remaining_mut R (mreq_chunk_write R s1 bs) = mreq_remaining_mut R s)
        \<and> (\<forall>bs. length bs \<le> n \<longrightarrow> length bs \<le> room s \<longrightarrow>
             (\<exists>s2. mreq_advance_mut R (mreq_chunk_write R s1 bs) (length bs) = Ok s2 \<and> invar s2
                \<and> written s2 = written s @ bs \<and> room s2 = room s - length bs
                \<and> mreq_remaining_mut R s2 = mreq_remaining_mut R s - length bs))"

text \<open>What a client of the trait relies on.\<close>

locale bufmut_contract =
  fixes M :: "'b bufmut_ops" and invar :: "'b \<Rightarrow> bool" and written :: "'b \<Rightarrow> u8 list"
    and room :: "'b \<Rightarrow> nat"
  assumes required: "bufmut_required_contract (required_of M) invar written room"
    and put_slice_ok: "invar s \<Longrightarrow> length bs \<le> room s \<Longrightarrow>
      appends invar written room s bs (put_slice M s bs)"
    and put_bytes_ok: "invar s \<Longrightarrow> n \<le> room s \<Longrightarrow>
      appends invar written room s (replicate n b) (put_bytes M s b n)"

context bufmut_required_contract
begin

text \<open>One round of a writing loop.\<close>

lemma write_step:
  assumes "invar s" and "xs \<noteq> []" and "length xs \<le> room s"
  obtains n s1 s2 where "mreq_chunk_mut R s = Ok (n, s1)"
    and "mreq_advance_mut R (mreq_chunk_write R s1 (take n xs)) (min (length xs) n) = Ok s2"
    and "0 < n" and "invar s2" and "written s2 = written s @ take n xs"
    and "room s2 = room s - min (length xs) n" and "length (drop n xs) \<le> room s2"
proof -
  have "0 < room s" using assms(2,3) by (cases xs) auto
  from mreq_chunk [OF assms(1) this]
  obtain n s1 where n: "mreq_chunk_mut R s = Ok (n, s1)" "0 < n"
    and w: "\<And>bs. length bs \<le> n \<Longrightarrow> length bs \<le> room s \<Longrightarrow>
      \<exists>s2. mreq_advance_mut R (mreq_chunk_write R s1 bs) (length bs) = Ok s2 \<and> invar s2
         \<and> written s2 = written s @ bs \<and> room s2 = room s - length bs"
    by blast
  have "min (length xs) n \<le> room s" using assms(3) by simp
  with w [of "take n xs"]
  obtain s2 where "mreq_advance_mut R (mreq_chunk_write R s1 (take n xs)) (min (length xs) n) = Ok s2"
    "invar s2" "written s2 = written s @ take n xs" "room s2 = room s - min (length xs) n"
    by auto
  with n assms(3) show thesis by (intro that [of n s1 s2]) auto
qed

lemma put_slice_loop:
  assumes "invar s" and "length src \<le> room s"
  shows "\<exists>s'. loop (\<lambda>(src, self). src \<noteq> []) (put_slice_step R) (src, s) = Ok ([], s')
           \<and> appends invar written room s src (Ok s')"
  using assms
proof (induction "length src" arbitrary: src s rule: less_induct)
  case less
  show ?case
  proof (cases "src = []")
    case True
    with less.prems show ?thesis by (auto simp: loop_done appends_def)
  next
    case False
    from less.prems(1) False less.prems(2)
    obtain n s1 s2 where w: "mreq_chunk_mut R s = Ok (n, s1)"
      "mreq_advance_mut R (mreq_chunk_write R s1 (take n src)) (min (length src) n) = Ok s2"
      "0 < n" "invar s2" "written s2 = written s @ take n src"
      "room s2 = room s - min (length src) n" "length (drop n src) \<le> room s2"
      by (rule write_step)
    have step: "put_slice_step R (src, s) = Ok (drop n src, s2)"
      using w(1,2) by (simp add: put_slice_step_def Let_def)
    have "length (drop n src) < length src" using False w(3) by simp
    from less.hyps [OF this w(4,7)] obtain s' where
      s': "loop (\<lambda>(src, self). src \<noteq> []) (put_slice_step R) (drop n src, s2) = Ok ([], s')"
      "appends invar written room s2 (drop n src) (Ok s')" by blast
    have "appends invar written room s (take n src) (Ok s2)"
      using w by (simp add: appends_def min.commute)
    from appends_trans [OF this s'(2)] have "appends invar written room s src (Ok s')" by simp
    with s'(1) step False show ?thesis by (simp add: loop_step)
  qed
qed

lemma put_slice_default_ok:
  "invar s \<Longrightarrow> length bs \<le> room s \<Longrightarrow>
   appends invar written room s bs (put_slice_default R s bs)"
  using put_slice_loop [of s bs] room_le [of s]
  by (auto simp: put_slice_default_def appends_def)

lemma put_bytes_loop:
  assumes "invar s" and "n \<le> room s"
  shows "\<exists>s'. loop (\<lambda>(cnt, self). cnt > 0) (put_bytes_step R b) (n, s) = Ok (0, s')
           \<and> appends invar written room s (replicate n b) (Ok s')"
  using assms
proof (induction n arbitrary: s rule: less_induct)
  case (less n)
  show ?case
  proof (cases "n = 0")
    case True
    with less.prems show ?thesis by (auto simp: loop_done appends_def)
  next
    case False
    then have "replicate n b \<noteq> []" and "length (replicate n b) \<le> room s"
      using less.prems(2) by simp_all
    with less.prems(1)
    obtain k s1 s2 where w: "mreq_chunk_mut R s = Ok (k, s1)"
      "mreq_advance_mut R (mreq_chunk_write R s1 (take k (replicate n b)))
         (min (length (replicate n b)) k) = Ok s2"
      "0 < k" "invar s2" "written s2 = written s @ take k (replicate n b)"
      "room s2 = room s - min (length (replicate n b)) k"
      "length (drop k (replicate n b)) \<le> room s2"
      by (rule write_step)
    have step: "put_bytes_step R b (n, s) = Ok (n - k, s2)"
      using w(1,2) by (simp add: put_bytes_step_def min_def split: if_splits)
    have "n - k < n" using False w(3) by simp
    moreover have "n - k \<le> room s2" using w(7) by simp
    ultimately obtain s' where
      s': "loop (\<lambda>(cnt, self). cnt > 0) (put_bytes_step R b) (n - k, s2) = Ok (0, s')"
      "appends invar written room s2 (replicate (n - k) b) (Ok s')"
      using less.IH w(4) by blast
    have "appends invar written room s (replicate (min k n) b) (Ok s2)"
      using w by (simp add: appends_def min.commute)
    from appends_trans [OF this s'(2)]
    have "appends invar written room s (replicate (min k n + (n - k)) b) (Ok s')"
      by (simp add: replicate_add)
    then have "appends invar written room s (replicate n b) (Ok s')" by (simp add: min_def split: if_splits)
    with s'(1) step False show ?thesis by (simp add: loop_step)
  qed
qed

lemma put_bytes_default_ok:
  "invar s \<Longrightarrow> n \<le> room s \<Longrightarrow>
   appends invar written room s (replicate n b) (put_bytes_default R s b n)"
  using put_bytes_loop [of s n b] room_le [of s]
  by (auto simp: put_bytes_default_def appends_def)

lemma put_slice_default_panics:
  "mreq_remaining_mut R s < length bs \<Longrightarrow>
   put_slice_default R s bs = Fault (PanicAdvance (length bs) (mreq_remaining_mut R s))"
  by (simp add: put_slice_default_def)

end

lemma required_of_defaults [simp]: "required_of (bufmut_defaults R) = R"
  by (simp add: required_of_def)

sublocale bufmut_required_contract \<subseteq> full: bufmut_contract "bufmut_defaults R" invar written room
  by unfold_locales
    (use bufmut_required_contract_axioms in
      \<open>simp_all add: bufmut_required_contract_def put_slice_default_ok put_bytes_default_ok\<close>)

text \<open>
  Copying one buffer into another: the source must meet the contract of \<open>Buf\<close>, the
  destination that of \<open>BufMut\<close>.
\<close>

locale transfer =
  src: buf_contract S IS VS + dst: bufmut_required_contract R ID written room
  for S :: "'s buf_ops" and IS VS and R :: "'d bufmut_required" and ID written room
begin

lemma put_loop:
  assumes "IS src" and "ID d" and "length (VS src) \<le> room d"
  shows "\<exists>src' d'. loop (\<lambda>(src, self). has_remaining S src) (put_step S R) (src, d) = Ok (src', d')
           \<and> IS src' \<and> VS src' = [] \<and> appends ID written room d (VS src) (Ok d')"
  using assms
proof (induction "length (VS src)" arbitrary: src d rule: less_induct)
  case less
  show ?case
  proof (cases "VS src = []")
    case True
    with less.prems show ?thesis
      by (auto simp: loop_done src.has_remaining_iff appends_def)
  next
    case False
    let ?c = "chunk S src"
    have pre: "prefix ?c (VS src)" and ne: "?c \<noteq> []"
      using src.chunk_prefix src.chunk_nonempty less.prems(1) False by auto
    then have "length ?c \<le> room d" using less.prems(3) prefix_length_le [OF pre] by simp
    from less.prems(2) ne this
    obtain n d1 d2 where w: "mreq_chunk_mut R d = Ok (n, d1)"
      "mreq_advance_mut R (mreq_chunk_write R d1 (take n ?c)) (min (length ?c) n) = Ok d2"
      "0 < n" "ID d2" "written d2 = written d @ take n ?c"
      "room d2 = room d - min (length ?c) n" "length (drop n ?c) \<le> room d2"
      by (rule dst.write_step)
    let ?k = "min (length ?c) n"
    have k: "0 < ?k" "?k \<le> length (VS src)" using ne w(3) prefix_length_le [OF pre] by auto
    obtain src' where src': "advance S src ?k = Ok src'" "IS src'" "VS src' = drop ?k (VS src)"
      using src.advance_ok [OF less.prems(1) k(2)] by blast
    have tk: "take n ?c = take ?k (VS src)"
      using prefix_take_eq [OF pre, of ?k] by simp
    have step: "put_step S R (src, d) = Ok (src', d2)"
      using w(1,2) src'(1) by (simp add: put_step_def Let_def)
    have smaller: "length (VS src') < length (VS src)" using src'(3) k False by (simp only: length_drop)
    have "length (VS src') \<le> room d2" using src'(3) w(6) less.prems(3) by simp
    from less.hyps [OF smaller src'(2) w(4) this] obtain src'' d' where
      r: "loop (\<lambda>(src, self). has_remaining S src) (put_step S R) (src', d2) = Ok (src'', d')"
      "IS src''" "VS src'' = []" "appends ID written room d2 (VS src') (Ok d')" by blast
    have "appends ID written room d (take ?k (VS src)) (Ok d2)"
      using w tk k by (simp add: appends_def min.absorb2)
    from appends_trans [OF this r(4)] have "appends ID written room d (VS src) (Ok d')"
      using src'(3) by simp
    with r step False less.prems(1) show ?thesis by (simp add: loop_step src.has_remaining_iff)
  qed
qed

lemma put_default_ok:
  assumes "IS src" and "ID d" and "length (VS src) \<le> room d"
  shows "\<exists>src' d'. put_default S R d src = Ok (src', d') \<and> IS src' \<and> VS src' = []
           \<and> ID d' \<and> written d' = written d @ VS src"
  using put_loop [OF assms] dst.room_le [OF assms(2)] assms src.remaining_view [OF assms(1)]
  by (auto simp: put_default_def appends_def)

end

context bufmut_contract
begin

text \<open>Every integer write goes through \<open>put_slice\<close>, so it appends the encoding.\<close>

lemma put_encoded:
  assumes "invar s" and "length bs \<le> room s"
  obtains s' where "put_slice M s bs = Ok s'" and "invar s'" and "written s' = written s @ bs"
    and "room s' = room s - length bs"
  using put_slice_ok [OF assms] by (rule appendsE) (rule that)

end

section \<open>The implementations meet the contract\<close>

interpretation slice_mut_b: bufmut_contract slice_bufmut "\<lambda>_. True" sm_done
  "\<lambda>s. length (sm_rest s)"
proof (unfold_locales, goal_cases)
  case (2 s)
  then show ?case
    by (auto simp: slice_bufmut_def slice_mut_chunk_mut_def uninit_new_def
        slice_mut_advance_mut_def slice_mut_chunk_write_def slice_mut_remaining_mut_def
        overwrite_def)
qed (auto simp: slice_bufmut_def slice_mut_remaining_mut_def slice_mut_put_slice_def
    slice_mut_put_bytes_def slice_mut_advance_mut_def slice_mut_chunk_write_def overwrite_def
    appends_def)

text \<open>The bytes behind the cursor of an uninitialised slice: the ones that were written.\<close>

definition um_written :: "uninit_mut \<Rightarrow> u8 list" where
  "um_written s = map the (um_done s)"

interpretation uninit_mut_b: bufmut_contract uninit_bufmut "\<lambda>s. None \<notin> set (um_done s)"
  um_written "\<lambda>s. length (um_rest s)"
proof (unfold_locales, goal_cases)
  case (2 s)
  then show ?case
    by (auto simp: uninit_bufmut_def uninit_mut_chunk_mut_def uninit_mut_advance_mut_def
        uninit_mut_chunk_write_def uninit_mut_remaining_mut_def overwrite_def um_written_def)
qed (auto simp: uninit_bufmut_def uninit_mut_remaining_mut_def uninit_mut_put_slice_def
    uninit_mut_put_bytes_def uninit_mut_advance_mut_def uninit_mut_chunk_write_def overwrite_def
    appends_def um_written_def)

text \<open>
  A vector: half of the address space is the bound up to which doubling the capacity cannot
  overflow.
\<close>

definition vec_room :: "vec \<Rightarrow> nat" where
  "vec_room v = isize_max div 2 - vec_len v"

definition vec_invar :: "vec \<Rightarrow> bool" where
  "vec_invar v \<longleftrightarrow> vec_capacity v \<le> isize_max"

lemma vec_reserve_ok:
  assumes "vec_invar v" and "vec_len v + n \<le> isize_max div 2 + 64" and "vec_len v \<le> isize_max div 2"
    and "n \<le> 64 \<and> vec_capacity v = vec_len v \<or> vec_len v + n \<le> isize_max div 2"
  obtains sp where "vec_reserve v n = Ok (v\<lparr>vec_spare := vec_spare v @ sp\<rparr>)"
    and "n \<le> length (vec_spare v @ sp)" and "vec_invar (v\<lparr>vec_spare := vec_spare v @ sp\<rparr>)"
proof (cases "n \<le> vec_capacity v - vec_len v")
  case True
  then show thesis
    using assms(1) by (intro that [of "[]"]) (simp_all add: vec_reserve_def vec_capacity_def vec_len_def)
next
  case False
  let ?c = "vec_grown (vec_capacity v) (vec_len v + n)"
  have "?c \<le> isize_max"
    using assms(2-4) False by (auto simp: vec_grown_def isize_max_def)
  moreover have "vec_capacity v \<le> ?c" and "vec_len v + n \<le> ?c" by (simp_all add: vec_grown_def)
  ultimately show thesis
    using False
    by (intro that [of "replicate (?c - vec_capacity v) None"])
      (auto simp: vec_reserve_def Let_def vec_invar_def vec_capacity_def vec_len_def)
qed

lemma vec_extend_ok:
  assumes "vec_invar v" and "length bs \<le> vec_room v"
  shows "appends vec_invar vec_data vec_room v bs (vec_extend_from_slice v bs)"
proof (cases "bs = []")
  case True
  with assms show ?thesis
    by (auto simp: vec_extend_from_slice_def vec_reserve_def appends_def)
next
  case False
  then have b: "vec_len v + length bs \<le> isize_max div 2"
    using assms(2) by (cases bs) (auto simp: vec_room_def)
  obtain sp where sp: "vec_reserve v (length bs) = Ok (v\<lparr>vec_spare := vec_spare v @ sp\<rparr>)"
    "length bs \<le> length (vec_spare v @ sp)" "vec_invar (v\<lparr>vec_spare := vec_spare v @ sp\<rparr>)"
    by (rule vec_reserve_ok [OF assms(1), of "length bs"]) (use b in auto)
  then show ?thesis
    by (auto simp: vec_extend_from_slice_def appends_def vec_invar_def vec_capacity_def
        vec_room_def vec_len_def)
qed

lemma vec_advance_written:
  assumes "length bs \<le> length (vec_spare v)"
  shows "vec_advance_mut (vec_chunk_write v bs) (length bs)
           = Ok (v\<lparr>vec_data := vec_data v @ bs, vec_spare := drop (length bs) (vec_spare v)\<rparr>)"
  using assms
  by (auto simp: vec_advance_mut_def vec_chunk_write_def vec_set_len_def vec_capacity_def
      vec_len_def overwrite_def Let_def comp_def)

lemma vec_chunk_mut_ok:
  assumes "vec_invar v" and "0 < vec_room v"
  obtains sp where "vec_chunk_mut v = Ok (length (vec_spare v @ sp), v\<lparr>vec_spare := vec_spare v @ sp\<rparr>)"
    and "0 < length (vec_spare v @ sp)" and "vec_invar (v\<lparr>vec_spare := vec_spare v @ sp\<rparr>)"
proof (cases "vec_spare v = []")
  case False
  with assms(1) show thesis
    by (intro that [of "[]"]) (simp_all add: vec_chunk_mut_def vec_capacity_def vec_len_def)
next
  case True
  have b: "vec_len v \<le> isize_max div 2" using assms(2) by (simp add: vec_room_def)
  obtain sp where "vec_reserve v 64 = Ok (v\<lparr>vec_spare := vec_spare v @ sp\<rparr>)"
    "64 \<le> length (vec_spare v @ sp)" "vec_invar (v\<lparr>vec_spare := vec_spare v @ sp\<rparr>)"
    by (rule vec_reserve_ok [OF assms(1), of 64])
      (use b True in \<open>auto simp: vec_capacity_def vec_len_def\<close>)
  with True show thesis
    by (intro that [of sp]) (auto simp: vec_chunk_mut_def vec_capacity_def vec_len_def)
qed

interpretation vec_b: bufmut_contract vec_bufmut vec_invar vec_data vec_room
proof (unfold_locales, goal_cases)
  case (1 v)
  then show ?case
    by (simp add: vec_bufmut_def vec_room_def vec_remaining_mut_def isize_max_def)
next
  case (2 v)
  from 2 obtain sp where
    sp: "vec_chunk_mut v = Ok (length (vec_spare v @ sp), v\<lparr>vec_spare := vec_spare v @ sp\<rparr>)"
    "0 < length (vec_spare v @ sp)" "vec_invar (v\<lparr>vec_spare := vec_spare v @ sp\<rparr>)"
    by (rule vec_chunk_mut_ok)
  let ?v = "v\<lparr>vec_spare := vec_spare v @ sp\<rparr>" and ?n = "length (vec_spare v @ sp)"
  have "?n \<le> vec_remaining_mut v"
    using sp(3) by (simp add: vec_invar_def vec_capacity_def vec_remaining_mut_def vec_len_def)
  moreover have "vec_remaining_mut ?v = vec_remaining_mut v"
    and "vec_remaining_mut (vec_chunk_write ?v bs) = vec_remaining_mut v" for bs
    by (simp_all add: vec_remaining_mut_def vec_chunk_write_def vec_len_def)
  moreover have "\<exists>v2. vec_advance_mut (vec_chunk_write ?v bs) (length bs) = Ok v2 \<and> vec_invar v2
      \<and> vec_data v2 = vec_data v @ bs \<and> vec_room v2 = vec_room v - length bs
      \<and> vec_remaining_mut v2 = vec_remaining_mut v - length bs"
    if "length bs \<le> ?n" for bs
    using vec_advance_written [of bs ?v] that sp(3)
    by (simp add: vec_invar_def vec_capacity_def vec_room_def vec_len_def vec_remaining_mut_def)
  ultimately show ?case using sp(1,2) by (auto simp: vec_bufmut_def)
next
  case (3 v bs)
  then show ?case by (simp add: vec_bufmut_def vec_put_slice_def vec_extend_ok)
next
  case (4 v n b)
  then have "saturating_add (vec_len v) n - vec_len v = n"
    by (auto simp: saturating_add_def vec_room_def isize_max_def usize_max_def)
  with 4 vec_extend_ok [of v "replicate n b"] show ?case
    by (simp add: vec_bufmut_def vec_put_bytes_def Let_def)
qed

end
