(* ===== verification/Write_Adapters.thy ===== *)
theory Write_Adapters
  imports Read_Adapters BufMut
begin

text \<open>
  The adapters over \<open>BufMut\<close>: \<open>Limit\<close> (\<open>bytes/src/buf/limit.rs\<close>), the writing half of \<open>Chain\<close>
  (\<open>chain.rs\<close>) and the \<open>io::Write\<close> adapter \<open>Writer\<close> (\<open>writer.rs\<close>), with the proofs that \<open>Limit\<close>
  and \<open>Chain\<close> of buffers that meet the contract of \<open>BufMut\<close> meet it again, and the copying of
  any \<open>Buf\<close> into them.
\<close>

section \<open>Limit\<close>

record 'b limit_adapter =
  lim_inner :: 'b
  lim_limit :: usize

definition limit_new :: "'b \<Rightarrow> usize \<Rightarrow> 'b limit_adapter" where
  "limit_new inner limit = \<lparr>lim_inner = inner, lim_limit = limit\<rparr>"

definition limit_set_limit :: "'b limit_adapter \<Rightarrow> usize \<Rightarrow> 'b limit_adapter" where
  "limit_set_limit self limit = self\<lparr>lim_limit := limit\<rparr>"

definition limit_remaining_mut :: "'b bufmut_ops \<Rightarrow> 'b limit_adapter \<Rightarrow> usize" where
  "limit_remaining_mut M self = min (remaining_mut M (lim_inner self)) (lim_limit self)"

definition limit_chunk_mut ::
    "'b bufmut_ops \<Rightarrow> 'b limit_adapter \<Rightarrow> (usize \<times> 'b limit_adapter) outcome" where
  "limit_chunk_mut M self =
     obind (chunk_mut M (lim_inner self)) (\<lambda>(bytes_len, inner').
       let end = min bytes_len (lim_limit self) in Ok (end, self\<lparr>lim_inner := inner'\<rparr>))"

definition limit_chunk_write :: "'b bufmut_ops \<Rightarrow> 'b limit_adapter \<Rightarrow> u8 list \<Rightarrow> 'b limit_adapter" where
  "limit_chunk_write M self bs = self\<lparr>lim_inner := chunk_write M (lim_inner self) bs\<rparr>"

definition limit_advance_mut ::
    "'b bufmut_ops \<Rightarrow> 'b limit_adapter \<Rightarrow> usize \<Rightarrow> 'b limit_adapter outcome" where
  "limit_advance_mut M self cnt =
     obind (guard (cnt \<le> lim_limit self) PanicAssert) (\<lambda>_.
     obind (advance_mut M (lim_inner self) cnt) (\<lambda>inner'.
       Ok (self\<lparr>lim_inner := inner', lim_limit := lim_limit self - cnt\<rparr>)))"

definition limit_required :: "'b bufmut_ops \<Rightarrow> 'b limit_adapter bufmut_required" where
  "limit_required M =
     \<lparr>mreq_remaining_mut = limit_remaining_mut M, mreq_advance_mut = limit_advance_mut M,
      mreq_chunk_mut = limit_chunk_mut M, mreq_chunk_write = limit_chunk_write M\<rparr>"

section \<open>Chain\<close>

definition chain_remaining_mut ::
    "'a bufmut_ops \<Rightarrow> 'b bufmut_ops \<Rightarrow> ('a, 'b) chain \<Rightarrow> usize" where
  "chain_remaining_mut A B self =
     saturating_add (remaining_mut A (chain_a self)) (remaining_mut B (chain_b self))"

definition chain_chunk_mut ::
    "'a bufmut_ops \<Rightarrow> 'b bufmut_ops \<Rightarrow> ('a, 'b) chain \<Rightarrow> (usize \<times> ('a, 'b) chain) outcome" where
  "chain_chunk_mut A B self =
     (if has_remaining_mut A (chain_a self)
      then obind (chunk_mut A (chain_a self)) (\<lambda>(n, a'). Ok (n, self\<lparr>chain_a := a'\<rparr>))
      else obind (chunk_mut B (chain_b self)) (\<lambda>(n, b'). Ok (n, self\<lparr>chain_b := b'\<rparr>)))"

text \<open>The slice \<open>chunk_mut\<close> returned belongs to the first buffer as long as that has room.\<close>

definition chain_chunk_write ::
    "'a bufmut_ops \<Rightarrow> 'b bufmut_ops \<Rightarrow> ('a, 'b) chain \<Rightarrow> u8 list \<Rightarrow> ('a, 'b) chain" where
  "chain_chunk_write A B self bs =
     (if has_remaining_mut A (chain_a self)
      then self\<lparr>chain_a := chunk_write A (chain_a self) bs\<rparr>
      else self\<lparr>chain_b := chunk_write B (chain_b self) bs\<rparr>)"

definition chain_advance_mut ::
    "'a bufmut_ops \<Rightarrow> 'b bufmut_ops \<Rightarrow> ('a, 'b) chain \<Rightarrow> usize \<Rightarrow> ('a, 'b) chain outcome" where
  "chain_advance_mut A B self cnt =
     (let a_rem = remaining_mut A (chain_a self)
      in if a_rem \<noteq> 0
         then if a_rem \<ge> cnt
              then obind (advance_mut A (chain_a self) cnt) (\<lambda>a'. Ok (self\<lparr>chain_a := a'\<rparr>))
              else obind (advance_mut A (chain_a self) a_rem) (\<lambda>a'.
                   obind (advance_mut B (chain_b self) (cnt - a_rem)) (\<lambda>b'.
                     Ok (self\<lparr>chain_a := a', chain_b := b'\<rparr>)))
         else obind (advance_mut B (chain_b self) cnt) (\<lambda>b'. Ok (self\<lparr>chain_b := b'\<rparr>)))"

definition chain_mut_required ::
    "'a bufmut_ops \<Rightarrow> 'b bufmut_ops \<Rightarrow> ('a, 'b) chain bufmut_required" where
  "chain_mut_required A B =
     \<lparr>mreq_remaining_mut = chain_remaining_mut A B, mreq_advance_mut = chain_advance_mut A B,
      mreq_chunk_mut = chain_chunk_mut A B, mreq_chunk_write = chain_chunk_write A B\<rparr>"

section \<open>Writer\<close>

text \<open>\<open>write(buf)\<close>: the number of bytes taken, and the writer.\<close>

definition writer_write :: "'b bufmut_ops \<Rightarrow> 'b \<Rightarrow> u8 list \<Rightarrow> (usize \<times> 'b) outcome" where
  "writer_write M self buf =
     (let n = min (remaining_mut M self) (length buf)
      in obind (put_slice M self (take n buf)) (\<lambda>self'. Ok (n, self')))"

section \<open>A limited buffer meets the contract\<close>

definition limit_room :: "('b \<Rightarrow> nat) \<Rightarrow> 'b limit_adapter \<Rightarrow> nat" where
  "limit_room room l = min (room (lim_inner l)) (lim_limit l)"

context bufmut_contract
begin

lemmas room_bound = bufmut_required_contract.room_le [OF required, simplified]

lemma chunk_mut_ok:
  assumes "invar s" and "0 < room s"
  obtains n s1 where "chunk_mut M s = Ok (n, s1)" and "0 < n" and "n \<le> remaining_mut M s"
    and "remaining_mut M s1 = remaining_mut M s"
    and "\<And>bs. length bs \<le> n \<Longrightarrow> remaining_mut M (chunk_write M s1 bs) = remaining_mut M s"
    and "\<And>bs. length bs \<le> n \<Longrightarrow> length bs \<le> room s \<Longrightarrow>
      \<exists>s2. advance_mut M (chunk_write M s1 bs) (length bs) = Ok s2 \<and> invar s2
         \<and> written s2 = written s @ bs \<and> room s2 = room s - length bs
         \<and> remaining_mut M s2 = remaining_mut M s - length bs"
  using bufmut_required_contract.mreq_chunk [OF required assms] by auto

lemma writer_write_ok:
  assumes "invar s" and "room s = remaining_mut M s"
  shows "\<exists>s'. writer_write M s buf = Ok (min (room s) (length buf), s') \<and> invar s'
           \<and> written s' = written s @ take (room s) buf"
proof -
  have "length (take (min (room s) (length buf)) buf) \<le> room s" by simp
  from put_slice_ok [OF assms(1) this] show ?thesis
    using assms(2) by (auto simp: writer_write_def Let_def appends_def)
qed

end

locale limit_contract = inner: bufmut_contract M I W room
  for M :: "'b bufmut_ops" and I W room
begin

lemma limit_chunk:
  assumes "I (lim_inner l)" and "0 < limit_room room l"
  obtains n l1 where "limit_chunk_mut M l = Ok (n, l1)" and "0 < n"
    and "n \<le> limit_remaining_mut M l" and "limit_remaining_mut M l1 = limit_remaining_mut M l"
    and "\<And>bs. length bs \<le> n \<Longrightarrow>
      limit_remaining_mut M (limit_chunk_write M l1 bs) = limit_remaining_mut M l"
    and "\<And>bs. length bs \<le> n \<Longrightarrow> length bs \<le> limit_room room l \<Longrightarrow>
      \<exists>l2. limit_advance_mut M (limit_chunk_write M l1 bs) (length bs) = Ok l2
         \<and> I (lim_inner l2) \<and> W (lim_inner l2) = W (lim_inner l) @ bs
         \<and> limit_room room l2 = limit_room room l - length bs
         \<and> limit_remaining_mut M l2 = limit_remaining_mut M l - length bs"
proof -
  let ?i = "lim_inner l"
  have "0 < room ?i" and lim: "0 < lim_limit l" using assms(2) by (simp_all add: limit_room_def)
  from assms(1) this(1) obtain n i1 where c: "chunk_mut M ?i = Ok (n, i1)" "0 < n"
    "n \<le> remaining_mut M ?i" "remaining_mut M i1 = remaining_mut M ?i"
    and f: "\<And>bs. length bs \<le> n \<Longrightarrow> remaining_mut M (chunk_write M i1 bs) = remaining_mut M ?i"
    and w: "\<And>bs. length bs \<le> n \<Longrightarrow> length bs \<le> room ?i \<Longrightarrow>
      \<exists>s2. advance_mut M (chunk_write M i1 bs) (length bs) = Ok s2 \<and> I s2
         \<and> W s2 = W ?i @ bs \<and> room s2 = room ?i - length bs
         \<and> remaining_mut M s2 = remaining_mut M ?i - length bs"
    by (rule inner.chunk_mut_ok) blast
  let ?n = "min n (lim_limit l)" and ?l = "l\<lparr>lim_inner := i1\<rparr>"
  show thesis
  proof (rule that [of ?n ?l])
    fix bs :: "u8 list"
    assume bs: "length bs \<le> ?n" "length bs \<le> limit_room room l"
    then obtain i2 where "advance_mut M (chunk_write M i1 bs) (length bs) = Ok i2" "I i2"
      "W i2 = W ?i @ bs" "room i2 = room ?i - length bs"
      "remaining_mut M i2 = remaining_mut M ?i - length bs"
      using w [of bs] by (auto simp: limit_room_def)
    with bs show "\<exists>l2. limit_advance_mut M (limit_chunk_write M ?l bs) (length bs) = Ok l2
         \<and> I (lim_inner l2) \<and> W (lim_inner l2) = W (lim_inner l) @ bs
         \<and> limit_room room l2 = limit_room room l - length bs
         \<and> limit_remaining_mut M l2 = limit_remaining_mut M l - length bs"
      by (auto simp: limit_advance_mut_def limit_chunk_write_def limit_room_def
          limit_remaining_mut_def)
  qed (use c lim f in \<open>auto simp: limit_chunk_mut_def limit_remaining_mut_def limit_chunk_write_def\<close>)
qed

end

sublocale limit_contract \<subseteq> limited: bufmut_required_contract
  "limit_required M" "\<lambda>l. I (lim_inner l)" "\<lambda>l. W (lim_inner l)" "limit_room room"
proof (unfold_locales, goal_cases)
  case (1 l)
  then show ?case
    using inner.room_bound [of "lim_inner l"]
    by (simp add: limit_required_def limit_room_def limit_remaining_mut_def min.coboundedI1)
next
  case (2 l)
  then show ?case by (rule limit_chunk) (auto simp: limit_required_def)
qed

context limit_contract
begin

lemma limit_meets:
  "bufmut_required_contract (limit_required M) (\<lambda>l. I (lim_inner l)) (\<lambda>l. W (lim_inner l))
     (limit_room room)"
  by (rule limited.bufmut_required_contract_axioms)

end

section \<open>A chain meets the contract\<close>

text \<open>
  The first buffer of a chain can be written to its very end, and the second is untouched
  while there is room in the first: then what the chain has written is what the first holds
  followed by what the second holds.
\<close>

definition chain_mut_invar ::
    "'a bufmut_ops \<Rightarrow> ('a \<Rightarrow> bool) \<Rightarrow> ('a \<Rightarrow> nat) \<Rightarrow>
     'b bufmut_ops \<Rightarrow> ('b \<Rightarrow> bool) \<Rightarrow> ('b \<Rightarrow> u8 list) \<Rightarrow> ('a, 'b) chain \<Rightarrow> bool" where
  "chain_mut_invar A IA RA B IB WB c \<longleftrightarrow>
     IA (chain_a c) \<and> IB (chain_b c) \<and> RA (chain_a c) = remaining_mut A (chain_a c)
     \<and> (0 < RA (chain_a c) \<longrightarrow> WB (chain_b c) = [])
     \<and> remaining_mut A (chain_a c) + remaining_mut B (chain_b c) \<le> usize_max"

definition chain_room :: "('a \<Rightarrow> nat) \<Rightarrow> ('b \<Rightarrow> nat) \<Rightarrow> ('a, 'b) chain \<Rightarrow> nat" where
  "chain_room RA RB c = RA (chain_a c) + RB (chain_b c)"

lemmas chain_mut_defs = chain_mut_invar_def chain_view_def chain_room_def
  chain_remaining_mut_def chain_chunk_mut_def chain_chunk_write_def chain_advance_mut_def
  has_remaining_mut_def saturating_add_def

locale chain_mut_contract =
  front: bufmut_contract A IA WA RA + rear: bufmut_contract B IB WB RB
  for A :: "'a bufmut_ops" and IA WA RA and B :: "'b bufmut_ops" and IB WB RB
begin

lemma front_chunk:
  assumes "chain_mut_invar A IA RA B IB WB c" and "0 < RA (chain_a c)"
  obtains n c1 where "chain_chunk_mut A B c = Ok (n, c1)" and "0 < n"
    and "n \<le> chain_remaining_mut A B c" and "chain_remaining_mut A B c1 = chain_remaining_mut A B c"
    and "\<And>bs. length bs \<le> n \<Longrightarrow>
      chain_remaining_mut A B (chain_chunk_write A B c1 bs) = chain_remaining_mut A B c"
    and "\<And>bs. length bs \<le> n \<Longrightarrow>
      \<exists>c2. chain_advance_mut A B (chain_chunk_write A B c1 bs) (length bs) = Ok c2
         \<and> chain_mut_invar A IA RA B IB WB c2
         \<and> chain_view WA WB c2 = chain_view WA WB c @ bs
         \<and> chain_room RA RB c2 = chain_room RA RB c - length bs
         \<and> chain_remaining_mut A B c2 = chain_remaining_mut A B c - length bs"
proof -
  let ?a = "chain_a c" and ?b = "chain_b c"
  have I: "IA ?a" "IB ?b" "RA ?a = remaining_mut A ?a" "WB ?b = []"
    "remaining_mut A ?a + remaining_mut B ?b \<le> usize_max"
    using assms by (auto simp: chain_mut_invar_def)
  from I(1) assms(2) obtain n a1 where c: "chunk_mut A ?a = Ok (n, a1)" "0 < n"
    "n \<le> remaining_mut A ?a" "remaining_mut A a1 = remaining_mut A ?a"
    and f: "\<And>bs. length bs \<le> n \<Longrightarrow> remaining_mut A (chunk_write A a1 bs) = remaining_mut A ?a"
    and w: "\<And>bs. length bs \<le> n \<Longrightarrow> length bs \<le> RA ?a \<Longrightarrow>
      \<exists>s2. advance_mut A (chunk_write A a1 bs) (length bs) = Ok s2 \<and> IA s2
         \<and> WA s2 = WA ?a @ bs \<and> RA s2 = RA ?a - length bs
         \<and> remaining_mut A s2 = remaining_mut A ?a - length bs"
    by (rule front.chunk_mut_ok) blast
  have pos: "0 < remaining_mut A ?a" using assms(2) I(3) by simp
  show thesis
  proof (rule that [of n "c\<lparr>chain_a := a1\<rparr>"])
    fix bs :: "u8 list"
    assume bs: "length bs \<le> n"
    then have le: "length bs \<le> RA ?a" using c(3) I(3) by simp
    from w [OF bs le] obtain a2 where
      "advance_mut A (chunk_write A a1 bs) (length bs) = Ok a2" "IA a2"
      "WA a2 = WA ?a @ bs" "RA a2 = RA ?a - length bs"
      "remaining_mut A a2 = remaining_mut A ?a - length bs" by blast
    with I le pos c(4) f [OF bs]
    show "\<exists>c2. chain_advance_mut A B (chain_chunk_write A B (c\<lparr>chain_a := a1\<rparr>) bs) (length bs) = Ok c2
         \<and> chain_mut_invar A IA RA B IB WB c2
         \<and> chain_view WA WB c2 = chain_view WA WB c @ bs
         \<and> chain_room RA RB c2 = chain_room RA RB c - length bs
         \<and> chain_remaining_mut A B c2 = chain_remaining_mut A B c - length bs"
      by (auto simp: chain_mut_defs Let_def)
  qed (use c f I pos in \<open>auto simp: chain_mut_defs\<close>)
qed

lemma rear_chunk:
  assumes "chain_mut_invar A IA RA B IB WB c" and "RA (chain_a c) = 0" and "0 < RB (chain_b c)"
  obtains n c1 where "chain_chunk_mut A B c = Ok (n, c1)" and "0 < n"
    and "n \<le> chain_remaining_mut A B c" and "chain_remaining_mut A B c1 = chain_remaining_mut A B c"
    and "\<And>bs. length bs \<le> n \<Longrightarrow>
      chain_remaining_mut A B (chain_chunk_write A B c1 bs) = chain_remaining_mut A B c"
    and "\<And>bs. length bs \<le> n \<Longrightarrow> length bs \<le> RB (chain_b c) \<Longrightarrow>
      \<exists>c2. chain_advance_mut A B (chain_chunk_write A B c1 bs) (length bs) = Ok c2
         \<and> chain_mut_invar A IA RA B IB WB c2
         \<and> chain_view WA WB c2 = chain_view WA WB c @ bs
         \<and> chain_room RA RB c2 = chain_room RA RB c - length bs
         \<and> chain_remaining_mut A B c2 = chain_remaining_mut A B c - length bs"
proof -
  let ?a = "chain_a c" and ?b = "chain_b c"
  have I: "IA ?a" "IB ?b" "remaining_mut A ?a = 0" "remaining_mut B ?b \<le> usize_max"
    using assms(1,2) by (auto simp: chain_mut_invar_def)
  from I(2) assms(3) obtain n b1 where c: "chunk_mut B ?b = Ok (n, b1)" "0 < n"
    "n \<le> remaining_mut B ?b" "remaining_mut B b1 = remaining_mut B ?b"
    and f: "\<And>bs. length bs \<le> n \<Longrightarrow> remaining_mut B (chunk_write B b1 bs) = remaining_mut B ?b"
    and w: "\<And>bs. length bs \<le> n \<Longrightarrow> length bs \<le> RB ?b \<Longrightarrow>
      \<exists>s2. advance_mut B (chunk_write B b1 bs) (length bs) = Ok s2 \<and> IB s2
         \<and> WB s2 = WB ?b @ bs \<and> RB s2 = RB ?b - length bs
         \<and> remaining_mut B s2 = remaining_mut B ?b - length bs"
    by (rule rear.chunk_mut_ok) blast
  show thesis
  proof (rule that [of n "c\<lparr>chain_b := b1\<rparr>"])
    fix bs :: "u8 list"
    assume bs: "length bs \<le> n" "length bs \<le> RB ?b"
    from w [OF bs] obtain b2 where
      "advance_mut B (chunk_write B b1 bs) (length bs) = Ok b2" "IB b2"
      "WB b2 = WB ?b @ bs" "RB b2 = RB ?b - length bs"
      "remaining_mut B b2 = remaining_mut B ?b - length bs" by blast
    with I assms(2) bs c(3) f [OF bs(1)]
    show "\<exists>c2. chain_advance_mut A B (chain_chunk_write A B (c\<lparr>chain_b := b1\<rparr>) bs) (length bs) = Ok c2
         \<and> chain_mut_invar A IA RA B IB WB c2
         \<and> chain_view WA WB c2 = chain_view WA WB c @ bs
         \<and> chain_room RA RB c2 = chain_room RA RB c - length bs
         \<and> chain_remaining_mut A B c2 = chain_remaining_mut A B c - length bs"
      by (auto simp: chain_mut_defs Let_def)
  qed (use c f I in \<open>auto simp: chain_mut_defs\<close>)
qed

end

sublocale chain_mut_contract \<subseteq> chained: bufmut_required_contract
  "chain_mut_required A B" "chain_mut_invar A IA RA B IB WB" "chain_view WA WB" "chain_room RA RB"
proof (unfold_locales, goal_cases)
  case (1 c)
  then show ?case
    using front.room_bound [of "chain_a c"] rear.room_bound [of "chain_b c"]
    by (auto simp: chain_mut_required_def chain_mut_defs)
next
  case (2 c)
  show ?case
  proof (cases "0 < RA (chain_a c)")
    case True
    from 2(1) True show ?thesis by (rule front_chunk) (auto simp: chain_mut_required_def)
  next
    case False
    with 2 have z: "RA (chain_a c) = 0" "0 < RB (chain_b c)" by (simp_all add: chain_room_def)
    from 2(1) z show ?thesis
      by (rule rear_chunk) (auto simp: chain_mut_required_def chain_room_def z)
  qed
qed

section \<open>Instances\<close>

interpretation slice_limit: limit_contract slice_bufmut "\<lambda>_. True" sm_done "\<lambda>s. length (sm_rest s)"
  by unfold_locales

interpretation vec_limit: limit_contract vec_bufmut vec_invar vec_data vec_room
  by unfold_locales

interpretation slice_vec_chain: chain_mut_contract
  slice_bufmut "\<lambda>_. True" sm_done "\<lambda>s. length (sm_rest s)" vec_bufmut vec_invar vec_data vec_room
  by unfold_locales

interpretation chain_to_vec: transfer
  "chain_buf slice_buf slice_buf" "chain_invar (\<lambda>_. True) (\<lambda>s. s) (\<lambda>_. True) (\<lambda>s. s)"
  "chain_view (\<lambda>s. s) (\<lambda>s. s)" "required_of vec_bufmut" vec_invar vec_data vec_room
  by (rule transfer.intro [OF slice_chain.chained.buf_contract_axioms vec_b.required])

interpretation slice_to_chain: transfer
  slice_buf "\<lambda>_. True" "\<lambda>s. s" "chain_mut_required slice_bufmut vec_bufmut"
  "chain_mut_invar slice_bufmut (\<lambda>_. True) (\<lambda>s. length (sm_rest s)) vec_bufmut vec_invar vec_data"
  "chain_view sm_done vec_data" "chain_room (\<lambda>s. length (sm_rest s)) vec_room"
  by unfold_locales

end
