(* ===== verification/Buffer_Theorems.thy ===== *)
theory Buffer_Theorems
  imports Write_Adapters
begin

text \<open>
  The properties of the traits \<open>Buf\<close> and \<open>BufMut\<close> and of their adapters that a client of the
  \<open>bytes\<close> crate relies on. Where a property holds of every implementer, it is stated for any
  buffer that meets the contract, and its witness takes a concrete one.
\<close>

section \<open>Round trips\<close>

text \<open>
  \<open>roundtrips M I W room B J V put get k v\<close>: with room for \<open>k\<close> bytes, \<open>put\<close> appends \<open>k\<close> bytes to what
  the destination has written, and \<open>get\<close> reads \<open>v\<close> from any source that starts with these
  bytes, wherever its chunks end, and consumes exactly them.
\<close>

definition roundtrips ::
    "('d \<Rightarrow> bool) \<Rightarrow> ('d \<Rightarrow> u8 list) \<Rightarrow> ('d \<Rightarrow> nat) \<Rightarrow> ('s \<Rightarrow> bool) \<Rightarrow> ('s \<Rightarrow> u8 list) \<Rightarrow>
     ('d \<Rightarrow> 'v \<Rightarrow> 'd outcome) \<Rightarrow> ('s \<Rightarrow> ('v \<times> 's) outcome) \<Rightarrow> nat \<Rightarrow> 'v \<Rightarrow> bool" where
  "roundtrips I W room J V put get k v \<longleftrightarrow>
     (\<forall>d. I d \<and> k \<le> room d \<longrightarrow>
        (\<exists>d' bs. put d v = Ok d' \<and> I d' \<and> W d' = W d @ bs \<and> length bs = k \<and> room d' = room d - k
           \<and> (\<forall>s rest. J s \<and> V s = bs @ rest \<longrightarrow> reads J V s k v (get s))))"

lemma roundtripsI:
  assumes "bufmut_contract M I W room" "buf_contract B J V"
    and "\<And>d. put d v = put_slice M d (enc v)" "\<And>s. get s = buf_get_impl k conv B s"
    and "length (enc v) = k" "conv (enc v) = v"
  shows "roundtrips I W room J V put get k v"
  unfolding roundtrips_def
proof (intro allI impI, elim conjE)
  fix d
  assume d: "I d" "k \<le> room d"
  then have "length (enc v) \<le> room d" using assms(5) by simp
  then obtain d' where d': "put_slice M d (enc v) = Ok d'" "I d'" "W d' = W d @ enc v"
    "room d' = room d - length (enc v)"
    by (rule bufmut_contract.put_encoded [OF assms(1) d(1)])
  have "reads J V s k v (get s)" if "J s" "V s = enc v @ rest" for s rest
    using buf_contract.get_impl_ok [OF assms(2) that(1), of k conv] that(2) assms(4,5,6) by simp
  with d' assms(3,5)
  show "\<exists>d' bs. put d v = Ok d' \<and> I d' \<and> W d' = W d @ bs \<and> length bs = k \<and> room d' = room d - k
      \<and> (\<forall>s rest. J s \<and> V s = bs @ rest \<longrightarrow> reads J V s k v (get s))"
    by auto
qed

lemma roundtrip_orders:
  fixes v :: "'n::len word"
  assumes "bufmut_contract M I W room" "buf_contract B J V" "LENGTH('n) = 8 * k"
  shows "roundtrips I W room J V (\<lambda>d v. put_slice M d (to_be_bytes k v))
           (buf_get_impl k from_be_bytes B) k v"
    and "roundtrips I W room J V (\<lambda>d v. put_slice M d (to_le_bytes k v))
           (buf_get_impl k from_le_bytes B) k v"
    and "roundtrips I W room J V (\<lambda>d v. put_slice M d (to_ne_bytes big k v))
           (buf_get_impl k (from_ne_bytes big) B) k v"
  by (rule roundtripsI [OF assms(1,2) refl refl];
      simp add: from_to_be_bytes from_to_le_bytes from_to_ne_bytes assms(3))+

text \<open>
  C3. What is written is what is read: for every buffer that can be written and every buffer
  that can be read, each fixed-width integer, signed or not, of 16 to 128 bits, in big,
  little and native byte order, survives the round trip.
\<close>

theorem integer_roundtrip:
  assumes M: "bufmut_contract M I W room" and B: "buf_contract B J V"
  shows "roundtrips I W room J V (put_u16 M) (get_u16 B) 2 a
    \<and> roundtrips I W room J V (put_u16_le M) (get_u16_le B) 2 a
    \<and> roundtrips I W room J V (put_u16_ne big M) (get_u16_ne big B) 2 a
    \<and> roundtrips I W room J V (put_i16 M) (get_i16 B) 2 a
    \<and> roundtrips I W room J V (put_i16_le M) (get_i16_le B) 2 a
    \<and> roundtrips I W room J V (put_i16_ne big M) (get_i16_ne big B) 2 a
    \<and> roundtrips I W room J V (put_u32 M) (get_u32 B) 4 b
    \<and> roundtrips I W room J V (put_u32_le M) (get_u32_le B) 4 b
    \<and> roundtrips I W room J V (put_u32_ne big M) (get_u32_ne big B) 4 b
    \<and> roundtrips I W room J V (put_i32 M) (get_i32 B) 4 b
    \<and> roundtrips I W room J V (put_i32_le M) (get_i32_le B) 4 b
    \<and> roundtrips I W room J V (put_i32_ne big M) (get_i32_ne big B) 4 b
    \<and> roundtrips I W room J V (put_u64 M) (get_u64 B) 8 c
    \<and> roundtrips I W room J V (put_u64_le M) (get_u64_le B) 8 c
    \<and> roundtrips I W room J V (put_u64_ne big M) (get_u64_ne big B) 8 c
    \<and> roundtrips I W room J V (put_i64 M) (get_i64 B) 8 c
    \<and> roundtrips I W room J V (put_i64_le M) (get_i64_le B) 8 c
    \<and> roundtrips I W room J V (put_i64_ne big M) (get_i64_ne big B) 8 c
    \<and> roundtrips I W room J V (put_u128 M) (get_u128 B) 16 d
    \<and> roundtrips I W room J V (put_u128_le M) (get_u128_le B) 16 d
    \<and> roundtrips I W room J V (put_u128_ne big M) (get_u128_ne big B) 16 d
    \<and> roundtrips I W room J V (put_i128 M) (get_i128 B) 16 d
    \<and> roundtrips I W room J V (put_i128_le M) (get_i128_le B) 16 d
    \<and> roundtrips I W room J V (put_i128_ne big M) (get_i128_ne big B) 16 d"
  unfolding put_defs [abs_def] get_impl_defs
  by (intro conjI roundtrip_orders [OF M B]) simp_all

theorem integer_roundtrip_witness:
  "roundtrips vec_invar vec_data vec_room
     (chain_invar (\<lambda>_. True) (\<lambda>s. s) (\<lambda>_. True) (\<lambda>s. s)) (chain_view (\<lambda>s. s) (\<lambda>s. s))
     (put_u64_le vec_bufmut) (get_u64_le (chain_buf slice_buf slice_buf)) 8 0x0102030405060708"
  using integer_roundtrip [OF vec_b.bufmut_contract_axioms slice_chain.chained.buf_contract_axioms,
      where c = "0x0102030405060708"]
  by blast

text \<open>Shifting a number of at most 48 bits left and back right by at most 16 bits keeps it.\<close>

lemma sint_of_nat_small: "m < 2 ^ 63 \<Longrightarrow> sint (of_nat m :: i64) = int m"
proof -
  assume m: "m < 2 ^ 63"
  then have "int m < 2 ^ 63" by (metis of_nat_less_iff of_nat_numeral of_nat_power)
  then have "signed_take_bit 63 (int m) = int m"
    by (intro signed_take_bit_int_eq_self) simp_all
  then show ?thesis by (simp add: signed_of_nat)
qed

lemma sign_extend_small:
  assumes "length bs = n" "n \<le> 6"
  shows "sign_extend (of_nat (le_value bs)) n = Ok (of_nat (le_value bs))"
    and "0 \<le> sint (of_nat (le_value bs) :: i64)"
proof -
  define v k where "v = le_value bs" and "k = 16 - n"
  have "v < 256 ^ n" using le_value_bound [of bs] assms(1) by (simp add: v_def)
  then have v: "v < 2 ^ (8 * n)" by (simp add: pow256)
  then have "v * 2 ^ k < 2 ^ (8 * n) * 2 ^ k" by simp
  also have "\<dots> \<le> 2 ^ 63"
    unfolding power_add [symmetric] by (rule power_increasing) (use assms(2) in \<open>simp_all add: k_def\<close>)
  finally have vk: "v * 2 ^ k < 2 ^ 63" .
  have "v * 1 \<le> v * 2 ^ k" by (rule mult_le_mono2) simp
  with vk have v63: "v < 2 ^ 63" by linarith
  then show "0 \<le> sint (of_nat (le_value bs) :: i64)"
    using sint_of_nat_small [OF v63] by (simp add: v_def)
  have "push_bit k (of_nat v :: u64) = of_nat (v * 2 ^ k)"
    by (simp add: push_bit_eq_mult)
  then have "sint (signed_drop_bit k (push_bit k (of_nat v :: u64))) = drop_bit k (int (v * 2 ^ k))"
    using sint_of_nat_small [OF vk] by (simp add: sint_signed_drop_bit_eq)
  also have "\<dots> = sint (of_nat v :: u64)"
    using sint_of_nat_small [OF v63] by (simp add: drop_bit_eq_div)
  finally have "signed_drop_bit k (push_bit k (of_nat v :: u64)) = of_nat v"
    by (rule signed_word_eqI)
  then show "sign_extend (of_nat (le_value bs)) n = Ok (of_nat (le_value bs))"
    using assms(2) by (simp add: sign_extend_def v_def k_def Let_def)
qed

section \<open>Reading\<close>

text \<open>
  C13. \<open>copy_to_slice\<close>, as the trait provides it, terminates on every buffer whose required
  methods keep their promises: it returns the next bytes, however they are chunked, and
  moves past them, or panics without reading when there are too few.
\<close>

theorem copy_to_slice_total:
  assumes "buf_required_contract R invar view" "invar s"
  shows "if n \<le> length (view s)
         then reads invar view s n (take n (view s)) (copy_to_slice_default R s n)
         else copy_to_slice_default R s n = Fault (PanicAdvance n (length (view s)))"
  using buf_required_contract.copy_to_slice_default_ok [OF assms]
    buf_required_contract.copy_to_slice_default_panics [OF assms]
  by simp

theorem copy_to_slice_total_witness:
  "reads (chain_invar (\<lambda>_. True) (\<lambda>s. s) (\<lambda>_. True) (\<lambda>s. s)) (chain_view (\<lambda>s. s) (\<lambda>s. s))
       \<lparr>chain_a = [1, 2], chain_b = [3, 4]\<rparr> 3 [1, 2, 3]
       (copy_to_slice_default (chain_required slice_buf slice_buf) \<lparr>chain_a = [1, 2], chain_b = [3, 4]\<rparr> 3)"
  using copy_to_slice_total [OF slice_chain.chained_req.buf_required_contract_axioms,
      of "\<lparr>chain_a = [1, 2], chain_b = [3, 4]\<rparr>" 3]
  by (simp add: chain_invar_def chain_view_def usize_max_def)

text \<open>
  The promise is needed: a buffer that shows no bytes while it counts some, and that
  advancing by nothing leaves as it is, makes \<open>copy_to_slice\<close> run forever.
\<close>

lemma copy_to_slice_diverges:
  assumes "req_chunk R s = []" "req_advance R s 0 = Ok s" "0 < n" "n \<le> req_remaining R s"
  shows "copy_to_slice_default R s n = Fault Diverges"
proof -
  have "loop (\<lambda>(out, dst, s). dst \<noteq> 0) (copy_to_slice_step R) ([], n, s) = Fault Diverges"
    by (rule loop_diverges) (use assms in \<open>simp_all add: copy_to_slice_step_def Let_def\<close>)
  then show ?thesis using assms(4) by (simp add: copy_to_slice_default_def)
qed

text \<open>
  The variable-width unsigned reads: at most 8 bytes are read as the big- or little-endian
  number they spell; more than 8, or more than there are, panic.
\<close>

lemma get_uint_value:
  assumes B: "buf_contract B invar view" and s: "invar s"
  shows "(n \<le> 8 \<and> n \<le> length (view s) \<longrightarrow>
            reads invar view s n (of_nat (le_value (rev (take n (view s))))) (get_uint B n s)
          \<and> reads invar view s n (of_nat (le_value (take n (view s)))) (get_uint_le B n s))
       \<and> (8 < n \<longrightarrow> get_uint B n s = Fault (PanicDoesNotFit 8 n)
                  \<and> get_uint_le B n s = Fault (PanicDoesNotFit 8 n))
       \<and> (n \<le> 8 \<and> length (view s) < n \<longrightarrow> get_uint B n s = Fault (PanicAdvance n (length (view s)))
                  \<and> get_uint_le B n s = Fault (PanicAdvance n (length (view s))))"
  using buf_contract.get_impl_be_ok [OF B s, of n] buf_contract.get_impl_le_ok [OF B s, of n]
    buf_contract.get_uint_too_wide [OF B, of n s] buf_contract.copy_to_slice_panics [OF B s, of n]
  by (auto simp: get_uint_def get_uint_le_def buf_get_impl_be_def buf_get_impl_le_def checked_sub_def)

text \<open>
  C32. The variable-width signed reads do not extend the sign: up to 6 bytes, \<open>get_int\<close> and
  \<open>get_int_le\<close> return the number that the unsigned read returns, which is never negative.
\<close>

theorem get_int_never_negative:
  assumes B: "buf_contract B invar view" and s: "invar s" and n: "n \<le> 6" "n \<le> length (view s)"
  shows "reads invar view s n (of_nat (le_value (rev (take n (view s))))) (get_int B n s)
       \<and> reads invar view s n (of_nat (le_value (take n (view s)))) (get_int_le B n s)
       \<and> 0 \<le> sint (of_nat (le_value (rev (take n (view s)))) :: i64)
       \<and> 0 \<le> sint (of_nat (le_value (take n (view s))) :: i64)"
proof -
  have len: "length (rev (take n (view s))) = n" "length (take n (view s)) = n" using n(2) by simp_all
  have "reads invar view s n (of_nat (le_value (rev (take n (view s))))) (get_uint B n s)"
    "reads invar view s n (of_nat (le_value (take n (view s)))) (get_uint_le B n s)"
    using buf_contract.get_impl_be_ok [OF B s, of n] buf_contract.get_impl_le_ok [OF B s, of n] n
    by (simp_all add: get_uint_def get_uint_le_def)
  then show ?thesis
    using sign_extend_small [OF len(1) n(1)] sign_extend_small [OF len(2) n(1)]
    by (auto simp: get_int_def get_int_le_def elim!: readsE intro!: readsI)
qed

theorem get_int_never_negative_witness:
  "reads (\<lambda>_. True) (\<lambda>s. s) [0xFF] 1 (255 :: i64) (get_int slice_buf 1 [0xFF])"
  using get_int_never_negative [OF slice_b.buf_contract_axioms TrueI, of 1 "[0xFF]"] by simp

section \<open>Adapters\<close>

text \<open>
  C34. Reading a buffer as a stream: iterating terminates, yields exactly its bytes and leaves it
  empty; \<open>io::Read\<close> fills as much of the given slice as there are bytes, reports the number, leaves
  the rest of the slice as it was, goes on after the bytes it read, and never fails.
\<close>

theorem streams_read:
  assumes "buf_contract B invar view" "invar s"
  shows "(\<exists>s'. into_iter_collect B s = Ok (view s, s') \<and> invar s' \<and> view s' = []
            \<and> into_iter_size_hint B s = (length (view s), Some (length (view s))))
    \<and> (\<exists>s'. reader_read B s buf
           = Ok (min (length (view s)) (length buf),
                 take (length buf) (view s) @ drop (length (view s)) buf, s')
         \<and> invar s' \<and> view s' = drop (length buf) (view s))"
  using buf_contract.iter_collect_ok [OF assms] buf_contract.remaining_view [OF assms]
    buf_contract.reader_read_ok [OF assms]
  by (auto simp: into_iter_size_hint_def Let_def)

theorem streams_read_witness:
  "(\<exists>s'. into_iter_collect (take_buf (chain_buf slice_buf slice_buf))
          (take_new (chain_new [1, 2] [3, 4]) 3) = Ok ([1, 2, 3], s'))
   \<and> (\<exists>s'. reader_read (take_buf (chain_buf slice_buf slice_buf))
          (take_new (chain_new [1, 2] [3, 4]) 3) [9, 9, 9, 9, 9] = Ok (3, [1, 2, 3, 9, 9], s'))"
  using streams_read [OF take_chain.take_meets(2),
      of "take_new (chain_new [1, 2] [3, 4]) 3" "[9, 9, 9, 9, 9]"]
  by (auto simp: take_new_def chain_new_def take_invar_def take_view_def
      chain_invar_def chain_view_def usize_max_def)

text \<open>
  C22. \<open>Chain::advance\<close> and \<open>Take::advance\<close> nested: a limited chain of two buffers shows the
  first bytes of the concatenation, and advancing within the limit drops them from the front,
  across the boundary of the two; beyond the limit or the end it panics.
\<close>

theorem take_chain_advance:
  assumes A: "buf_contract A IA VA" and B: "buf_contract B IB VB"
    and t: "chain_invar IA VA IB VB (take_inner t)"
  shows "take_remaining (chain_buf A B) t = length (take_view (chain_view VA VB) t)
     \<and> (if n \<le> length (take_view (chain_view VA VB) t)
        then \<exists>t'. take_advance (chain_buf A B) t n = Ok t'
              \<and> chain_invar IA VA IB VB (take_inner t')
              \<and> take_view (chain_view VA VB) t' = drop n (take_view (chain_view VA VB) t)
        else \<not> is_ok (take_advance (chain_buf A B) t n))"
proof -
  have "buf_contract (chain_buf A B) (chain_invar IA VA IB VB) (chain_view VA VB)"
    by (rule chain_contract.chain_meets [OF chain_contract.intro [OF A B]])
  then have R: "buf_required_contract (take_required (chain_buf A B))
      (take_invar (chain_invar IA VA IB VB)) (take_view (chain_view VA VB))"
    by (intro take_contract.take_meets take_contract.intro)
  show ?thesis
    using buf_required_contract.req_remaining_view [OF R, of t]
      buf_required_contract.req_advance_ok [OF R, of t n]
      buf_required_contract.req_advance_panics [OF R, of t n] t
    by (auto simp: take_required_def take_invar_def not_le)
qed

theorem take_chain_advance_witness:
  "\<exists>t'. take_advance (chain_buf slice_buf slice_buf) (take_new (chain_new [1, 2] [3, 4]) 3) 2 = Ok t'
      \<and> take_view (chain_view (\<lambda>s. s) (\<lambda>s. s)) t' = [3]"
  using take_chain_advance [OF slice_b.buf_contract_axioms slice_b.buf_contract_axioms,
      of "take_new (chain_new [1, 2] [3, 4]) 3" 2]
  by (auto simp: take_new_def chain_new_def take_view_def chain_invar_def chain_view_def usize_max_def)

lemma chain_chunks_default:
  assumes A: "buf_required_contract RA IA VA" and B: "buf_required_contract RB IB VB"
    and "IA (chain_a c)" "IB (chain_b c)"
  shows "chain_chunks_vectored (buf_defaults RA) (buf_defaults RB) c dst = Ok
    (if dst = [] \<or> VA (chain_a c) = [] then (dst, 0)
     else if VB (chain_b c) = [] then (dst[0 := req_chunk RA (chain_a c)], 1)
     else (dst[0 := req_chunk RB (chain_b c)], 2))"
proof (cases dst)
  case (Cons x xs)
  then show ?thesis
    using buf_required_contract.req_remaining_view [OF A assms(3)] buf_required_contract.req_remaining_view [OF B assms(4)]
    by (auto simp: chain_chunks_vectored_def chunks_vectored_default_def)
qed (simp add: chain_chunks_vectored_def chunks_vectored_default_def)

text \<open>
  C37. \<open>Chain::chunks_vectored\<close> of two buffers that have the provided method themselves, in every case. An
  empty first buffer hides the second: nothing is reported. With bytes in both, two entries are
  reported, but the slice of the second buffer has overwritten that of the first and no second
  entry is filled, even where there is none; a further chain around them then panics on a list of one
  entry.
\<close>

theorem chain_chunks_vectored_overwrites:
  assumes "buf_required_contract RA IA VA" "buf_required_contract RB IB VB" "IA (chain_a c)" "IB (chain_b c)"
  shows "chain_chunks_vectored (buf_defaults RA) (buf_defaults RB) c dst = Ok
      (if dst = [] \<or> VA (chain_a c) = [] then (dst, 0)
       else if VB (chain_b c) = [] then (dst[0 := req_chunk RA (chain_a c)], 1)
       else (dst[0 := req_chunk RB (chain_b c)], 2))
    \<and> (VA (chain_a c) \<noteq> [] \<and> VB (chain_b c) \<noteq> [] \<longrightarrow>
        chain_chunks_vectored (chain_buf (buf_defaults RA) (buf_defaults RB)) C (chain_new c s) [x] = Fault PanicIndex)"
proof -
  have "chunks_vectored (chain_buf (buf_defaults RA) (buf_defaults RB)) = chain_chunks_vectored (buf_defaults RA) (buf_defaults RB)"
    by (simp add: chain_buf_def)
  then show ?thesis
    using chain_chunks_default [OF assms]
    by (simp add: chain_chunks_vectored_def [of "chain_buf (buf_defaults RA) (buf_defaults RB)"] chain_new_def)
qed

theorem chain_chunks_vectored_overwrites_witness:
  "chain_chunks_vectored (buf_defaults slice_required) (buf_defaults slice_required) (chain_new [1, 2] [3]) [[], []] = Ok ([[3], []], 2)
   \<and> chain_chunks_vectored (chain_buf (buf_defaults slice_required) (buf_defaults slice_required)) slice_buf
       (chain_new (chain_new [1, 2] [3]) [4]) [[]] = Fault PanicIndex"
  using chain_chunks_vectored_overwrites [OF slice_req.buf_required_contract_axioms slice_req.buf_required_contract_axioms,
      of "chain_new [1, 2] [3]" "[[], []]" slice_buf "[4]" "[]"]
  by (simp add: chain_new_def) (simp add: slice_required_def)

section \<open>Writing\<close>

lemma vec_put_loop:
  assumes S: "buf_contract S IS VS" and "IS src" "vec_invar v" "length (VS src) \<le> vec_room v"
  shows "\<exists>src' v'. loop (\<lambda>(src, self). has_remaining S src)
         (\<lambda>(src, self).
            let s = chunk S src; l = length s in
            obind (vec_extend_from_slice self s) (\<lambda>self'.
            obind (advance S src l) (\<lambda>src'. Ok (src', self'))))
         (src, v) = Ok (src', v') \<and> IS src' \<and> VS src' = [] \<and> vec_invar v'
       \<and> vec_data v' = vec_data v @ VS src"
  using assms(2-)
proof (induction "length (VS src)" arbitrary: src v rule: less_induct)
  case less
  show ?case
  proof (cases "VS src = []")
    case True
    with less.prems show ?thesis
      by (auto simp: loop_done buf_contract.has_remaining_iff [OF S])
  next
    case False
    let ?c = "chunk S src"
    have pre: "prefix ?c (VS src)" and ne: "?c \<noteq> []"
      using buf_contract.chunk_prefix [OF S] buf_contract.chunk_nonempty [OF S] less.prems(1) False
      by auto
    have le: "length ?c \<le> length (VS src)" by (rule prefix_length_le [OF pre])
    have "length ?c \<le> vec_room v" using le less.prems(3) by simp
    from vec_extend_ok [OF less.prems(2) this] obtain v1 where
      v1: "vec_extend_from_slice v ?c = Ok v1" "vec_invar v1" "vec_data v1 = vec_data v @ ?c"
      "vec_room v1 = vec_room v - length ?c" by (rule appendsE)
    obtain src1 where src1: "advance S src (length ?c) = Ok src1" "IS src1"
      "VS src1 = drop (length ?c) (VS src)"
      using buf_contract.advance_ok [OF S less.prems(1) le] by blast
    have smaller: "length (VS src1) < length (VS src)" using src1(3) ne False by simp
    have "length (VS src1) \<le> vec_room v1" using src1(3) v1(4) less.prems(3) by simp
    from less.hyps [OF smaller src1(2) v1(2) this]
    have "\<exists>src' v'. loop (\<lambda>(src, self). has_remaining S src)
         (\<lambda>(src, self).
            let s = chunk S src; l = length s in
            obind (vec_extend_from_slice self s) (\<lambda>self'.
            obind (advance S src l) (\<lambda>src'. Ok (src', self'))))
         (src1, v1) = Ok (src', v') \<and> IS src' \<and> VS src' = [] \<and> vec_invar v'
       \<and> vec_data v' = vec_data v @ VS src"
      using v1(3) src1(3) pre by (auto simp: prefix_def)
    then show ?thesis
      using v1(1) src1(1) False less.prems(1)
      by (simp add: loop_step buf_contract.has_remaining_iff [OF S] Let_def)
  qed
qed

text \<open>
  C25. \<open>Vec::put\<close> appends all the bytes of any source to the vector, drains the source, and
  neither panics nor runs forever, as long as the vector stays below half of the address space.
\<close>

theorem vec_put_appends:
  assumes S: "buf_contract S IS VS" and "IS src" "vec_invar v" "length (VS src) \<le> vec_room v"
    "vec_len v \<le> isize_max div 2"
  shows "\<exists>src' v'. vec_put S v src = Ok (src', v') \<and> IS src' \<and> VS src' = [] \<and> vec_invar v'
           \<and> vec_data v' = vec_data v @ VS src"
proof -
  have rem: "remaining S src = length (VS src)" by (rule buf_contract.remaining_view [OF S assms(2)])
  have b: "vec_len v + length (VS src) \<le> isize_max div 2" using assms(4,5) by (simp add: vec_room_def)
  obtain sp where sp: "vec_reserve v (length (VS src)) = Ok (v\<lparr>vec_spare := vec_spare v @ sp\<rparr>)"
    "vec_invar (v\<lparr>vec_spare := vec_spare v @ sp\<rparr>)"
    by (rule vec_reserve_ok [OF assms(3), of "length (VS src)"]) (use b assms(5) in auto)
  have "length (VS src) \<le> vec_room (v\<lparr>vec_spare := vec_spare v @ sp\<rparr>)"
    using assms(4) by (simp add: vec_room_def vec_len_def)
  from vec_put_loop [OF S assms(2) sp(2) this] show ?thesis
    by (simp add: vec_put_def rem sp(1))
qed

theorem vec_put_appends_witness:
  "\<exists>src' v'. vec_put (chain_buf slice_buf slice_buf) \<lparr>vec_data = [7], vec_spare = []\<rparr>
      (chain_new [1, 2] [3]) = Ok (src', v') \<and> vec_data v' = [7, 1, 2, 3]"
  using vec_put_appends [OF slice_chain.chained.buf_contract_axioms,
      of "chain_new [1, 2] [3]" "\<lparr>vec_data = [7], vec_spare = []\<rparr>"]
  by (auto simp: chain_new_def chain_invar_def chain_view_def usize_max_def isize_max_def
      vec_invar_def vec_room_def vec_capacity_def vec_len_def)

text \<open>
  C7. \<open>BufMut::put\<close>, as the trait provides it, copies every source into every destination with
  enough room, whatever the chunks of both are, drains the source and terminates.
\<close>

theorem put_default_copies:
  assumes "buf_contract S IS VS" "bufmut_required_contract R ID written room"
    and "IS src" "ID d" "length (VS src) \<le> room d"
  shows "\<exists>src' d'. put_default S R d src = Ok (src', d') \<and> IS src' \<and> VS src' = []
           \<and> ID d' \<and> written d' = written d @ VS src"
  by (rule transfer.put_default_ok [OF transfer.intro [OF assms(1,2)] assms(3-)])

theorem put_default_copies_witness:
  "\<exists>src' d'. put_default slice_buf (chain_mut_required slice_bufmut vec_bufmut)
       (chain_new \<lparr>sm_done = [], sm_rest = [0, 0]\<rparr> \<lparr>vec_data = [], vec_spare = []\<rparr>) [1, 2, 3]
     = Ok (src', d') \<and> chain_view sm_done vec_data d' = [1, 2, 3]"
  using put_default_copies [OF slice_b.buf_contract_axioms
      slice_vec_chain.chained.bufmut_required_contract_axioms TrueI,
      of "chain_new \<lparr>sm_done = [], sm_rest = [0, 0]\<rparr> \<lparr>vec_data = [], vec_spare = []\<rparr>" "[1, 2, 3]"]
  by (auto simp: chain_new_def chain_mut_invar_def chain_view_def chain_room_def vec_invar_def
      vec_room_def vec_capacity_def vec_len_def isize_max_def usize_max_def slice_bufmut_def
      vec_bufmut_def slice_mut_remaining_mut_def vec_remaining_mut_def)

text \<open>
  C36. A \<open>Limit\<close> never lets more than its limit through: a write of at most the limit and the
  room of the inner buffer appends to it, and one of more bytes than the limit panics before it
  writes, with the length and with what \<open>remaining_mut\<close> reports, which is at most the limit.
\<close>

theorem limit_bounds_writes:
  assumes "bufmut_contract M I W room" "I (lim_inner l)"
  shows "(length bs \<le> limit_room room l \<longrightarrow>
            (\<exists>l'. put_slice_default (limit_required M) l bs = Ok l' \<and> I (lim_inner l')
               \<and> W (lim_inner l') = W (lim_inner l) @ bs
               \<and> limit_room room l' = limit_room room l - length bs))
       \<and> (lim_limit l < length bs \<longrightarrow>
            (\<exists>k \<le> lim_limit l. put_slice_default (limit_required M) l bs = Fault (PanicAdvance (length bs) k)))"
proof -
  have L: "bufmut_required_contract (limit_required M) (\<lambda>l. I (lim_inner l)) (\<lambda>l. W (lim_inner l))
      (limit_room room)"
    by (rule limit_contract.limit_meets [OF limit_contract.intro [OF assms(1)]])
  have "mreq_remaining_mut (limit_required M) l \<le> lim_limit l" by (simp add: limit_required_def limit_remaining_mut_def)
  then show ?thesis
    using bufmut_required_contract.put_slice_default_ok [OF L, of l bs] assms(2)
    by (auto simp: appends_def put_slice_default_def)
qed

theorem limit_bounds_writes_witness:
  "(\<exists>l'. put_slice_default (limit_required vec_bufmut)
          (limit_new \<lparr>vec_data = [], vec_spare = []\<rparr> 2) [1, 2] = Ok l' \<and> vec_data (lim_inner l') = [1, 2])
   \<and> (\<exists>k \<le> 2. put_slice_default (limit_required vec_bufmut)
          (limit_new \<lparr>vec_data = [], vec_spare = []\<rparr> 2) [1, 2, 3] = Fault (PanicAdvance 3 k))"
  using limit_bounds_writes [OF vec_b.bufmut_contract_axioms,
      of "limit_new \<lparr>vec_data = [], vec_spare = []\<rparr> 2" "[1, 2]"]
    limit_bounds_writes [OF vec_b.bufmut_contract_axioms,
      of "limit_new \<lparr>vec_data = [], vec_spare = []\<rparr> 2" "[1, 2, 3]"]
  by (auto simp: limit_new_def limit_room_def vec_invar_def vec_room_def vec_capacity_def
      vec_len_def isize_max_def)

lemma take_le_digits: "n \<le> k \<Longrightarrow> take n (le_digits k v) = le_digits n v"
proof (induction n arbitrary: k v)
  case (Suc n)
  then show ?case by (cases k) simp_all
qed simp

lemma roundtrip_uint:
  assumes M: "bufmut_contract M I W room" and B: "buf_contract B J V"
    and n: "n \<le> 8" "unat v < 256 ^ n"
  shows "roundtrips I W room J V (\<lambda>d v. put_uint M d v n) (get_uint B n) n v"
    and "roundtrips I W room J V (\<lambda>d v. put_uint_le M d v n) (get_uint_le B n) n v"
proof -
  define bs where "bs = le_digits n (unat v)"
  have len: "length bs = n" by (simp add: bs_def)
  have val: "of_nat (le_value bs) = v" using n(2) by (simp add: bs_def le_value_le_digits)
  have enc: "drop (8 - n) (to_be_bytes 8 v) = rev bs" "take n (to_le_bytes 8 v) = bs"
    using n(1) take_le_digits [OF n(1), of "unat v"]
    by (simp_all add: to_be_bytes_def to_le_bytes_def bs_def drop_rev)
  have wr: "\<exists>d'. put_slice M d xs = Ok d' \<and> I d' \<and> W d' = W d @ xs \<and> room d' = room d - n"
    if "I d" "n \<le> room d" "length xs = n" for d xs
    by (rule bufmut_contract.put_encoded [OF M that(1), of xs]) (use that in auto)
  have rd: "reads J V s n v (get_uint B n s)" if "J s" "V s = rev bs @ rest" for s rest
    using buf_contract.get_impl_be_ok [OF B that(1) n(1)] that(2) len val by (simp add: get_uint_def)
  have rl: "reads J V s n v (get_uint_le B n s)" if "J s" "V s = bs @ rest" for s rest
    using buf_contract.get_impl_le_ok [OF B that(1) n(1)] that(2) len val by (simp add: get_uint_le_def)
  show "roundtrips I W room J V (\<lambda>d v. put_uint M d v n) (get_uint B n) n v"
    unfolding roundtrips_def
  proof (intro allI impI)
    fix d
    assume d: "I d \<and> n \<le> room d"
    then show "\<exists>d' xs. put_uint M d v n = Ok d' \<and> I d' \<and> W d' = W d @ xs \<and> length xs = n
        \<and> room d' = room d - n \<and> (\<forall>s rest. J s \<and> V s = xs @ rest \<longrightarrow> reads J V s n v (get_uint B n s))"
      using wr [of d "rev bs"] rd n(1) len by (auto simp: put_uint_def checked_sub_def enc)
  qed
  show "roundtrips I W room J V (\<lambda>d v. put_uint_le M d v n) (get_uint_le B n) n v"
    unfolding roundtrips_def
  proof (intro allI impI)
    fix d
    assume d: "I d \<and> n \<le> room d"
    then show "\<exists>d' xs. put_uint_le M d v n = Ok d' \<and> I d' \<and> W d' = W d @ xs \<and> length xs = n
        \<and> room d' = room d - n \<and> (\<forall>s rest. J s \<and> V s = xs @ rest \<longrightarrow> reads J V s n v (get_uint_le B n s))"
      using wr [of d bs] rl n(1) len by (auto simp: put_uint_le_def get_prefix_def enc)
  qed
qed

text \<open>
  C33. The variable-width unsigned writes round trip through the reads for every number that
  fits the width, and writing more than 8 bytes panics. The panic names the two sizes in the
  other order than the panic of the reads does.
\<close>

theorem uint_roundtrip:
  assumes M: "bufmut_contract M I W room" and B: "buf_contract B J V"
  shows "(n \<le> 8 \<and> unat v < 256 ^ n \<longrightarrow>
            roundtrips I W room J V (\<lambda>d v. put_uint M d v n) (get_uint B n) n v
          \<and> roundtrips I W room J V (\<lambda>d v. put_uint_le M d v n) (get_uint_le B n) n v)
       \<and> (8 < n \<longrightarrow> put_uint M d v n = Fault (PanicDoesNotFit n 8)
                  \<and> put_uint_le M d v n = Fault (PanicDoesNotFit n 8)
                  \<and> get_uint B n s = Fault (PanicDoesNotFit 8 n))"
  using roundtrip_uint [OF M B, of n v] buf_contract.get_uint_too_wide(1) [OF B, of n s]
  by (auto simp: put_uint_def put_uint_le_def checked_sub_def get_prefix_def)

theorem uint_roundtrip_witness:
  "roundtrips vec_invar vec_data vec_room (\<lambda>_. True) (\<lambda>s. s)
     (\<lambda>d v. put_uint vec_bufmut d v 3) (get_uint slice_buf 3) 3 0x010203"
  using uint_roundtrip [OF vec_b.bufmut_contract_axioms slice_b.buf_contract_axioms, of 3 "0x010203"]
  by simp

text \<open>
  The \<open>io::Write\<close> adapter over a buffer whose room is what it reports takes as much of the
  input as fits, reports that number and never fails.
\<close>

lemma writer_write_total:
  assumes "bufmut_contract M invar written room" "invar s" "room s = remaining_mut M s"
  shows "\<exists>s'. writer_write M s buf = Ok (min (room s) (length buf), s') \<and> invar s'
           \<and> written s' = written s @ take (room s) buf"
  by (rule bufmut_contract.writer_write_ok [OF assms])

end
