(* ===== verification/Date_Time.thy ===== *)
theory Date_Time
  imports Prelude
begin

text \<open>
  The \<open>date\<close> crate: \<open>DateTime\<close> with its conversions from and to \<open>SystemTime\<close>, its parser and
  its printer (\<open>date/src/date_time.rs\<close>), the two functions of \<open>date_time_error.rs\<close>, and the
  cached \<open>Date\<close> of \<open>lib.rs\<close>.

  The fields are natural numbers; a cast \<open>as u8\<close> or \<open>as u16\<close> writes its truncation out, and
  arithmetic on \<open>u16\<close> and \<open>u64\<close> that can leave its type goes through \<open>checked\<close>, which panics in
  a build with overflow checks (\<open>dbg\<close>) and wraps in one without. \<open>i64\<close> arithmetic stays far
  inside its range and is \<open>int\<close>, with Rust's truncating \<open>/\<close> and \<open>%\<close>.
\<close>

section \<open>Overflow-checked arithmetic\<close>

definition checked :: "nat \<Rightarrow> bool \<Rightarrow> int \<Rightarrow> nat outcome" where
  "checked w dbg r =
     (if 0 \<le> r \<and> r < 2 ^ w then Ok (nat r)
      else if dbg then Fault PanicOverflow
      else Ok (nat (r mod 2 ^ w)))"

lemma checked_ok [simp]: "0 \<le> r \<Longrightarrow> r < 2 ^ w \<Longrightarrow> checked w dbg r = Ok (nat r)"
  by (simp add: checked_def)

section \<open>DateTime\<close>

record date_time =
  sec_c :: nat
  min_c :: nat
  hr_c :: nat
  day_c :: nat
  mon_c :: nat
  year_c :: nat
  wday_c :: nat

text \<open>A \<open>SystemTime\<close>: seconds and nanoseconds since the epoch, negative before it.\<close>

record system_time =
  st_secs :: int
  st_nanos :: nat

definition is_leap_year :: "nat \<Rightarrow> bool" where
  "is_leap_year y = (y mod 4 = 0 \<and> (y mod 100 \<noteq> 0 \<or> y mod 400 = 0))"

text \<open>
  The cycles of the Gregorian calendar from 2000-03-01: \<open>days\<close> is split into 400-year,
  100-year, 4-year and single years and the days left over.
\<close>

definition split_cycles :: "int \<Rightarrow> int \<times> int \<times> int \<times> int \<times> int" where
  "split_cycles days =
     (let qc0 = tdiv days 146097;
          rem0 = tmod days 146097;
          (qc_cycles, rem1) = (if rem0 < 0 then (qc0 - 1, rem0 + 146097) else (qc0, rem0));
          c0 = tdiv rem1 36524;
          c_cycles = (if c0 = 4 then c0 - 1 else c0);
          rem2 = rem1 - c_cycles * 36524;
          q0 = tdiv rem2 1461;
          q_cyles = (if q0 = 25 then q0 - 1 else q0);
          rem3 = rem2 - q_cyles * 1461;
          y0 = tdiv rem3 365;
          rem_years = (if y0 = 4 then y0 - 1 else y0);
          rem4 = rem3 - rem_years * 365
      in (qc_cycles, c_cycles, q_cyles, rem_years, rem4))"

definition months :: "int list" where
  "months = [31, 30, 31, 30, 31, 31, 30, 31, 30, 31, 31, 29]"

primrec month_loop :: "int list \<Rightarrow> int \<Rightarrow> int \<Rightarrow> int \<times> int" where
  "month_loop [] mon rem_days = (mon, rem_days)"
| "month_loop (mon_len # rest) mon rem_days =
     (let mon = mon + 1
      in if rem_days < mon_len then (mon, rem_days) else month_loop rest mon (rem_days - mon_len))"

text \<open>
  \<open>From<SystemTime> for DateTime\<close>. In the sum of the year, \<open>&\<close> binds weaker than \<open>+\<close>: the year
  is the bitwise conjunction of everything before it with the number of 400-year cycles.
\<close>

definition datetime_from :: "system_time \<Rightarrow> date_time outcome" where
  "datetime_from sys_t =
     (if st_secs sys_t < 0 then Fault PanicExpect
      else if st_secs sys_t \<ge> 253402300800 then Fault PanicExplicit
      else
        let sec_since_epoch = st_secs sys_t;
            days = sec_since_epoch div 86400 - 11017;
            sec_in_day = sec_since_epoch mod 86400;
            (qc_cycles, c_cycles, q_cyles, rem_years, rem_days) = split_cycles days;
            year = (2000 + rem_years + 4 * q_cyles + 100 * c_cycles + 400) AND qc_cycles;
            (mon, rem_days) = month_loop months 0 rem_days;
            m_day = rem_days + 1;
            (year, mon) = (if mon + 2 > 12 then (year + 1, mon - 10) else (year, mon + 2));
            w0 = tmod (3 + days) 7;
            w_day = (if w0 \<le> 0 then w0 + 7 else w0)
        in Ok \<lparr>sec_c = nat (sec_in_day mod 60 mod 256),
               min_c = nat (sec_in_day mod 3600 div 60 mod 256),
               hr_c = nat (sec_in_day div 3600 mod 256),
               day_c = nat (m_day mod 256),
               mon_c = nat (mon mod 256),
               year_c = nat (year mod 65536),
               wday_c = nat (w_day mod 256)\<rparr>)"

text \<open>\<open>From<DateTime> for SystemTime\<close>.\<close>

definition leap_years :: "bool \<Rightarrow> nat \<Rightarrow> nat outcome" where
  "leap_years dbg y =
     obind (checked 16 dbg (int y - 1)) (\<lambda>y1.
     obind (checked 16 dbg (int y1 - 1968)) (\<lambda>a.
     obind (checked 16 dbg (int y1 - 1900)) (\<lambda>b.
     obind (checked 16 dbg (int (a div 4) - int (b div 100))) (\<lambda>d.
     obind (checked 16 dbg (int y1 - 1600)) (\<lambda>c.
       checked 16 dbg (int d + int (c div 400)))))))"

definition days_before_month :: "nat \<Rightarrow> int outcome" where
  "days_before_month mon =
     (if mon = 1 then Ok 0 else if mon = 2 then Ok 31 else if mon = 3 then Ok 59
      else if mon = 4 then Ok 90 else if mon = 5 then Ok 120 else if mon = 6 then Ok 151
      else if mon = 7 then Ok 181 else if mon = 8 then Ok 212 else if mon = 9 then Ok 243
      else if mon = 10 then Ok 273 else if mon = 11 then Ok 304 else if mon = 12 then Ok 334
      else Fault PanicUnreachable)"

definition duration_secs :: "bool \<Rightarrow> date_time \<Rightarrow> int \<Rightarrow> nat outcome" where
  "duration_secs dbg cdt days =
     obind (checked 64 dbg (int (min_c cdt) * 60)) (\<lambda>m.
     obind (checked 64 dbg (int (sec_c cdt) + int m)) (\<lambda>sm.
     obind (checked 64 dbg (int (hr_c cdt) * 3600)) (\<lambda>h.
     obind (checked 64 dbg (int sm + int h)) (\<lambda>smh.
     obind (checked 64 dbg (days mod 2 ^ 64 * 86400)) (\<lambda>d.
       checked 64 dbg (int smh + int d))))))"

definition systime_from :: "bool \<Rightarrow> date_time \<Rightarrow> system_time outcome" where
  "systime_from dbg cdt =
     obind (leap_years dbg (year_c cdt)) (\<lambda>leap_years.
     obind (days_before_month (mon_c cdt)) (\<lambda>before.
       let y_days = before + int (day_c cdt) - 1;
           y_days = (if is_leap_year (year_c cdt) \<and> mon_c cdt > 2 then y_days + 1 else y_days);
           days = (int (year_c cdt) - 1970) * 365 + int leap_years + y_days
       in obind (duration_secs dbg cdt days) (\<lambda>secs.
            if int secs < 2 ^ 63 then Ok \<lparr>st_secs = int secs, st_nanos = 0\<rparr>
            else Fault PanicExpect)))"

definition is_valid :: "bool \<Rightarrow> date_time \<Rightarrow> bool outcome" where
  "is_valid dbg self =
     (if sec_c self < 60 \<and> min_c self < 60 \<and> hr_c self < 24 \<and> day_c self > 0
         \<and> day_c self < 32 \<and> mon_c self > 0 \<and> mon_c self \<le> 12 \<and> year_c self \<ge> 1970
         \<and> year_c self \<le> 9999
      then obind (systime_from dbg self) (\<lambda>t.
           obind (datetime_from t) (\<lambda>dt. Ok (dt = self)))
      else Ok False)"

text \<open>\<open>Ord\<close>: date times compare as the instants they stand for.\<close>

definition cmp_int :: "int \<Rightarrow> int \<Rightarrow> ordering" where
  "cmp_int a b = (if a < b then Less else if a = b then Equal else Greater)"

definition datetime_cmp :: "bool \<Rightarrow> date_time \<Rightarrow> date_time \<Rightarrow> ordering outcome" where
  "datetime_cmp dbg self other =
     obind (systime_from dbg self) (\<lambda>s.
     obind (systime_from dbg other) (\<lambda>t.
       Ok (cmp_int (st_secs s) (st_secs t))))"

section \<open>Parsing\<close>

text \<open>
  A parser returns \<open>None\<close> for \<open>Err(DateTimeError(()))\<close>; \<open>qmark\<close> is the operator \<open>?\<close>. Byte strings are
  written as text.
\<close>

definition ascii :: "string \<Rightarrow> u8 list" where
  "ascii s = map (\<lambda>c. of_nat (of_char c)) s"

definition qmark :: "'a option outcome \<Rightarrow> ('a \<Rightarrow> 'b option outcome) \<Rightarrow> 'b option outcome" where
  "qmark r f = obind r (\<lambda>x. case x of None \<Rightarrow> Ok None | Some v \<Rightarrow> f v)"

definition to_int_1 :: "u8 \<Rightarrow> nat option outcome" where
  "to_int_1 x = (let result = x - 48 in Ok (if result < 10 then Some (unat result) else None))"

definition to_int_2 :: "u8 list \<Rightarrow> nat option outcome" where
  "to_int_2 s =
     obind (index s 0) (\<lambda>s0. obind (index s 1) (\<lambda>s1.
       let high = s0 - 48; low = s1 - 48
       in Ok (if high < 10 \<and> low < 10 then Some (unat (high * 10 + low)) else None)))"

definition to_int_4 :: "u8 list \<Rightarrow> nat option outcome" where
  "to_int_4 s =
     obind (index s 0) (\<lambda>s0. obind (index s 1) (\<lambda>s1. obind (index s 2) (\<lambda>s2.
     obind (index s 3) (\<lambda>s3.
       let a = unat (s0 - 48); b = unat (s1 - 48); c = unat (s2 - 48); d = unat (s3 - 48)
       in Ok (if a < 10 \<and> b < 10 \<and> c < 10 \<and> d < 10
              then Some (a * 1000 + b * 100 + c * 10 + d) else None)))))"

text \<open>A \<open>match\<close> on byte strings: the position of the string in the list of arms, from 1.\<close>

primrec match_arm :: "string list \<Rightarrow> nat \<Rightarrow> u8 list \<Rightarrow> nat option" where
  "match_arm [] n s = None"
| "match_arm (arm # arms) n s = (if s = ascii arm then Some n else match_arm arms (n + 1) s)"

definition month_names :: "string list" where
  "month_names = [''Jan'', ''Feb'', ''Mar'', ''Apr'', ''May'', ''Jun'',
                  ''Jul'', ''Aug'', ''Sep'', ''Oct'', ''Nov'', ''Dec'']"

definition day_names :: "string list" where
  "day_names = [''Mon'', ''Tue'', ''Wed'', ''Thu'', ''Fri'', ''Sat'', ''Sun'']"

definition parse_imf_fixdate :: "u8 list \<Rightarrow> date_time option outcome" where
  "parse_imf_fixdate s =
     (if length s \<noteq> 29 then Ok None
      else obind (slice s 25 (length s)) (\<lambda>tail.
           obind (index s 16) (\<lambda>b16. obind (index s 19) (\<lambda>b19. obind (index s 22) (\<lambda>b22.
           if tail \<noteq> ascii ''GMT'' \<or> b16 \<noteq> 32 \<or> b19 \<noteq> 58 \<or> b22 \<noteq> 58 then Ok None
           else
             qmark (obind (slice s 23 25) to_int_2) (\<lambda>sec.
             qmark (obind (slice s 20 22) to_int_2) (\<lambda>mn.
             qmark (obind (slice s 17 19) to_int_2) (\<lambda>hr.
             qmark (obind (slice s 5 7) to_int_2) (\<lambda>day.
             qmark (omap (match_arm (map (\<lambda>m. '' '' @ m @ '' '') month_names) 1) (slice s 7 12)) (\<lambda>mon.
             qmark (obind (slice s 12 16) to_int_4) (\<lambda>year.
             qmark (omap (match_arm (map (\<lambda>d. d @ '', '') day_names) 1) (slice s 0 5)) (\<lambda>wday.
               Ok (Some \<lparr>sec_c = sec, min_c = mn, hr_c = hr, day_c = day, mon_c = mon,
                         year_c = year, wday_c = wday\<rparr>)))))))))))))"

text \<open>The day name of the RFC 850 form: the first name that is a prefix, with the rest.\<close>

definition long_day_names :: "string list" where
  "long_day_names = [''Monday, '', ''Tuesday, '', ''Wednesday, '', ''Thursday, '', ''Friday, '',
                     ''Saturday, '', ''Sunday, '']"

definition wday :: "u8 list \<Rightarrow> nat \<Rightarrow> string \<Rightarrow> (nat \<times> u8 list) option outcome" where
  "wday s n name =
     obind (slice s 0 (length name)) (\<lambda>start.
       if start = ascii name then Ok (Some (n, drop (length name) s)) else Ok None)"

primrec wday_arms :: "string list \<Rightarrow> nat \<Rightarrow> u8 list \<Rightarrow> (nat \<times> u8 list) option outcome" where
  "wday_arms [] n s = Ok None"
| "wday_arms (name # names) n s =
     obind (wday s n name) (\<lambda>r. case r of Some x \<Rightarrow> Ok (Some x) | None \<Rightarrow> wday_arms names (n + 1) s)"

definition parse_rfc850_date :: "u8 list \<Rightarrow> date_time option outcome" where
  "parse_rfc850_date s =
     (if length s < 23 then Ok None
      else qmark (wday_arms long_day_names 1 s) (\<lambda>(wday, s).
           if length s \<noteq> 22 then Ok None
           else obind (index s 12) (\<lambda>b12. obind (index s 15) (\<lambda>b15.
                obind (slice s 18 22) (\<lambda>tail.
                if b12 \<noteq> 58 \<or> b15 \<noteq> 58 \<or> tail \<noteq> ascii ''GMT'' then Ok None
                else
                  qmark (obind (slice s 7 9) to_int_2) (\<lambda>yy.
                  let year = (if yy < 70 then yy + 2000 else yy + 1900) in
                  qmark (obind (slice s 16 18) to_int_2) (\<lambda>sec.
                  qmark (obind (slice s 13 15) to_int_2) (\<lambda>mn.
                  qmark (obind (slice s 10 12) to_int_2) (\<lambda>hr.
                  qmark (obind (slice s 0 2) to_int_2) (\<lambda>day.
                  qmark (omap (match_arm (map (\<lambda>m. ''-'' @ m @ ''-'') month_names) 1) (slice s 2 7)) (\<lambda>mon.
                    Ok (Some \<lparr>sec_c = sec, min_c = mn, hr_c = hr, day_c = day, mon_c = mon,
                              year_c = year, wday_c = wday\<rparr>))))))))))))"

definition asctime_day :: "u8 list \<Rightarrow> nat option outcome" where
  "asctime_day x =
     obind (index x 0) (\<lambda>x0.
       if x0 = 32 then obind (index x 1) to_int_1 else to_int_2 x)"

definition parse_asctime :: "u8 list \<Rightarrow> date_time option outcome" where
  "parse_asctime s =
     (if length s \<noteq> 24 then Ok None
      else obind (index s 10) (\<lambda>b10. obind (index s 13) (\<lambda>b13. obind (index s 16) (\<lambda>b16.
           obind (index s 19) (\<lambda>b19.
           if b10 \<noteq> 32 \<or> b13 \<noteq> 58 \<or> b16 \<noteq> 58 \<or> b19 \<noteq> 32 then Ok None
           else
             qmark (obind (slice s 17 19) to_int_2) (\<lambda>sec.
             qmark (obind (slice s 14 16) to_int_2) (\<lambda>mn.
             qmark (obind (slice s 11 13) to_int_2) (\<lambda>hr.
             qmark (obind (slice s 8 10) asctime_day) (\<lambda>day.
             qmark (omap (match_arm (map (\<lambda>m. m @ '' '') month_names) 1) (slice s 4 8)) (\<lambda>mon.
             qmark (obind (slice s 20 24) to_int_4) (\<lambda>year.
             qmark (omap (match_arm (map (\<lambda>d. d @ '' '') day_names) 1) (slice s 0 4)) (\<lambda>wday.
               Ok (Some \<lparr>sec_c = sec, min_c = mn, hr_c = hr, day_c = day, mon_c = mon,
                         year_c = year, wday_c = wday\<rparr>)))))))))))))"

text \<open>\<open>or_else\<close> of a result that may be an error.\<close>

definition or_else :: "'a option outcome \<Rightarrow> (unit \<Rightarrow> 'a option outcome) \<Rightarrow> 'a option outcome" where
  "or_else r f = obind r (\<lambda>x. case x of Some v \<Rightarrow> Ok (Some v) | None \<Rightarrow> f ())"

definition is_ascii :: "u8 list \<Rightarrow> bool" where
  "is_ascii s = list_all (\<lambda>b. b < 128) s"

definition is_whitespace :: "u8 \<Rightarrow> bool" where
  "is_whitespace b = (b = 32 \<or> 9 \<le> b \<and> b \<le> 13)"

definition trim :: "u8 list \<Rightarrow> u8 list" where
  "trim s = rev (dropWhile is_whitespace (rev (dropWhile is_whitespace s)))"

definition from_str :: "bool \<Rightarrow> u8 list \<Rightarrow> date_time option outcome" where
  "from_str dbg s =
     (if \<not> is_ascii s then Ok None
      else let x = trim s in
           qmark (or_else (or_else (parse_imf_fixdate x) (\<lambda>_. parse_rfc850_date x))
                  (\<lambda>_. parse_asctime x)) (\<lambda>date.
           obind (is_valid dbg date) (\<lambda>v. if \<not> v then Ok None else Ok (Some date))))"

section \<open>Printing\<close>

text \<open>
  \<open>Display for DateTime\<close>: the 29 bytes handed to \<open>f.write_str\<close>. With \<open>u8\<close> fields and a
  \<open>u16\<close> year every byte is below 128, so \<open>from_utf8(..).unwrap()\<close> never meets a byte that only
  a longer UTF-8 sequence could justify.
\<close>

definition datetime_fmt :: "date_time \<Rightarrow> u8 list outcome" where
  "datetime_fmt self =
     (if \<not> (1 \<le> wday_c self \<and> wday_c self \<le> 7) then Fault PanicUnreachable
      else if \<not> (1 \<le> mon_c self \<and> mon_c self \<le> 12) then Fault PanicUnreachable
      else
        let w_day = ascii (day_names ! (wday_c self - 1));
            mon = ascii (month_names ! (mon_c self - 1));
            digit = (\<lambda>n. of_nat (48 + n) :: u8);
            buf = ascii ''   , 00     0000 00:00:00 GMT'';
            buf = buf[0 := w_day ! 0, 1 := w_day ! 1, 2 := w_day ! 2,
                      5 := digit (day_c self div 10), 6 := digit (day_c self mod 10),
                      8 := mon ! 0, 9 := mon ! 1, 10 := mon ! 2,
                      12 := digit (year_c self div 1000), 13 := digit (year_c self div 100 mod 10),
                      14 := digit (year_c self div 10 mod 10), 15 := digit (year_c self mod 10),
                      17 := digit (hr_c self div 10), 18 := digit (hr_c self mod 10),
                      20 := digit (min_c self div 10), 21 := digit (min_c self mod 10),
                      23 := digit (sec_c self div 10), 24 := digit (sec_c self mod 10)]
        in if is_ascii buf then Ok buf else Fault PanicUnwrap)"

section \<open>The error module and the cached date\<close>

definition parse_httph_date :: "bool \<Rightarrow> u8 list \<Rightarrow> system_time option outcome" where
  "parse_httph_date dbg httph_date =
     qmark (from_str dbg httph_date) (\<lambda>d. omap Some (systime_from dbg d))"

definition fmt_httph_date :: "system_time \<Rightarrow> u8 list outcome" where
  "fmt_httph_date sys_t = obind (datetime_from sys_t) datetime_fmt"

definition DATE_VALUE_LENGTH :: nat where
  "DATE_VALUE_LENGTH = 29"

record date =
  date_bytes :: "u8 list"

definition date_now :: date where
  "date_now = \<lparr>date_bytes = replicate DATE_VALUE_LENGTH 0\<rparr>"

definition date_as_bytes :: "date \<Rightarrow> u8 list" where
  "date_as_bytes self = date_bytes self"

text \<open>\<open>write_str\<close> copies into the array, which panics unless the lengths agree.\<close>

definition date_write_str :: "date \<Rightarrow> u8 list \<Rightarrow> date outcome" where
  "date_write_str self s =
     (if length (date_bytes self) = length s then Ok (self\<lparr>date_bytes := s\<rparr>) else Fault PanicIndex)"

definition date_update :: "system_time \<Rightarrow> date \<Rightarrow> date outcome" where
  "date_update now self =
     obind (datetime_from now) (\<lambda>date_time.
     obind (datetime_fmt date_time) (\<lambda>s. date_write_str self s))"

end
