(* ===== verification/Calendar.thy ===== *)
theory Calendar
  imports Date_Time
begin

text \<open>
  The Gregorian calendar as a specification, by counting one day at a time from 1970-01-01, and
  the proof that the arithmetic of \<open>date_time.rs\<close> computes it, except for the year.
\<close>

section \<open>The calendar\<close>

type_synonym civil = "int \<times> int \<times> int"

definition leap :: "int \<Rightarrow> bool" where
  "leap y = (4 dvd y \<and> (\<not> 100 dvd y \<or> 400 dvd y))"

definition month_length :: "int \<Rightarrow> int \<Rightarrow> int" where
  "month_length y m =
     (if m = 2 then (if leap y then 29 else 28)
      else if m = 4 \<or> m = 6 \<or> m = 9 \<or> m = 11 then 30 else 31)"

fun next_day :: "civil \<Rightarrow> civil" where
  "next_day (y, m, d) =
     (if d < month_length y m then (y, m, d + 1)
      else if m < 12 then (y, m + 1, 1)
      else (y + 1, 1, 1))"

definition civil_date :: "nat \<Rightarrow> civil" where
  "civil_date n = (next_day ^^ n) (1970, 1, 1)"

fun proper :: "civil \<Rightarrow> bool" where
  "proper (y, m, d) = (1970 \<le> y \<and> 1 \<le> m \<and> m \<le> 12 \<and> 1 \<le> d \<and> d \<le> month_length y m)"

section \<open>The day number\<close>

definition leaps :: "int \<Rightarrow> int" where
  "leaps y = (y - 1969) div 4 - (y - 1901) div 100 + (y - 1601) div 400"

definition before_month :: "int \<Rightarrow> int" where
  "before_month m =
     (if m = 1 then 0 else if m = 2 then 31 else if m = 3 then 59 else if m = 4 then 90
      else if m = 5 then 120 else if m = 6 then 151 else if m = 7 then 181 else if m = 8 then 212
      else if m = 9 then 243 else if m = 10 then 273 else if m = 11 then 304 else 334)"

fun day_number :: "civil \<Rightarrow> int" where
  "day_number (y, m, d) =
     (y - 1970) * 365 + leaps y + before_month m + d - 1 + (if leap y \<and> m > 2 then 1 else 0)"

lemma div_step:
  fixes k m :: int
  assumes "m > 0"
  shows "(k + 1) div m = k div m + (if m dvd k + 1 then 1 else 0)"
proof (cases "m dvd k + 1")
  case True
  then obtain q where "k + 1 = m * q" by (elim dvdE)
  then have k: "k = m * (q - 1) + (m - 1)" by (simp add: algebra_simps)
  have "k div m = q - 1"
    unfolding k using assms by (simp add: div_add1_eq div_pos_pos_trivial)
  then show ?thesis using True \<open>k + 1 = m * q\<close> assms by simp
next
  case False
  have "(k + 1) mod m \<noteq> 0" using False by (simp add: dvd_eq_mod_eq_0)
  then have r: "0 < (k + 1) mod m" "(k + 1) mod m < m"
    using assms pos_mod_sign [of m "k + 1"] pos_mod_bound [of m "k + 1"] by linarith+
  have "k = m * ((k + 1) div m) + ((k + 1) mod m - 1)"
    using mult_div_mod_eq [of m "k + 1"] by linarith
  then have "k div m = (k + 1) div m"
    using r by (intro int_div_pos_eq [of k m _ "(k + 1) mod m - 1"]) simp_all
  then show ?thesis using False by simp
qed

lemma dvd_shift:
  fixes m k y :: int
  assumes "m dvd k"
  shows "m dvd y - k \<longleftrightarrow> m dvd y"
  using assms dvd_add [of m "y - k" k] dvd_diff [of m y k] by auto

lemma div_step_at:
  fixes m k y :: int
  assumes "m > 0" "m dvd k"
  shows "(y - k) div m = (y - (k + 1)) div m + (if m dvd y then 1 else 0)"
proof -
  have "y - k = (y - (k + 1)) + 1" by simp
  then show ?thesis
    using div_step [OF assms(1), of "y - (k + 1)"] dvd_shift [OF assms(2), of y] by metis
qed

lemma indicator_sum:
  fixes a b c :: int
  assumes "R \<longrightarrow> Q" "Q \<longrightarrow> P"
  shows "(a + (if P then 1 else 0)) - (b + (if Q then 1 else 0)) + (c + (if R then 1 else 0))
         = a - b + c + (if P \<and> (\<not> Q \<or> R) then 1 else 0)"
  using assms by (cases P; cases Q; cases R) simp_all

lemma leaps_step: "leaps (y + 1) = leaps y + (if leap y then 1 else 0)"
proof -
  have a: "(y - 1968) div 4 = (y - 1969) div 4 + (if 4 dvd y then 1 else 0)"
    by (rule div_step_at [of 4 1968 y, simplified])
  have b: "(y - 1900) div 100 = (y - 1901) div 100 + (if 100 dvd y then 1 else 0)"
    by (rule div_step_at [of 100 1900 y, simplified])
  have c: "(y - 1600) div 400 = (y - 1601) div 400 + (if 400 dvd y then 1 else 0)"
    by (rule div_step_at [of 400 1600 y, simplified])
  have "400 dvd y \<longrightarrow> 100 dvd y" "100 dvd y \<longrightarrow> 4 dvd y"
    using dvd_trans [of 100 400 y] dvd_trans [of 4 100 y] by simp_all
  note sum = indicator_sum [OF this, of "(y - 1969) div 4" "(y - 1901) div 100" "(y - 1601) div 400"]
  have shift: "y + 1 - 1969 = y - 1968" "y + 1 - 1901 = y - 1900" "y + 1 - 1601 = y - 1600"
    by simp_all
  show ?thesis
    unfolding leaps_def shift a b c sum leap_def ..
qed

lemma month_cases:
  fixes m :: int
  assumes "1 \<le> m" "m \<le> 12"
  shows "m = 1 \<or> m = 2 \<or> m = 3 \<or> m = 4 \<or> m = 5 \<or> m = 6 \<or> m = 7 \<or> m = 8 \<or> m = 9 \<or> m = 10
         \<or> m = 11 \<or> m = 12"
  using assms by arith

lemma next_day_proper: "proper c \<Longrightarrow> proper (next_day c)"
  by (cases c) (auto simp: month_length_def)

lemma before_month_step:
  assumes "1 \<le> m" "m < 12"
  shows "before_month (m + 1) + (if leap y \<and> m + 1 > 2 then 1 else 0)
         = before_month m + month_length y m + (if leap y \<and> m > 2 then 1 else 0)"
proof -
  have "m = 1 \<or> m = 2 \<or> m = 3 \<or> m = 4 \<or> m = 5 \<or> m = 6 \<or> m = 7 \<or> m = 8 \<or> m = 9 \<or> m = 10 \<or> m = 11"
    using month_cases [of m] assms by auto
  then show ?thesis
    by (elim disjE) (simp_all add: before_month_def month_length_def)
qed

lemma next_day_number:
  assumes "proper c"
  shows "day_number (next_day c) = day_number c + 1"
proof -
  obtain y m d where c: "c = (y, m, d)" by (cases c)
  consider "d < month_length y m" | "d = month_length y m" "m < 12" | "d = month_length y m" "m = 12"
    using assms c by fastforce
  then show ?thesis
  proof cases
    case 1
    then show ?thesis by (simp add: c)
  next
    case 2
    then show ?thesis using before_month_step [of m y] assms by (simp add: c)
  next
    case 3
    then show ?thesis
      using leaps_step [of y] by (simp add: c before_month_def month_length_def)
  qed
qed

lemma civil_date_ok: "proper (civil_date n) \<and> day_number (civil_date n) = int n"
proof (induction n)
  case 0
  then show ?case
    by (simp add: civil_date_def month_length_def before_month_def leaps_def)
next
  case (Suc n)
  then show ?case
    using next_day_proper [of "civil_date n"] next_day_number [of "civil_date n"]
    by (simp add: civil_date_def)
qed

text \<open>The day number identifies a date: every proper date is reached by counting.\<close>

fun previous_day :: "civil \<Rightarrow> civil" where
  "previous_day (y, m, d) =
     (if 1 < d then (y, m, d - 1)
      else if 1 < m then (y, m - 1, month_length y (m - 1))
      else (y - 1, 12, 31))"

lemma month_length_pos: "1 \<le> month_length y m"
  by (simp add: month_length_def)

lemma month_length_December: "month_length y 12 = 31"
  by (simp add: month_length_def)

lemma previous_day_ok:
  assumes "proper c" "c \<noteq> (1970, 1, 1)"
  shows "proper (previous_day c) \<and> next_day (previous_day c) = c"
proof -
  obtain y m d where c: "c = (y, m, d)" by (cases c)
  consider "1 < d" | "d = 1" "1 < m" | "d = 1" "m = 1" "1970 < y"
    using assms c by fastforce
  then show ?thesis
    by cases (use assms month_length_pos [of y "m - 1"] in
        \<open>simp_all add: c month_length_December\<close>)
qed

lemma leaps_nonneg: "1970 \<le> y \<Longrightarrow> 0 \<le> leaps y"
proof (induction y rule: int_ge_induct)
  case base
  then show ?case by (simp add: leaps_def)
next
  case (step y)
  then show ?case using leaps_step [of y] by simp
qed

lemma day_number_nonneg: "proper c \<Longrightarrow> 0 \<le> day_number c"
proof -
  assume p: "proper c"
  obtain y m d where c: "c = (y, m, d)" by (cases c)
  have "0 \<le> before_month m" by (simp add: before_month_def)
  then show ?thesis using p leaps_nonneg [of y] unfolding c by simp
qed

lemma counted: "proper c \<Longrightarrow> c = civil_date (nat (day_number c))"
proof (induction "nat (day_number c)" arbitrary: c)
  case 0
  show ?case
  proof (rule ccontr)
    assume no: "c \<noteq> civil_date (nat (day_number c))"
    have "c \<noteq> (1970, 1, 1)" using no 0 by (auto simp: civil_date_def)
    note prev = previous_day_ok [OF \<open>proper c\<close> this, THEN conjunct1]
      previous_day_ok [OF \<open>proper c\<close> this, THEN conjunct2]
    have "day_number c = day_number (previous_day c) + 1"
      using next_day_number [OF prev(1)] prev(2) by simp
    then show False using day_number_nonneg [OF prev(1)] 0 by simp
  qed
next
  case (Suc n)
  have "c \<noteq> (1970, 1, 1)"
    using Suc.hyps(2) by (auto simp: leaps_def before_month_def)
  note prev = previous_day_ok [OF \<open>proper c\<close> this, THEN conjunct1]
    previous_day_ok [OF \<open>proper c\<close> this, THEN conjunct2]
  have num: "day_number c = day_number (previous_day c) + 1"
    using next_day_number [OF prev(1)] prev(2) by simp
  have n: "n = nat (day_number (previous_day c))" using num Suc.hyps(2) by simp
  have "previous_day c = civil_date n" using Suc.hyps(1) [OF n prev(1)] n by simp
  then have "next_day (civil_date n) = c" using prev(2) by simp
  then show ?case using Suc.hyps(2) [symmetric] by (simp add: civil_date_def)
qed

section \<open>The cycles\<close>

lemma euclidean_of_truncated:
  assumes "0 < b"
  shows "(if tmod a b < 0 then (tdiv a b - 1, tmod a b + b) else (tdiv a b, tmod a b))
         = (a div b, a mod b)"
proof (cases "0 \<le> a")
  case True
  then show ?thesis using assms by (simp add: tdiv_nonneg tmod_nonneg not_less)
next
  case False
  define n where "n = - a"
  have a: "a = - n" "0 < n" using False by (simp_all add: n_def)
  have t: "tdiv a b = - (n div b)" "tmod a b = - (n mod b)"
    using assms a by (simp_all add: tmod_def tdiv_neg minus_mult_div_eq_mod [symmetric])
  have "0 \<le> n mod b" using assms by simp
  then show ?thesis
    using assms unfolding t unfolding a
    by (auto simp: zdiv_zminus1_eq_if zmod_zminus1_eq_if order_less_le)
qed

text \<open>A cycle count is clamped so that the long last period keeps its extra days.\<close>

lemma clamped_quotient:
  fixes x d n :: int
  assumes "0 \<le> x" "0 < d" "0 \<le> n" "x < d * (n + 2)"
    and c: "c = (if x div d = n + 1 then x div d - 1 else x div d)"
  shows "0 \<le> c \<and> c \<le> n \<and> 0 \<le> x - c * d \<and> (c < n \<longrightarrow> x - c * d < d)"
proof -
  have q: "0 \<le> x div d" using assms(1,2) by (simp add: pos_imp_zdiv_nonneg_iff)
  have x: "x = x div d * d + x mod d" by simp
  have m: "0 \<le> x mod d" "x mod d < d" using assms(2) by simp_all
  have "d * (x div d) \<le> x" using m mult_div_mod_eq [of d x] by linarith
  then have "d * (x div d) < d * (n + 2)" using assms(4) by (rule order_le_less_trans)
  then have "x div d < n + 2" using assms(2) by (simp only: mult_less_cancel_left_pos)
  then have le: "x div d \<le> n + 1" by simp
  show ?thesis
  proof (cases "x div d = n + 1")
    case True
    then have "c = n" "x = n * d + d + x mod d" using c x by (simp_all add: algebra_simps)
    then show ?thesis using assms m by simp
  next
    case False
    then have c': "c = x div d" using c by simp
    have "x - x div d * d = x mod d" by (rule minus_div_mult_eq_mod)
    then show ?thesis unfolding c' using q le False m by simp
  qed
qed

definition cycles_ok :: "int \<Rightarrow> int \<times> int \<times> int \<times> int \<times> int \<Rightarrow> bool" where
  "cycles_ok days p = (case p of (qc, c, q, r, rest) \<Rightarrow>
     qc = days div 146097
     \<and> days = 146097 * qc + 36524 * c + 1461 * q + 365 * r + rest
     \<and> 0 \<le> c \<and> c \<le> 3 \<and> 0 \<le> q \<and> q \<le> 24 \<and> 0 \<le> r \<and> r \<le> 3 \<and> 0 \<le> rest \<and> rest \<le> 365
     \<and> (rest = 365 \<longrightarrow> r = 3 \<and> (q = 24 \<longrightarrow> c = 3)))"

lemma split_cycles_ok: "cycles_ok days (split_cycles days)"
proof -
  define x where "x = days mod 146097"
  have x: "0 \<le> x" "x < 146097" "days = 146097 * (days div 146097) + x"
    by (simp_all add: x_def)
  define c where "c = (if x div 36524 = 4 then x div 36524 - 1 else x div 36524)"
  have c: "0 \<le> c \<and> c \<le> 3 \<and> 0 \<le> x - c * 36524 \<and> (c < 3 \<longrightarrow> x - c * 36524 < 36524)"
    by (rule clamped_quotient [of x 36524 3 c]) (use x in \<open>simp_all add: c_def\<close>)
  define y where "y = x - c * 36524"
  have y: "0 \<le> y" "y \<le> 36524" "c < 3 \<longrightarrow> y \<le> 36523" using c x by (auto simp: y_def)
  define q where "q = (if y div 1461 = 25 then y div 1461 - 1 else y div 1461)"
  have q: "0 \<le> q \<and> q \<le> 24 \<and> 0 \<le> y - q * 1461 \<and> (q < 24 \<longrightarrow> y - q * 1461 < 1461)"
    by (rule clamped_quotient [of y 1461 24 q]) (use y in \<open>simp_all add: q_def\<close>)
  define z where "z = y - q * 1461"
  have z: "0 \<le> z" "z \<le> 1460" "q = 24 \<and> c < 3 \<longrightarrow> z \<le> 1459" using q y by (auto simp: z_def)
  define r where "r = (if z div 365 = 4 then z div 365 - 1 else z div 365)"
  have r: "0 \<le> r \<and> r \<le> 3 \<and> 0 \<le> z - r * 365 \<and> (r < 3 \<longrightarrow> z - r * 365 < 365)"
    by (rule clamped_quotient [of z 365 3 r]) (use z in \<open>simp_all add: r_def\<close>)
  have "split_cycles days = (days div 146097, c, q, r, z - r * 365)"
    unfolding split_cycles_def Let_def
    by (simp only: euclidean_of_truncated x_def [symmetric] prod.case tdiv_nonneg x(1) y(1) z(1)
        c_def [symmetric] y_def [symmetric] q_def [symmetric] z_def [symmetric]
        r_def [symmetric] zero_less_numeral)
  then show ?thesis
    using x(3) c q r z unfolding cycles_ok_def by (auto simp: y_def z_def)
qed

lemma march_year_number:
  assumes "0 \<le> c" "c \<le> 3" "0 \<le> q" "q \<le> 24" "0 \<le> r" "r \<le> (3::int)"
    and Y: "Y = 2000 + 400 * qc + 100 * c + 4 * q + r"
  shows "(Y - 1970) * 365 + leaps (Y + 1) + 59
         = 146097 * qc + 36524 * c + 1461 * q + 365 * r + 11017"
proof -
  have "(Y + 1 - 1969) div 4 = 8 + 100 * qc + 25 * c + q"
    by (rule int_div_pos_eq [of _ _ _ r]) (use assms in simp_all)
  moreover have "(Y + 1 - 1901) div 100 = 1 + 4 * qc + c"
    by (rule int_div_pos_eq [of _ _ _ "4 * q + r"]) (use assms in simp_all)
  moreover have "(Y + 1 - 1601) div 400 = 1 + qc"
    by (rule int_div_pos_eq [of _ _ _ "100 * c + 4 * q + r"]) (use assms in simp_all)
  ultimately have "leaps (Y + 1) = 8 + 100 * qc + 25 * c + q - (1 + 4 * qc + c) + (1 + qc)"
    unfolding leaps_def by (simp only:)
  then show ?thesis using Y by simp
qed

text \<open>The month loop finds the month and the day of the month.\<close>

lemma month_loop_cases:
  assumes "0 \<le> rest" "rest \<le> 365" "month_loop months 0 rest = (mon, rd)"
  shows "mon = 1 \<and> rd = rest - 0 \<and> 0 \<le> rest \<and> rest < 31
         \<or> mon = 2 \<and> rd = rest - 31 \<and> 31 \<le> rest \<and> rest < 61
         \<or> mon = 3 \<and> rd = rest - 61 \<and> 61 \<le> rest \<and> rest < 92
         \<or> mon = 4 \<and> rd = rest - 92 \<and> 92 \<le> rest \<and> rest < 122
         \<or> mon = 5 \<and> rd = rest - 122 \<and> 122 \<le> rest \<and> rest < 153
         \<or> mon = 6 \<and> rd = rest - 153 \<and> 153 \<le> rest \<and> rest < 184
         \<or> mon = 7 \<and> rd = rest - 184 \<and> 184 \<le> rest \<and> rest < 214
         \<or> mon = 8 \<and> rd = rest - 214 \<and> 214 \<le> rest \<and> rest < 245
         \<or> mon = 9 \<and> rd = rest - 245 \<and> 245 \<le> rest \<and> rest < 275
         \<or> mon = 10 \<and> rd = rest - 275 \<and> 275 \<le> rest \<and> rest < 306
         \<or> mon = 11 \<and> rd = rest - 306 \<and> 306 \<le> rest \<and> rest < 337
         \<or> mon = 12 \<and> rd = rest - 337 \<and> 337 \<le> rest \<and> rest < 366"
  using assms by (auto simp: months_def Let_def split: if_splits)

text \<open>The date of the cycles, with the year that the cycles stand for.\<close>

fun date_of_cycles :: "int \<times> int \<times> int \<times> int \<times> int \<Rightarrow> civil" where
  "date_of_cycles (qc, c, q, r, rest) =
     (let (mon, rd) = month_loop months 0 rest;
          year = 2000 + 400 * qc + 100 * c + 4 * q + r
      in if mon + 2 > 12 then (year + 1, mon - 10, rd + 1) else (year, mon + 2, rd + 1))"

lemma leap_march_year:
  assumes "0 \<le> c" "c \<le> 3" "0 \<le> q" "q \<le> 24" "q = 24 \<longrightarrow> c = (3::int)"
    and Y: "Y = 2000 + 400 * qc + 100 * c + 4 * q + 3"
  shows "leap (Y + 1)"
proof (cases "q = 24")
  case True
  then have "Y + 1 = 400 * (6 + qc)" using assms by simp
  then have "4 dvd Y + 1" "400 dvd Y + 1" by (auto intro: dvdI [of _ _ "100 * (6 + qc)"])
  then show ?thesis by (simp add: leap_def)
next
  case False
  have "Y + 1 = 4 * (501 + 100 * qc + 25 * c + q)" using Y by simp
  then have "4 dvd Y + 1" by (rule dvdI)
  moreover have "(Y + 1) mod 100 = 4 * q + 4"
    by (rule int_mod_pos_eq [of _ _ "20 + 4 * qc + c"]) (use assms False Y in simp_all)
  then have "\<not> 100 dvd Y + 1" using assms by (simp add: dvd_eq_mod_eq_0)
  ultimately show ?thesis by (simp add: leap_def)
qed

lemma leaps_nonpos: "y \<le> 1970 \<Longrightarrow> leaps y \<le> 0"
proof (induction y rule: int_le_induct)
  case base
  then show ?case by (simp add: leaps_def)
next
  case (step y)
  then show ?case using leaps_step [of "y - 1"] by (simp split: if_splits)
qed

lemma date_of_cycles_ok:
  assumes "cycles_ok days p" "0 \<le> days + 11017"
  shows "date_of_cycles p = civil_date (nat (days + 11017))"
proof -
  obtain qc c q r rest where p: "p = (qc, c, q, r, rest)" by (cases p)
  obtain mon rd where ml: "month_loop months 0 rest = (mon, rd)" by fastforce
  have qc: "qc = days div 146097"
    and days: "days = 146097 * qc + 36524 * c + 1461 * q + 365 * r + rest"
    and range: "0 \<le> c" "c \<le> 3" "0 \<le> q" "q \<le> 24" "0 \<le> r" "r \<le> 3" "0 \<le> rest" "rest \<le> 365"
    and last: "rest = 365 \<longrightarrow> r = 3 \<and> (q = 24 \<longrightarrow> c = 3)"
    using assms(1) unfolding p cycles_ok_def prod.case by blast+
  define Y where "Y = 2000 + 400 * qc + 100 * c + 4 * q + r"
  have num: "(Y - 1970) * 365 + (leaps Y + (if leap Y then 1 else 0)) + 59 = days - rest + 11017"
    unfolding leaps_step [symmetric]
    using march_year_number [OF range(1-6) Y_def] days by linarith
  have lp: "rest = 365 \<longrightarrow> leap (Y + 1)"
    using leap_march_year [OF range(1-4), of Y qc] last Y_def by blast
  have date: "date_of_cycles p =
      (if mon > 10 then (Y + 1, mon - 10, rd + 1) else (Y, mon + 2, rd + 1))"
    by (simp add: p ml Y_def)
  note cs = month_loop_cases [OF range(7,8) ml]
  have "day_number (date_of_cycles p) = days + 11017"
    using cs num leaps_step [of Y] unfolding date
    by (elim disjE) (simp_all add: before_month_def)
  moreover have "1970 \<le> (if mon > 10 then Y + 1 else Y)"
  proof (rule ccontr)
    assume "\<not> ?thesis"
    then have "Y < 1969 \<or> Y = 1969 \<and> mon \<le> 10" by (auto split: if_splits)
    moreover have "mon \<le> 10 \<Longrightarrow> rest \<le> 305" using cs by auto
    moreover have "Y + 1 \<le> 1970 \<Longrightarrow> leaps (Y + 1) \<le> 0" by (rule leaps_nonpos)
    ultimately show False
      using num [folded leaps_step] assms(2) range by auto
  qed
  then have "proper (date_of_cycles p)"
    using cs lp unfolding date by (elim disjE) (auto simp: month_length_def)
  ultimately show ?thesis using counted by metis
qed

end
