(* ===== verification/Date_Cache.thy ===== *)
theory Date_Cache
  imports Date_Time
begin

text \<open>
  The cached date (\<open>CURRENT_DATE\<close> of \<open>date/src/lib.rs\<close>) and the thread that updates it, as a step
  relation. The time of each update is any time the clock may show. An update is one step: what a
  reader sees while it is written is not modelled. An update that panics ends the thread.
\<close>

datatype updater = Sleeping | Updating | Stopped

record date_cache =
  cached :: date
  updater :: updater

definition cache_new :: date_cache where
  "cache_new = \<lparr>cached = date_now, updater = Sleeping\<rparr>"

definition cache_wake :: "date_cache \<Rightarrow> date_cache" where
  "cache_wake c = c\<lparr>updater := Updating\<rparr>"

text \<open>One turn of the loop of the thread.\<close>

definition cache_update :: "system_time \<Rightarrow> date_cache \<Rightarrow> date_cache" where
  "cache_update now c =
     (case date_update now (cached c) of
        Ok d \<Rightarrow> c\<lparr>cached := d\<rparr>
      | Fault _ \<Rightarrow> c\<lparr>updater := Stopped\<rparr>)"

inductive cache_reach :: "date_cache \<Rightarrow> bool" where
  spawn: "cache_reach cache_new"
| wake: "cache_reach c \<Longrightarrow> updater c = Sleeping \<Longrightarrow> cache_reach (cache_wake c)"
| turn: "cache_reach c \<Longrightarrow> updater c = Updating \<Longrightarrow> cache_reach (cache_update now c)"

end
