(* ===== verification/Date_Theorems.thy ===== *)
theory Date_Theorems
  imports Calendar Date_Cache
begin

text \<open>
  What the conversions, the parser and the printer of the \<open>date\<close> crate compute, against the
  calendar: both directions of the conversion, the validity check, the parsers and \<open>Date\<close>.
\<close>

section \<open>From SystemTime\<close>

text \<open>
  The year that the conversion stores: the sum that should have had \<open>400 * qc_cycles\<close> added is
  masked with \<open>qc_cycles\<close> instead. The masked sum belongs to the year that starts in March.
\<close>

definition stored_year :: "nat \<Rightarrow> int" where
  "stored_year n =
     (let qc = (int n - 11017) div 146097; (y, m, d) = civil_date n;
          march_year = (if m \<le> 2 then y - 1 else y)
      in ((march_year - 400 * qc + 400) AND qc) + (if m \<le> 2 then 1 else 0))"

lemma cycle_range:
  assumes "n \<le> 2932896"
  shows "n < 11017 \<Longrightarrow> (int n - 11017) div 146097 = - 1"
    and "11017 \<le> n \<Longrightarrow> 0 \<le> (int n - 11017) div 146097 \<and> (int n - 11017) div 146097 \<le> 19"
proof -
  assume "n < 11017"
  then show "(int n - 11017) div 146097 = - 1"
    by (intro int_div_pos_eq [of _ _ _ "int n - 11017 + 146097"]) simp_all
next
  assume "11017 \<le> n"
  then have "0 \<le> int n - 11017" "int n - 11017 \<le> 2921879" using assms by simp_all
  then have "0 div 146097 \<le> (int n - 11017) div 146097"
    "(int n - 11017) div 146097 \<le> 2921879 div 146097"
    by (intro zdiv_mono1; simp)+
  then show "0 \<le> (int n - 11017) div 146097 \<and> (int n - 11017) div 146097 \<le> 19" by simp
qed

lemma stored_year_before_2000:
  assumes "n < 11017" "civil_date n = (y, m, d)"
  shows "stored_year n = y + 800"
  using cycle_range(1) [of n] assms by (simp add: stored_year_def)

lemma stored_year_after_2000:
  assumes "11017 \<le> n" "n \<le> 2932896"
  shows "0 \<le> stored_year n \<and> stored_year n \<le> 20"
proof -
  obtain y m d where c: "civil_date n = (y, m, d)" by (cases "civil_date n")
  define qc where "qc = (int n - 11017) div 146097"
  have qc: "0 \<le> qc" "qc \<le> 19" using cycle_range(2) [of n] assms by (simp_all add: qc_def)
  define x where "x = (if m \<le> 2 then y - 1 else y) - 400 * qc + 400"
  have "0 \<le> x AND qc" "x AND qc \<le> qc" using qc(1) by (simp_all add: AND_upper2')
  moreover have "stored_year n = (x AND qc) + (if m \<le> 2 then 1 else 0)"
    unfolding stored_year_def qc_def [symmetric] c x_def by (simp add: Let_def)
  ultimately show ?thesis using qc(2) by simp
qed

lemma year_upper:
  assumes "n < 11017" "civil_date n = (y, m, d)"
  shows "1970 \<le> y \<and> y \<le> 2000"
proof -
  have p: "proper (y, m, d)" "day_number (y, m, d) = int n"
    using civil_date_ok [of n] assms(2) by simp_all
  have "0 \<le> before_month m" by (simp add: before_month_def)
  then have "(y - 1970) * 365 \<le> int n"
    using p leaps_nonneg [of y] by (simp split: if_splits)
  then show ?thesis using p(1) assms(1) by simp
qed

lemma stored_year_range:
  assumes "n \<le> 2932896"
  shows "0 \<le> stored_year n \<and> stored_year n \<le> 2800"
proof (cases "n < 11017")
  case True
  obtain y m d where c: "civil_date n = (y, m, d)" by (cases "civil_date n")
  show ?thesis using stored_year_before_2000 [OF True c] year_upper [OF True c] by simp
next
  case False
  then show ?thesis using stored_year_after_2000 [of n] assms by simp
qed

lemma residues_of_7:
  fixes r :: int
  assumes "0 \<le> r" "r < 7"
  shows "r = 0 \<or> r = 1 \<or> r = 2 \<or> r = 3 \<or> r = 4 \<or> r = 5 \<or> r = 6"
  using assms by arith

lemma weekday_ok:
  "(if tmod (3 + days) 7 \<le> 0 then tmod (3 + days) 7 + 7 else tmod (3 + days) 7)
   = (days + 11017 + 3) mod 7 + 1"
proof -
  define a where "a = 3 + days"
  have "(a mod 7 + 11017 mod 7) mod 7 = (a + 11017) mod 7" by (rule mod_add_eq)
  then have m: "(days + 11017 + 3) mod 7 = (a mod 7 + 6) mod 7" by (simp add: a_def add_ac)
  show ?thesis
  proof (cases "0 \<le> a")
    case True
    then have t: "tmod a 7 = a mod 7" by (simp add: tmod_nonneg)
    have "a mod 7 = 0 \<or> a mod 7 = 1 \<or> a mod 7 = 2 \<or> a mod 7 = 3 \<or> a mod 7 = 4 \<or> a mod 7 = 5
          \<or> a mod 7 = 6"
      by (rule residues_of_7) simp_all
    then show ?thesis unfolding m a_def [symmetric] t by (elim disjE) simp_all
  next
    case False
    define r where "r = (- a) mod 7"
    have t: "tmod a 7 = - r"
      using False by (simp add: r_def tmod_def tdiv_neg minus_mult_div_eq_mod [symmetric])
    have "a mod 7 = (if r = 0 then 0 else 7 - r)"
      using zmod_zminus1_eq_if [of "- a" 7] by (simp add: r_def)
    moreover have "r = 0 \<or> r = 1 \<or> r = 2 \<or> r = 3 \<or> r = 4 \<or> r = 5 \<or> r = 6"
      by (rule residues_of_7) (simp_all add: r_def)
    ultimately show ?thesis unfolding m a_def [symmetric] t by (elim disjE) simp_all
  qed
qed

lemma cycles_year:
  assumes "split_cycles (int n - 11017) = (qc, c, q, r, rest)"
    "month_loop months 0 rest = (mon, rd)" "civil_date n = (y, m, d)"
  shows "m = (if mon > 10 then mon - 10 else mon + 2) \<and> d = rd + 1
    \<and> ((2000 + r + 4 * q + 100 * c + 400) AND qc) + (if mon > 10 then 1 else 0) = stored_year n"
proof -
  have ok: "cycles_ok (int n - 11017) (qc, c, q, r, rest)"
    using split_cycles_ok [of "int n - 11017"] assms(1) by simp
  then have qc: "qc = (int n - 11017) div 146097" and rest: "0 \<le> rest" "rest \<le> 365"
    unfolding cycles_ok_def prod.case by blast+
  have date: "date_of_cycles (qc, c, q, r, rest) = (y, m, d)"
    using date_of_cycles_ok [OF ok] assms(3) by simp
  have "1 \<le> mon" "mon \<le> 12" using month_loop_cases [OF rest assms(2)] by auto
  then have m: "m = (if mon > 10 then mon - 10 else mon + 2)" "(m \<le> 2) = (mon > 10)"
    and y: "(if m \<le> 2 then y - 1 else y) = 2000 + 400 * qc + 100 * c + 4 * q + r"
    and d: "d = rd + 1"
    using date assms(2) by (auto simp: Let_def split: if_splits)
  have "stored_year n = (((if m \<le> 2 then y - 1 else y) - 400 * qc + 400) AND qc)
                        + (if m \<le> 2 then 1 else 0)"
    unfolding stored_year_def qc assms(3) by (simp add: Let_def)
  moreover have "(if m \<le> 2 then y - 1 else y) - 400 * qc + 400 = 2000 + r + 4 * q + 100 * c + 400"
    using y by simp
  ultimately show ?thesis using m d by simp
qed

lemma clock_range:
  fixes s :: int
  shows "0 \<le> s mod 60" "s mod 60 < 60" "0 \<le> s mod 3600 div 60" "s mod 3600 div 60 < 60"
    "0 \<le> s mod 86400 div 3600" "s mod 86400 div 3600 < 24"
proof -
  have "0 \<le> s mod 60" "s mod 60 < 60" "0 \<le> s mod 3600" "s mod 3600 < 3600"
    "0 \<le> s mod 86400" "s mod 86400 < 86400" by simp_all
  then show "0 \<le> s mod 60" "s mod 60 < 60" "0 \<le> s mod 3600 div 60" "s mod 3600 div 60 < 60"
    "0 \<le> s mod 86400 div 3600" "s mod 86400 div 3600 < 24"
    by (simp_all add: div_less_iff_less_mult pos_imp_zdiv_nonneg_iff)
qed

lemma clock_bounds:
  fixes s :: int
  shows "s mod 60 mod 256 = s mod 60" "s mod 3600 div 60 mod 256 = s mod 3600 div 60"
    "s mod 86400 div 3600 mod 256 = s mod 86400 div 3600"
  using clock_range [of s] by (simp_all add: mod_pos_pos_trivial)

lemma clock_sum:
  fixes s :: int
  shows "s mod 86400 div 3600 * 3600 + s mod 3600 div 60 * 60 + s mod 60 = s mod 86400"
proof -
  have "s mod 86400 mod 3600 = s mod 3600" "s mod 3600 mod 60 = s mod 60"
    by (simp_all add: mod_mod_cancel)
  then have e: "s mod 86400 div 3600 * 3600 + s mod 3600 = s mod 86400"
    "s mod 3600 div 60 * 60 + s mod 60 = s mod 3600"
    using div_mult_mod_eq [of "s mod 86400" 3600] div_mult_mod_eq [of "s mod 3600" 60] by metis+
  show ?thesis unfolding add.assoc e ..
qed

text \<open>The conversion, on every time it accepts.\<close>

lemma datetime_from_eq:
  assumes s: "0 \<le> s" "s < 253402300800"
    and n: "n = nat (s div 86400)" and c: "civil_date n = (y, m, d)"
  shows "datetime_from \<lparr>st_secs = s, st_nanos = ns\<rparr> =
    Ok \<lparr>sec_c = nat (s mod 60), min_c = nat (s mod 3600 div 60),
        hr_c = nat (s mod 86400 div 3600), day_c = nat d, mon_c = nat m,
        year_c = nat (stored_year n), wday_c = (n + 3) mod 7 + 1\<rparr>"
proof -
  have "s div 86400 \<le> 253402300799 div 86400" by (rule zdiv_mono1) (use s in simp_all)
  then have n': "int n = s div 86400" "n \<le> 2932896"
    using s n by (simp_all add: pos_imp_zdiv_nonneg_iff)
  obtain qc cc q r rest where sc: "split_cycles (int n - 11017) = (qc, cc, q, r, rest)"
    by (cases "split_cycles (int n - 11017)")
  obtain mon rd where ml: "month_loop months 0 rest = (mon, rd)" by fastforce
  note cy = cycles_year [OF sc ml c]
  define Y where "Y = (2000 + r + 4 * q + 100 * cc + 400) AND qc"
  have Y: "stored_year n = (if mon > 10 then Y + 1 else Y)"
    using cy unfolding Y_def by (cases "mon > 10") simp_all
  have p: "proper (y, m, d)" using civil_date_ok [of n] c by simp
  then have md: "0 \<le> m" "m < 256" "0 \<le> d" "d < 256"
    by (auto simp: month_length_def split: if_splits)
  have year: "stored_year n mod 65536 = stored_year n"
    using stored_year_range [OF n'(2)] by simp
  have "(int n + 3) mod 7 + 1 = int ((n + 3) mod 7 + 1)" by (simp add: zmod_int)
  then have wd: "(if tmod (3 + (int n - 11017)) 7 \<le> 0 then tmod (3 + (int n - 11017)) 7 + 7
                  else tmod (3 + (int n - 11017)) 7) = int ((n + 3) mod 7 + 1)"
    using weekday_ok [of "int n - 11017"] by simp
  have wd': "int ((n + 3) mod 7 + 1) mod 256 = int ((n + 3) mod 7 + 1)" by simp
  have t: "s mod 86400 mod 60 mod 256 = s mod 60" "s mod 86400 mod 3600 div 60 mod 256 = s mod 3600 div 60"
    "s mod 86400 div 3600 mod 256 = s mod 86400 div 3600"
    by (simp_all add: mod_mod_cancel clock_bounds)
  have g: "\<not> s < 0" "\<not> s \<ge> 253402300800" using s by simp_all
  have md': "(rd + 1) mod 256 = d" "(if mon > 10 then mon - 10 else mon + 2) mod 256 = m"
    using cy md by simp_all
  show ?thesis
    unfolding datetime_from_def Let_def system_time.select_convs if_not_P [OF g(1)] if_not_P [OF g(2)]
      n'(1) [symmetric] sc prod.case ml wd wd' t Y_def [symmetric]
    using cy md' Y year by (cases "mon > 10") simp_all
qed

section \<open>To SystemTime\<close>

text \<open>The fields a date time can have when it passes the range checks of \<open>is_valid\<close>.\<close>

definition in_range :: "date_time \<Rightarrow> bool" where
  "in_range dt =
     (sec_c dt < 60 \<and> min_c dt < 60 \<and> hr_c dt < 24 \<and> 0 < day_c dt \<and> day_c dt < 32
      \<and> 0 < mon_c dt \<and> mon_c dt \<le> 12 \<and> 1970 \<le> year_c dt \<and> year_c dt \<le> 9999)"

definition civil_of :: "date_time \<Rightarrow> civil" where
  "civil_of dt = (int (year_c dt), int (mon_c dt), int (day_c dt))"

lemma century_le:
  fixes t :: int
  assumes "1 \<le> t"
  shows "(t + 68) div 100 \<le> t div 4"
proof -
  define u where "u = t div 4"
  have "t = 4 * u + t mod 4" "t mod 4 < 4" "0 \<le> u"
    using assms by (simp_all add: u_def pos_imp_zdiv_nonneg_iff)
  then have "t + 68 < (u + 1) * 100" by simp
  moreover have "100 * ((t + 68) div 100) \<le> t + 68"
    using mult_div_mod_eq [of 100 "t + 68"] pos_mod_sign [of 100 "t + 68"] by linarith
  ultimately have "100 * ((t + 68) div 100) < 100 * (u + 1)" by (simp add: mult.commute)
  then have "(t + 68) div 100 < u + 1" by (simp only: mult_less_cancel_left_pos zero_less_numeral)
  then show ?thesis by (simp add: u_def)
qed

lemma leap_years_ok:
  assumes "1970 \<le> y" "y \<le> 65535"
  shows "leap_years dbg y = Ok (nat (leaps (int y)))"
proof -
  define a b c where "a = (int y - 1969) div 4" and "b = (int y - 1901) div 100"
    and "c = (int y - 1601) div 400"
  have ba: "b \<le> a" using century_le [of "int y - 1969"] assms by (simp add: a_def b_def)
  have nn: "0 \<le> a" "0 \<le> b" "0 \<le> c"
    using assms by (simp_all add: a_def b_def c_def pos_imp_zdiv_nonneg_iff)
  have up: "a \<le> 15891" "c \<le> 159"
  proof -
    have "a \<le> 63566 div 4" "c \<le> 63934 div 400"
      unfolding a_def c_def by (rule zdiv_mono1; use assms in simp)+
    then show "a \<le> 15891" "c \<le> 159" by simp_all
  qed
  have "int (nat (int y - 1969) div 4) = a" "int (nat (int y - 1901) div 100) = b"
    "int (nat (int y - 1601) div 400) = c"
    using assms by (simp_all add: a_def b_def c_def zdiv_int)
  then have "leap_years dbg y =
      obind (checked 16 dbg (a - b)) (\<lambda>d. checked 16 dbg (int d + c))"
    using assms by (simp add: leap_years_def)
  also have "\<dots> = Ok (nat (a - b + c))" using ba nn up by simp
  finally show ?thesis by (simp add: leaps_def a_def b_def c_def)
qed

lemma days_before_month_ok:
  assumes "0 < m" "m \<le> 12"
  shows "days_before_month m = Ok (before_month (int m))"
proof -
  have "m = 1 \<or> m = 2 \<or> m = 3 \<or> m = 4 \<or> m = 5 \<or> m = 6 \<or> m = 7 \<or> m = 8 \<or> m = 9 \<or> m = 10
        \<or> m = 11 \<or> m = 12"
    using month_cases [of "int m"] assms by simp
  then show ?thesis
    by (elim disjE) (simp_all add: days_before_month_def before_month_def)
qed

lemma is_leap_year_leap: "is_leap_year y = leap (int y)"
  using int_dvd_int_iff [of 4 y] int_dvd_int_iff [of 100 y] int_dvd_int_iff [of 400 y]
  by (simp add: is_leap_year_def leap_def dvd_eq_mod_eq_0 [symmetric])

lemma leaps_mono: "y \<le> z \<Longrightarrow> leaps y \<le> leaps z"
proof (induction z rule: int_ge_induct)
  case (step z)
  then show ?case using leaps_step [of z] by (simp split: if_splits)
qed simp

lemma day_number_bounds:
  assumes "in_range dt"
  shows "(int (year_c dt) - 1970) * 365 \<le> day_number (civil_of dt)"
    and "day_number (civil_of dt) \<le> 2932896"
proof -
  let ?y = "int (year_c dt)"
  have r: "1970 \<le> ?y" "?y \<le> 9999" "1 \<le> int (day_c dt)" "int (day_c dt) \<le> 31"
    using assms by (simp_all add: in_range_def)
  have b: "0 \<le> before_month (int (mon_c dt))" "before_month (int (mon_c dt)) \<le> 334"
    by (simp_all add: before_month_def)
  show "(?y - 1970) * 365 \<le> day_number (civil_of dt)"
    using r b leaps_nonneg [of ?y] by (simp add: civil_of_def)
  have "leaps ?y \<le> leaps 9999" by (rule leaps_mono) (rule r(2))
  then have l: "leaps ?y \<le> 1947" by (simp add: leaps_def)
  have "leap ?y \<Longrightarrow> ?y \<noteq> 9999" by (auto simp: leap_def)
  then have "(?y - 1970) * 365 + (if leap ?y \<and> 2 < int (mon_c dt) then 1 else 0) \<le> 2930585"
    using r by (cases "leap ?y") auto
  then show "day_number (civil_of dt) \<le> 2932896"
    using r b l unfolding civil_of_def day_number.simps by linarith
qed

lemma systime_from_eq:
  assumes "in_range dt"
  shows "systime_from dbg dt =
    Ok \<lparr>st_secs = 86400 * day_number (civil_of dt) + 3600 * int (hr_c dt) + 60 * int (min_c dt)
          + int (sec_c dt), st_nanos = 0\<rparr>"
proof -
  define N where "N = day_number (civil_of dt)"
  have N: "0 \<le> N" "N \<le> 2932896"
    using day_number_bounds [OF assms] assms by (simp_all add: N_def in_range_def)
  have r: "sec_c dt < 60" "min_c dt < 60" "hr_c dt < 24" "0 < mon_c dt" "mon_c dt \<le> 12"
    "1970 \<le> year_c dt" "year_c dt \<le> 65535"
    using assms by (simp_all add: in_range_def)
  have dur: "duration_secs dbg dt N =
      Ok (nat (86400 * N + 3600 * int (hr_c dt) + 60 * int (min_c dt) + int (sec_c dt)))"
    using N r by (simp add: duration_secs_def)
  have "(int (year_c dt) - 1970) * 365 + int (nat (leaps (int (year_c dt))))
      + (if is_leap_year (year_c dt) \<and> 2 < mon_c dt
         then before_month (int (mon_c dt)) + int (day_c dt) - 1 + 1
         else before_month (int (mon_c dt)) + int (day_c dt) - 1) = N"
    using r leaps_nonneg [of "int (year_c dt)"]
    by (simp add: N_def civil_of_def is_leap_year_leap)
  then show ?thesis
    unfolding systime_from_def leap_years_ok [OF r(6,7)] days_before_month_ok [OF r(4,5)]
      obind.simps Let_def
    using N r by (simp add: dur N_def [symmetric])
qed

section \<open>Validity\<close>

lemma never_the_year:
  assumes "in_range dt" "n = nat (day_number (civil_of dt))"
  shows "nat (stored_year n) \<noteq> year_c dt"
proof
  assume y: "nat (stored_year n) = year_c dt"
  have r: "1970 \<le> year_c dt" using assms(1) by (simp add: in_range_def)
  note b = day_number_bounds [OF assms(1)]
  have n: "int n = day_number (civil_of dt)" "n \<le> 2932896" using b r assms(2) by simp_all
  show False
  proof (cases "n < 11017")
    case True
    obtain y m d where c: "civil_date n = (y, m, d)" by (cases "civil_date n")
    have "2770 \<le> year_c dt"
      using stored_year_before_2000 [OF True c] year_upper [OF True c] y by linarith
    then show False using b(1) n True by simp
  next
    case False
    then show False using stored_year_after_2000 [of n] n y r by linarith
  qed
qed

lemma is_valid_False: "is_valid dbg dt = Ok False"
proof (cases "in_range dt")
  case True
  define N where "N = day_number (civil_of dt)"
  define w where "w = 3600 * int (hr_c dt) + 60 * int (min_c dt) + int (sec_c dt)"
  have N: "0 \<le> N" "N \<le> 2932896"
    using day_number_bounds [OF True] True by (simp_all add: N_def in_range_def)
  have w: "0 \<le> w" "w < 86400" using True by (simp_all add: w_def in_range_def)
  have st: "systime_from dbg dt = Ok \<lparr>st_secs = 86400 * N + w, st_nanos = 0\<rparr>"
    using systime_from_eq [OF True, of dbg] by (simp add: N_def w_def)
  have n: "nat N = nat ((86400 * N + w) div 86400)" using w by simp
  obtain y m d where c: "civil_date (nat N) = (y, m, d)" by (cases "civil_date (nat N)")
  obtain dt' where dt': "datetime_from \<lparr>st_secs = 86400 * N + w, st_nanos = 0\<rparr> = Ok dt'"
    and y': "year_c dt' = nat (stored_year (nat N))"
    using datetime_from_eq [OF _ _ n c, of 0] N w by auto
  have "year_c dt' \<noteq> year_c dt" using never_the_year [OF True] y' by (simp add: N_def)
  then have "dt' \<noteq> dt" by auto
  then show ?thesis using True by (simp add: is_valid_def in_range_def st dt')
next
  case False
  then show ?thesis by (auto simp: is_valid_def in_range_def)
qed

section \<open>Parsing\<close>

lemma is_ok_qmark:
  assumes "is_ok r" "\<And>v. r = Ok (Some v) \<Longrightarrow> is_ok (f v)"
  shows "is_ok (qmark r f)"
  using assms by (auto simp: qmark_def is_ok_iff split: option.split)

lemma is_ok_to_int:
  "is_ok (to_int_1 x)" "2 \<le> length s \<Longrightarrow> is_ok (to_int_2 s)" "4 \<le> length s \<Longrightarrow> is_ok (to_int_4 s)"
  "2 \<le> length s \<Longrightarrow> is_ok (asctime_day s)"
  by (auto simp: to_int_1_def to_int_2_def to_int_4_def asctime_day_def Let_def index_def)

lemma parse_imf_fixdate_None: "parse_imf_fixdate s = Ok None"
proof (cases "length s = 29")
  case True
  have "length (take (length s - 25) (drop 25 s)) \<noteq> length (ascii ''GMT'')"
    by (simp add: True ascii_def)
  then have "take (length s - 25) (drop 25 s) \<noteq> ascii ''GMT''" by metis
  then show ?thesis using True by (simp add: parse_imf_fixdate_def)
qed (simp add: parse_imf_fixdate_def)

lemma wday_arms_total:
  assumes "\<forall>name \<in> set names. length name \<le> length s"
  shows "is_ok (wday_arms names n s)"
  using assms
  by (induction names arbitrary: n) (auto simp: wday_def split: option.split)

lemma parse_rfc850_date_None: "parse_rfc850_date s = Ok None"
proof (cases "length s < 23")
  case False
  then have "is_ok (wday_arms long_day_names 1 s)"
    by (intro wday_arms_total) (auto simp: long_day_names_def)
  then obtain r where r: "wday_arms long_day_names 1 s = Ok r" by (auto simp: is_ok_iff)
  have "take 4 (drop 18 t) \<noteq> ascii ''GMT''" if "length t = 22" for t :: "u8 list"
  proof -
    have "length (take 4 (drop 18 t)) \<noteq> length (ascii ''GMT'')" using that by (simp add: ascii_def)
    then show ?thesis by metis
  qed
  then show ?thesis
    using False by (auto simp: parse_rfc850_date_def qmark_def r simp del: One_nat_def
        split: option.split)
qed (simp add: parse_rfc850_date_def)

lemma parse_asctime_total: "is_ok (parse_asctime s)"
proof (cases "length s = 24")
  case True
  then show ?thesis
    unfolding parse_asctime_def
    by (auto intro!: is_ok_qmark is_ok_to_int)
qed (simp add: parse_asctime_def)

lemma from_str_None: "from_str dbg s = Ok None"
proof (cases "is_ascii s")
  case True
  obtain r where "parse_asctime (trim s) = Ok r"
    using parse_asctime_total [of "trim s"] by (auto simp: is_ok_iff)
  then show ?thesis
    using True
    by (auto simp: from_str_def Let_def or_else_def qmark_def parse_imf_fixdate_None
        parse_rfc850_date_None is_valid_False split: option.split)
qed (simp add: from_str_def)

section \<open>Printing\<close>

text \<open>The fields that fit the columns of the printed forms.\<close>

definition printable :: "date_time \<Rightarrow> bool" where
  "printable dt =
     (sec_c dt < 100 \<and> min_c dt < 100 \<and> hr_c dt < 100 \<and> day_c dt < 100 \<and> year_c dt < 10000
      \<and> 1 \<le> mon_c dt \<and> mon_c dt \<le> 12 \<and> 1 \<le> wday_c dt \<and> wday_c dt \<le> 7)"

abbreviation digit :: "nat \<Rightarrow> u8" where
  "digit n \<equiv> of_nat (48 + n)"

definition digits2 :: "nat \<Rightarrow> u8 list" where
  "digits2 n = [digit (n div 10), digit (n mod 10)]"

definition digits4 :: "nat \<Rightarrow> u8 list" where
  "digits4 n = [digit (n div 1000), digit (n div 100 mod 10), digit (n div 10 mod 10), digit (n mod 10)]"

lemma digit_minus [simp]: "digit n - 48 = of_nat n"
  by simp

lemma small_word [simp]: "n < 10 \<Longrightarrow> (of_nat n :: u8) < 10" "n < 10 \<Longrightarrow> unat (of_nat n :: u8) = n"
  by (simp_all add: word_less_nat_alt unat_of_nat)

lemma to_int_2_digits2 [simp]: "n < 100 \<Longrightarrow> to_int_2 (digits2 n) = Ok (Some n)"
proof -
  assume n: "n < 100"
  have "(of_nat (n div 10) * 10 + of_nat (n mod 10) :: u8) = of_nat (n div 10 * 10 + n mod 10)"
    by (simp only: of_nat_add of_nat_mult of_nat_numeral)
  then have "unat (of_nat (n div 10) * 10 + of_nat (n mod 10) :: u8) = n"
    using n by (simp add: unat_of_nat)
  moreover have "n div 10 < 10" using n by simp
  ultimately show ?thesis by (simp add: to_int_2_def digits2_def Let_def)
qed

lemma to_int_4_digits4 [simp]: "n < 10000 \<Longrightarrow> to_int_4 (digits4 n) = Ok (Some n)"
proof -
  assume n: "n < 10000"
  have "n div 1000 < 10" using n by simp
  moreover have "n div 1000 * 1000 + n div 100 mod 10 * 100 + n div 10 mod 10 * 10 + n mod 10 = n"
    using mod_mult2_eq [of n 10 10] mod_mult2_eq [of n 100 10] div_mult_mod_eq [of n 1000]
    by simp
  ultimately show ?thesis by (simp add: to_int_4_def digits4_def Let_def numeral_3_eq_3)
qed

lemma ascii_inj: "inj ascii"
proof -
  have "inj (\<lambda>c. of_nat (of_char c) :: u8)"
    by (rule injI) (simp add: word_of_nat_eq_iff take_bit_eq_mod nat_of_char_less_256)
  then show ?thesis by (simp add: ascii_def [abs_def])
qed

lemma match_arm_nth:
  assumes "distinct arms" "i < length arms"
  shows "match_arm arms n (ascii (arms ! i)) = Some (n + i)"
  using assms
proof (induction arms arbitrary: n i)
  case (Cons a arms)
  then show ?case by (cases i) (auto simp: inj_eq [OF ascii_inj])
qed simp

lemma names_distinct:
  "distinct (map (\<lambda>m. p @ m @ q) month_names)" "distinct (map (\<lambda>m. m @ q) month_names)"
  "distinct (map (\<lambda>d. d @ q) day_names)"
  by (simp_all add: month_names_def day_names_def)

lemma name_lengths:
  "i < 12 \<Longrightarrow> length (month_names ! i) = 3" "i < 7 \<Longrightarrow> length (day_names ! i) = 3"
proof -
  have "list_all (\<lambda>m. length m = 3) month_names" "list_all (\<lambda>d. length d = 3) day_names"
    by (simp_all add: month_names_def day_names_def)
  then show "i < 12 \<Longrightarrow> length (month_names ! i) = 3" "i < 7 \<Longrightarrow> length (day_names ! i) = 3"
    by (auto simp: list_all_length month_names_def day_names_def)
qed

lemma match_month:
  assumes "1 \<le> m" "m \<le> 12"
  shows "match_arm (map (\<lambda>m. p @ m @ q) month_names) 1 (ascii (p @ month_names ! (m - 1) @ q)) = Some m"
    and "match_arm (map (\<lambda>m. m @ q) month_names) 1 (ascii (month_names ! (m - 1) @ q)) = Some m"
proof -
  have i: "m - 1 < length month_names" using assms by (simp add: month_names_def)
  show "match_arm (map (\<lambda>m. p @ m @ q) month_names) 1 (ascii (p @ month_names ! (m - 1) @ q)) = Some m"
    using match_arm_nth [OF names_distinct(1) [of p q], of "m - 1" 1] i assms by simp
  show "match_arm (map (\<lambda>m. m @ q) month_names) 1 (ascii (month_names ! (m - 1) @ q)) = Some m"
    using match_arm_nth [OF names_distinct(2) [of q], of "m - 1" 1] i assms by simp
qed

lemma match_day:
  assumes "1 \<le> w" "w \<le> 7"
  shows "match_arm (map (\<lambda>d. d @ q) day_names) 1 (ascii (day_names ! (w - 1) @ q)) = Some w"
proof -
  have "w - 1 < length day_names" using assms by (simp add: day_names_def)
  then show ?thesis
    using match_arm_nth [OF names_distinct(3) [of q], of "w - 1" 1] assms by simp
qed

lemma ascii_append [simp]: "ascii (a @ b) = ascii a @ ascii b"
  and length_ascii [simp]: "length (ascii a) = length a"
  by (simp_all add: ascii_def)

lemma length_digits [simp]: "length (digits2 n) = 2" "length (digits4 n) = 4"
  by (simp_all add: digits2_def digits4_def)

text \<open>The three forms that the parser knows, as strings of a date time.\<close>

definition clock :: "date_time \<Rightarrow> u8 list" where
  "clock dt = digits2 (hr_c dt) @ [58] @ digits2 (min_c dt) @ [58] @ digits2 (sec_c dt)"

definition day_name :: "date_time \<Rightarrow> string" where
  "day_name dt = day_names ! (wday_c dt - 1)"

definition month_name :: "date_time \<Rightarrow> string" where
  "month_name dt = month_names ! (mon_c dt - 1)"

definition imf_fixdate :: "date_time \<Rightarrow> u8 list" where
  "imf_fixdate dt =
     ascii (day_name dt @ '', '') @ digits2 (day_c dt) @ ascii ('' '' @ month_name dt @ '' '')
     @ digits4 (year_c dt) @ [32] @ clock dt @ ascii '' GMT''"

definition asctime :: "date_time \<Rightarrow> u8 list" where
  "asctime dt =
     ascii (day_name dt @ '' '') @ ascii (month_name dt @ '' '')
     @ (if day_c dt < 10 then [32, digit (day_c dt)] else digits2 (day_c dt)) @ [32]
     @ clock dt @ [32] @ digits4 (year_c dt)"

lemma printable_names:
  assumes "printable dt"
  shows "length (day_name dt) = 3" "length (month_name dt) = 3"
  unfolding day_name_def month_name_def
  by (rule name_lengths; use assms in \<open>auto simp: printable_def\<close>)+

lemma unat_digit: "n < 200 \<Longrightarrow> unat (digit n :: u8) = 48 + n"
  by (subst unat_of_nat) simp

lemma asctime_day_ok:
  assumes "n < 100"
  shows "asctime_day (if n < 10 then [32, digit n] else digits2 n) = Ok (Some n)"
proof (cases "n < 10")
  case True
  then show ?thesis by (simp add: asctime_day_def to_int_1_def Let_def)
next
  case False
  have "unat (digit (n div 10) :: u8) = 48 + n div 10"
    by (rule unat_digit) (use assms in simp)
  then have "unat (digit (n div 10) :: u8) \<noteq> unat (32 :: u8)"
    by (simp del: of_nat_add)
  then have "digit (n div 10) \<noteq> (32 :: u8)" by metis
  then show ?thesis
    using False assms to_int_2_digits2 [of n] by (simp add: asctime_day_def digits2_def)
qed

lemma parse_asctime_fields:
  assumes "length A = 4" "length M = 4" "length D = 2" "length h = 2" "length mi = 2"
    "length se = 2" "length Y = 4"
  shows "parse_asctime (A @ M @ D @ [32] @ h @ [58] @ mi @ [58] @ se @ [32] @ Y) =
    qmark (to_int_2 se) (\<lambda>sec. qmark (to_int_2 mi) (\<lambda>mn. qmark (to_int_2 h) (\<lambda>hr.
    qmark (asctime_day D) (\<lambda>day.
    qmark (Ok (match_arm (map (\<lambda>m. m @ '' '') month_names) 1 M)) (\<lambda>mon.
    qmark (to_int_4 Y) (\<lambda>year.
    qmark (Ok (match_arm (map (\<lambda>d. d @ '' '') day_names) 1 A)) (\<lambda>wday.
      Ok (Some \<lparr>sec_c = sec, min_c = mn, hr_c = hr, day_c = day, mon_c = mon,
                year_c = year, wday_c = wday\<rparr>))))))))"
  using assms unfolding parse_asctime_def by (simp add: nth_append)

lemma qmark_Some [simp]: "qmark (Ok (Some v)) f = f v"
  by (simp add: qmark_def)

lemma parse_asctime_asctime:
  assumes "printable dt"
  shows "parse_asctime (asctime dt) = Ok (Some dt)"
proof -
  define D where "D = (if day_c dt < 10 then [32, digit (day_c dt)] else digits2 (day_c dt))"
  note len = printable_names [OF assms]
  have p: "sec_c dt < 100" "min_c dt < 100" "hr_c dt < 100" "day_c dt < 100" "year_c dt < 10000"
    "1 \<le> mon_c dt" "mon_c dt \<le> 12" "1 \<le> wday_c dt" "wday_c dt \<le> 7"
    using assms by (simp_all add: printable_def)
  have "parse_asctime (asctime dt) =
    parse_asctime (ascii (day_name dt @ '' '') @ ascii (month_name dt @ '' '') @ D @ [32]
      @ digits2 (hr_c dt) @ [58] @ digits2 (min_c dt) @ [58] @ digits2 (sec_c dt) @ [32]
      @ digits4 (year_c dt))"
    by (simp add: asctime_def clock_def D_def)
  also have "\<dots> = Ok (Some dt)"
    using len p asctime_day_ok [OF p(4)] match_month(2) [OF p(6,7), of "'' ''"]
      match_day [OF p(8,9), of "'' ''"]
    by (subst parse_asctime_fields)
      (simp_all add: D_def day_name_def month_name_def del: ascii_append One_nat_def)
  finally show ?thesis .
qed

lemma three_letters:
  assumes "length xs = 3"
  obtains a b c where "xs = [a, b, c]"
  using assms by (auto simp: numeral_3_eq_3 length_Suc_conv)

lemma is_ascii_simps [simp]:
  "is_ascii []" "is_ascii (b # s) = (b < 128 \<and> is_ascii s)" "is_ascii (s @ t) = (is_ascii s \<and> is_ascii t)"
  by (simp_all add: is_ascii_def)

lemma is_ascii_names:
  "i < 12 \<Longrightarrow> is_ascii (ascii (month_names ! i))" "i < 7 \<Longrightarrow> is_ascii (ascii (day_names ! i))"
proof -
  have "list_all (\<lambda>m. is_ascii (ascii m)) month_names" "list_all (\<lambda>d. is_ascii (ascii d)) day_names"
    by (simp_all add: month_names_def day_names_def ascii_def)
  then show "i < 12 \<Longrightarrow> is_ascii (ascii (month_names ! i))" "i < 7 \<Longrightarrow> is_ascii (ascii (day_names ! i))"
    by (auto simp: list_all_length month_names_def day_names_def)
qed

lemma is_ascii_digits:
  "n < 100 \<Longrightarrow> is_ascii (digits2 n)" "n < 10000 \<Longrightarrow> is_ascii (digits4 n)"
proof -
  have d: "digit k < (128 :: u8)" if "k < 10" for k
    using that unat_digit [of k] by (simp add: word_less_nat_alt)
  show "n < 100 \<Longrightarrow> is_ascii (digits2 n)" "n < 10000 \<Longrightarrow> is_ascii (digits4 n)"
    unfolding digits2_def digits4_def is_ascii_simps by (intro conjI TrueI d; simp)+
qed

lemma imf_fixdate_shape:
  assumes "printable dt"
  shows "length (imf_fixdate dt) = 29" "is_ascii (imf_fixdate dt)"
proof -
  have p: "sec_c dt < 100" "min_c dt < 100" "hr_c dt < 100" "day_c dt < 100" "year_c dt < 10000"
    "mon_c dt - 1 < 12" "wday_c dt - 1 < 7"
    using assms by (auto simp: printable_def)
  show "length (imf_fixdate dt) = 29"
    using printable_names [OF assms] by (simp add: imf_fixdate_def clock_def)
  show "is_ascii (imf_fixdate dt)"
    using p is_ascii_names
    by (simp add: imf_fixdate_def clock_def is_ascii_digits day_name_def month_name_def)
      (simp add: ascii_def)
qed

lemma datetime_fmt_eq:
  assumes "printable dt"
  shows "datetime_fmt dt = Ok (imf_fixdate dt)"
proof -
  obtain a b c where w: "day_name dt = [a, b, c]"
    using printable_names(1) [OF assms] by (rule three_letters)
  obtain k l m where mn: "month_name dt = [k, l, m]"
    using printable_names(2) [OF assms] by (rule three_letters)
  have "(ascii ''   , 00     0000 00:00:00 GMT'')
      [0 := ascii (day_name dt) ! 0, 1 := ascii (day_name dt) ! 1, 2 := ascii (day_name dt) ! 2,
       5 := digit (day_c dt div 10), 6 := digit (day_c dt mod 10),
       8 := ascii (month_name dt) ! 0, 9 := ascii (month_name dt) ! 1, 10 := ascii (month_name dt) ! 2,
       12 := digit (year_c dt div 1000), 13 := digit (year_c dt div 100 mod 10),
       14 := digit (year_c dt div 10 mod 10), 15 := digit (year_c dt mod 10),
       17 := digit (hr_c dt div 10), 18 := digit (hr_c dt mod 10),
       20 := digit (min_c dt div 10), 21 := digit (min_c dt mod 10),
       23 := digit (sec_c dt div 10), 24 := digit (sec_c dt mod 10)] = imf_fixdate dt"
    unfolding w mn imf_fixdate_def clock_def digits2_def digits4_def ascii_def by simp
  then show ?thesis
    using assms imf_fixdate_shape(2) [OF assms]
    unfolding datetime_fmt_def Let_def day_name_def [symmetric] month_name_def [symmetric]
    by (simp add: printable_def)
qed

lemma imf_fields:
  assumes "length A = 5" "length D = 2" "length M = 5" "length Y = 4" "length h = 2"
    "length mi = 2" "length se = 2" "length G = 4"
    and "buf = A @ D @ M @ Y @ [32] @ h @ [58] @ mi @ [58] @ se @ G"
  shows "slice buf 0 5 = Ok A" "slice buf 5 7 = Ok D" "slice buf 7 12 = Ok M" "slice buf 12 16 = Ok Y"
    "slice buf 17 19 = Ok h" "slice buf 20 22 = Ok mi" "slice buf 23 25 = Ok se"
  using assms by simp_all

lemma datetime_from_printable:
  assumes "0 \<le> s" "s < 253402300800" "datetime_from \<lparr>st_secs = s, st_nanos = ns\<rparr> = Ok dt"
  shows "printable dt"
proof -
  define n where "n = nat (s div 86400)"
  obtain y m d where c: "civil_date n = (y, m, d)" by (cases "civil_date n")
  have "s div 86400 \<le> 253402300799 div 86400" by (rule zdiv_mono1) (use assms in simp_all)
  then have "n \<le> 2932896" by (simp add: n_def)
  then have year: "nat (stored_year n) < 10000" using stored_year_range [of n] by linarith
  have "proper (y, m, d)" using civil_date_ok [of n] c by simp
  then have md: "1 \<le> m" "m \<le> 12" "d \<le> 31"
    by (auto simp: month_length_def split: if_splits)
  define se mi hr where "se = s mod 60" and "mi = s mod 3600 div 60" and "hr = s mod 86400 div 3600"
  have cl: "se < 60" "mi < 60" "hr < 24"
    unfolding se_def mi_def hr_def by (rule clock_range)+
  define w where "w = (n + 3) mod 7"
  have w: "w < 7" by (simp add: w_def)
  have "dt = \<lparr>sec_c = nat se, min_c = nat mi, hr_c = nat hr, day_c = nat d, mon_c = nat m,
              year_c = nat (stored_year n), wday_c = w + 1\<rparr>"
    unfolding se_def mi_def hr_def w_def
    using datetime_from_eq [OF assms(1,2) n_def c, of ns] assms(3) by (simp only: outcome.inject)
  moreover have "nat se < 100" "nat mi < 100" "nat hr < 100" "nat d < 100" "1 \<le> nat m" "nat m \<le> 12"
    using cl md by linarith+
  ultimately show ?thesis
    using year w by (simp add: printable_def)
qed

lemma digit_not_nul: "n < 200 \<Longrightarrow> (digit n :: u8) \<noteq> 0"
proof
  assume "n < 200" "(digit n :: u8) = 0"
  then have "unat (digit n :: u8) = 0" by (simp only: unat_0)
  then show False using unat_digit [OF \<open>n < 200\<close>] by simp
qed

lemma names_no_nul: "i < 12 \<Longrightarrow> 0 \<notin> set (ascii (month_names ! i))" "i < 7 \<Longrightarrow> 0 \<notin> set (ascii (day_names ! i))"
proof -
  have "list_all (\<lambda>m. 0 \<notin> set (ascii m)) month_names" "list_all (\<lambda>d. 0 \<notin> set (ascii d)) day_names"
    by (simp_all add: month_names_def day_names_def ascii_def)
  then show "i < 12 \<Longrightarrow> 0 \<notin> set (ascii (month_names ! i))" "i < 7 \<Longrightarrow> 0 \<notin> set (ascii (day_names ! i))"
    by (auto simp: list_all_length month_names_def day_names_def)
qed

lemma digits_no_nul: "n < 100 \<Longrightarrow> 0 \<notin> set (digits2 n)" "n < 10000 \<Longrightarrow> 0 \<notin> set (digits4 n)"
proof -
  have d: "0 \<noteq> (digit k :: u8)" if "k < 10" for k
    using digit_not_nul [of k, symmetric] that by linarith
  show "n < 100 \<Longrightarrow> 0 \<notin> set (digits2 n)" "n < 10000 \<Longrightarrow> 0 \<notin> set (digits4 n)"
    unfolding digits2_def digits4_def list.set insert_iff empty_iff de_Morgan_disj not_False_eq_True
    by (intro conjI TrueI d; simp)+
qed

lemma imf_fixdate_no_nul:
  assumes "printable dt"
  shows "0 \<notin> set (imf_fixdate dt)"
proof -
  have p: "sec_c dt < 100" "min_c dt < 100" "hr_c dt < 100" "day_c dt < 100" "year_c dt < 10000"
    "mon_c dt - 1 < 12" "wday_c dt - 1 < 7"
    using assms by (auto simp: printable_def)
  have "0 \<notin> set (ascii '', '')" "0 \<notin> set (ascii '' '')" "0 \<notin> set (ascii '' GMT'')"
    "ascii (CHR '' '' # s) = 32 # ascii s" for s
    by (simp_all add: ascii_def)
  then show ?thesis
    using p names_no_nul
    by (simp add: imf_fixdate_def clock_def digits_no_nul day_name_def month_name_def)
qed

section \<open>The properties\<close>

text \<open>
  C5. \<open>From<SystemTime>\<close> never panics on a time from 1970 up to the year 9999. The clock is the
  time of day, the day and month are those of the calendar date, counted day by day from
  1970-01-01, and the weekday is the weekday of that date, Monday being 1.
\<close>

theorem datetime_from_calendar:
  assumes "0 \<le> s" "s < 253402300800" "civil_date (nat (s div 86400)) = (y, m, d)"
  shows "\<exists>dt. datetime_from \<lparr>st_secs = s, st_nanos = ns\<rparr> = Ok dt
     \<and> int (hr_c dt) * 3600 + int (min_c dt) * 60 + int (sec_c dt) = s mod 86400
     \<and> min_c dt < 60 \<and> sec_c dt < 60
     \<and> int (mon_c dt) = m \<and> int (day_c dt) = d
     \<and> wday_c dt = (nat (s div 86400) + 3) mod 7 + 1"
proof -
  have p: "1 \<le> m" "1 \<le> d" using civil_date_ok [of "nat (s div 86400)"] assms(3) by simp_all
  define se mi hr where "se = s mod 60" and "mi = s mod 3600 div 60" and "hr = s mod 86400 div 3600"
  have cl: "0 \<le> se" "se < 60" "0 \<le> mi" "mi < 60" "0 \<le> hr" "hr * 3600 + mi * 60 + se = s mod 86400"
    unfolding se_def mi_def hr_def by (rule clock_range clock_sum)+
  show ?thesis
    unfolding datetime_from_eq [OF assms(1,2) refl assms(3)] se_def [symmetric] mi_def [symmetric]
      hr_def [symmetric]
    using p cl by (auto simp: nat_less_iff)
qed

theorem datetime_from_calendar_witness:
  "\<exists>dt. datetime_from \<lparr>st_secs = 5144523, st_nanos = 0\<rparr> = Ok dt
     \<and> int (mon_c dt) = 3 \<and> int (day_c dt) = 1 \<and> wday_c dt = 7"
proof -
  have "civil_date (nat (5144523 div 86400)) = (1970, 3, 1)" by code_simp
  then show ?thesis using datetime_from_calendar [of 5144523 1970 3 1 0] by auto
qed

text \<open>
  C30. The year that \<open>From<SystemTime>\<close> stores is never the year of the date: it is 800 too large
  up to the end of February 2000, and at most 20 from then on.
\<close>

theorem datetime_from_wrong_year:
  assumes "0 \<le> s" "s < 253402300800" "civil_date (nat (s div 86400)) = (y, m, d)"
    "datetime_from \<lparr>st_secs = s, st_nanos = ns\<rparr> = Ok dt"
  shows "if s < 951868800 then int (year_c dt) = y + 800 else year_c dt \<le> 20"
proof -
  define n where "n = nat (s div 86400)"
  have year: "year_c dt = nat (stored_year n)"
    using datetime_from_eq [OF assms(1,2) n_def assms(3) [folded n_def], of ns] assms(4) by auto
  have "s div 86400 \<le> 253402300799 div 86400" by (rule zdiv_mono1) (use assms in simp_all)
  moreover have "(s < 951868800) = (s div 86400 < 11017)"
    by (rule iffI) linarith+
  ultimately have n: "n \<le> 2932896" "(s < 951868800) = (n < 11017)"
    using assms(1) by (simp_all add: n_def nat_less_iff pos_imp_zdiv_nonneg_iff)
  show ?thesis
    using stored_year_before_2000 [OF _ assms(3) [folded n_def]]
      year_upper [OF _ assms(3) [folded n_def]] stored_year_after_2000 [of n] n year
    by auto
qed

theorem datetime_from_wrong_year_witness:
  "\<exists>dt. datetime_from \<lparr>st_secs = 5144523, st_nanos = 0\<rparr> = Ok dt \<and> year_c dt = 2770"
proof -
  have c: "civil_date (nat (5144523 div 86400)) = (1970, 3, 1)" by code_simp
  have "is_ok (datetime_from \<lparr>st_secs = 5144523, st_nanos = 0\<rparr>)" by code_simp
  then obtain dt where "datetime_from \<lparr>st_secs = 5144523, st_nanos = 0\<rparr> = Ok dt"
    by (auto simp: is_ok_iff)
  then show ?thesis using datetime_from_wrong_year [OF _ _ c] by auto
qed

text \<open>
  C15. \<open>From<DateTime>\<close> counts the seconds since the epoch: for the date reached after \<open>n\<close> days from
  1970-01-01, up to the year 9999, and a time of day, it neither panics nor wraps, with or
  without overflow checks, and returns the \<open>n\<close> days and the time of day in seconds.
\<close>

theorem systime_from_calendar:
  assumes "civil_date n = (y, m, d)" "y \<le> 9999" "h < 24" "mi < 60" "sec < 60"
  shows "systime_from dbg \<lparr>sec_c = sec, min_c = mi, hr_c = h, day_c = nat d, mon_c = nat m,
                           year_c = nat y, wday_c = w\<rparr>
         = Ok \<lparr>st_secs = 86400 * int n + 3600 * int h + 60 * int mi + int sec, st_nanos = 0\<rparr>"
proof -
  let ?dt = "\<lparr>sec_c = sec, min_c = mi, hr_c = h, day_c = nat d, mon_c = nat m,
              year_c = nat y, wday_c = w\<rparr>"
  have c: "proper (y, m, d)" "day_number (y, m, d) = int n"
    using civil_date_ok [of n] assms(1) by simp_all
  then have "1 \<le> d" "d \<le> 31" "1 \<le> m" "m \<le> 12" "1970 \<le> y"
    by (auto simp: month_length_def split: if_splits)
  then have "in_range ?dt" "civil_of ?dt = (y, m, d)"
    using assms by (auto simp: in_range_def civil_of_def)
  then show ?thesis using systime_from_eq [of ?dt dbg] c(2) by simp
qed

theorem systime_from_calendar_witness:
  "systime_from True \<lparr>sec_c = 5, min_c = 4, hr_c = 3, day_c = 1, mon_c = 3, year_c = 1970, wday_c = 7\<rparr>
   = Ok \<lparr>st_secs = 5108645, st_nanos = 0\<rparr>"
proof -
  have "civil_date 59 = (1970, 3, 1)" by code_simp
  then show ?thesis using systime_from_calendar [of 59 1970 3 1 3 4 5 True 7] by simp
qed

text \<open>
  C31. No date is accepted: \<open>is_valid\<close> is false for every date time, because it converts to an instant
  and back and the year does not survive; and parsing fails on every string, \<open>from_str\<close> and so
  \<open>parse_httph_date\<close> returning the error even for what the crate's own printer wrote. None of them
  panics.
\<close>

theorem dates_rejected:
  "is_valid dbg dt = Ok False \<and> from_str dbg s = Ok None \<and> parse_httph_date dbg s = Ok None"
  by (simp add: is_valid_False from_str_None parse_httph_date_def qmark_def)

text \<open>
  C38. The parser of the \<open>asctime\<close> form reads back every date time whose fields fit their
  columns, a one-digit day padded with a space.
\<close>

theorem parse_asctime_roundtrip:
  assumes "printable dt"
  shows "parse_asctime (asctime dt) = Ok (Some dt)"
  using assms by (rule parse_asctime_asctime)

theorem parse_asctime_roundtrip_witness:
  "parse_asctime (ascii ''Sun Nov  6 08:49:37 1994'') =
   Ok (Some \<lparr>sec_c = 37, min_c = 49, hr_c = 8, day_c = 6, mon_c = 11, year_c = 1994, wday_c = 7\<rparr>)"
proof -
  let ?dt = "\<lparr>sec_c = 37, min_c = 49, hr_c = 8, day_c = 6, mon_c = 11, year_c = 1994, wday_c = 7\<rparr>"
  have "printable ?dt" by (simp add: printable_def)
  moreover have "asctime ?dt = ascii ''Sun Nov  6 08:49:37 1994''" by code_simp
  ultimately show ?thesis using parse_asctime_roundtrip [of ?dt] by simp
qed

text \<open>
  C39. Displaying a date time whose fields fit their columns gives 29 ASCII bytes that end in
  \<open>GMT\<close>, and every field is read back from its column with the parser's own digit and name readers.
\<close>

theorem datetime_fmt_readable:
  assumes "printable dt"
  shows "\<exists>buf. datetime_fmt dt = Ok buf \<and> length buf = 29 \<and> is_ascii buf
    \<and> drop 25 buf = ascii '' GMT''
    \<and> omap (match_arm (map (\<lambda>d. d @ '', '') day_names) 1) (slice buf 0 5) = Ok (Some (wday_c dt))
    \<and> obind (slice buf 5 7) to_int_2 = Ok (Some (day_c dt))
    \<and> omap (match_arm (map (\<lambda>m. '' '' @ m @ '' '') month_names) 1) (slice buf 7 12)
        = Ok (Some (mon_c dt))
    \<and> obind (slice buf 12 16) to_int_4 = Ok (Some (year_c dt))
    \<and> obind (slice buf 17 19) to_int_2 = Ok (Some (hr_c dt))
    \<and> obind (slice buf 20 22) to_int_2 = Ok (Some (min_c dt))
    \<and> obind (slice buf 23 25) to_int_2 = Ok (Some (sec_c dt))"
proof -
  have p: "sec_c dt < 100" "min_c dt < 100" "hr_c dt < 100" "day_c dt < 100" "year_c dt < 10000"
    "1 \<le> mon_c dt" "mon_c dt \<le> 12" "1 \<le> wday_c dt" "wday_c dt \<le> 7"
    using assms by (simp_all add: printable_def)
  note len = printable_names [OF assms]
  have buf: "imf_fixdate dt = ascii (day_name dt @ '', '') @ digits2 (day_c dt)
      @ ascii ('' '' @ month_name dt @ '' '') @ digits4 (year_c dt) @ [32] @ digits2 (hr_c dt) @ [58]
      @ digits2 (min_c dt) @ [58] @ digits2 (sec_c dt) @ ascii '' GMT''"
    by (simp add: imf_fixdate_def clock_def)
  note fields = imf_fields [OF _ _ _ _ _ _ _ _ buf]
  have "drop 25 (imf_fixdate dt) = ascii '' GMT''" using len by (simp add: buf)
  then show ?thesis
    using datetime_fmt_eq [OF assms] imf_fixdate_shape [OF assms] p len fields
      match_month(1) [OF p(6,7), of "'' ''" "'' ''"] match_day [OF p(8,9), of "'', ''"]
    by (simp add: day_name_def month_name_def del: ascii_append One_nat_def)
qed

theorem datetime_fmt_readable_witness:
  "\<exists>buf. datetime_fmt \<lparr>sec_c = 37, min_c = 49, hr_c = 8, day_c = 6, mon_c = 11, year_c = 1994,
                       wday_c = 7\<rparr> = Ok buf
    \<and> length buf = 29 \<and> obind (slice buf 12 16) to_int_4 = Ok (Some 1994)"
  using datetime_fmt_readable [of "\<lparr>sec_c = 37, min_c = 49, hr_c = 8, day_c = 6, mon_c = 11,
                                    year_c = 1994, wday_c = 7\<rparr>"]
  by (auto simp: printable_def)

lemma date_update_writes:
  assumes "0 \<le> s" "s < 253402300800" "length (date_bytes self) = DATE_VALUE_LENGTH"
  obtains dt where "datetime_from \<lparr>st_secs = s, st_nanos = ns\<rparr> = Ok dt" "printable dt"
    "date_update \<lparr>st_secs = s, st_nanos = ns\<rparr> self = Ok (self\<lparr>date_bytes := imf_fixdate dt\<rparr>)"
proof -
  obtain y m d where c: "civil_date (nat (s div 86400)) = (y, m, d)"
    by (cases "civil_date (nat (s div 86400))")
  obtain dt where dt: "datetime_from \<lparr>st_secs = s, st_nanos = ns\<rparr> = Ok dt"
    using datetime_from_eq [OF assms(1,2) refl c] by auto
  have p: "printable dt" by (rule datetime_from_printable [OF assms(1,2) dt])
  have "date_update \<lparr>st_secs = s, st_nanos = ns\<rparr> self = Ok (self\<lparr>date_bytes := imf_fixdate dt\<rparr>)"
    using assms(3) imf_fixdate_shape(1) [OF p]
    by (simp add: date_update_def dt datetime_fmt_eq [OF p] date_write_str_def DATE_VALUE_LENGTH_def)
  with dt p show ?thesis by (rule that)
qed

lemma date_update_ok:
  assumes "0 \<le> s" "s < 253402300800" "length (date_bytes self) = DATE_VALUE_LENGTH"
  shows "(\<exists>dt. datetime_from \<lparr>st_secs = s, st_nanos = ns\<rparr> = Ok dt
      \<and> date_update \<lparr>st_secs = s, st_nanos = ns\<rparr> self = Ok (self\<lparr>date_bytes := imf_fixdate dt\<rparr>)
      \<and> length (imf_fixdate dt) = DATE_VALUE_LENGTH \<and> 0 \<notin> set (imf_fixdate dt))"
  by (rule date_update_writes [OF assms, of ns])
    (auto simp: imf_fixdate_shape(1) imf_fixdate_no_nul DATE_VALUE_LENGTH_def)

lemma date_update_out_of_range:
  assumes "st_secs now < 0 \<or> 253402300800 \<le> st_secs now"
  shows "\<exists>f. date_update now self = Fault f"
  using assms by (auto simp: date_update_def datetime_from_def)

text \<open>What the cache holds: nothing yet, or a printed date.\<close>

definition cache_inv :: "date_cache \<Rightarrow> bool" where
  "cache_inv c \<longleftrightarrow>
     length (date_bytes (cached c)) = DATE_VALUE_LENGTH
     \<and> (date_bytes (cached c) = replicate DATE_VALUE_LENGTH 0
        \<or> (\<exists>now dt. datetime_from now = Ok dt \<and> date_bytes (cached c) = imf_fixdate dt \<and> 0 \<notin> set (imf_fixdate dt)))"

lemma cache_update_cases:
  assumes "length (date_bytes (cached c)) = DATE_VALUE_LENGTH"
  obtains dt where "0 \<le> st_secs now" "st_secs now < 253402300800" "datetime_from now = Ok dt"
      "cache_update now c = c\<lparr>cached := (cached c)\<lparr>date_bytes := imf_fixdate dt\<rparr>\<rparr>"
      "length (imf_fixdate dt) = DATE_VALUE_LENGTH" "0 \<notin> set (imf_fixdate dt)"
  | "st_secs now < 0 \<or> 253402300800 \<le> st_secs now" "cache_update now c = c\<lparr>updater := Stopped\<rparr>"
proof (cases "0 \<le> st_secs now \<and> st_secs now < 253402300800")
  case True
  have now: "\<lparr>st_secs = st_secs now, st_nanos = st_nanos now\<rparr> = now" by simp
  show ?thesis
    using True date_update_ok [OF _ _ assms, of "st_secs now" "st_nanos now"] that(1) unfolding now
    by (auto simp: cache_update_def)
next
  case False
  then have "st_secs now < 0 \<or> 253402300800 \<le> st_secs now" by linarith
  then show ?thesis using date_update_out_of_range [of now "cached c"] that(2) by (auto simp: cache_update_def)
qed

lemma cache_reach_inv: "cache_reach c \<Longrightarrow> cache_inv c"
proof (induction rule: cache_reach.induct)
  case spawn
  then show ?case by (simp add: cache_inv_def cache_new_def date_now_def)
next
  case (wake c)
  then show ?case by (simp add: cache_inv_def cache_wake_def)
next
  case (turn c now)
  then have "length (date_bytes (cached c)) = DATE_VALUE_LENGTH" by (simp add: cache_inv_def)
  then show ?case
    using turn.IH by (cases rule: cache_update_cases [where now = now]) (auto simp: cache_inv_def)
qed

text \<open>
  C16. In every state that the cache can reach it holds 29 bytes: either all NUL, or what the
  conversion and the printer make of some time that the clock showed, without a NUL byte. While the
  clock is between 1970 and the end of 9999, a turn of the updating thread stores what they make of it
  (the year of the conversion is wrong, so this is not the current date) and the thread goes on;
  outside, the conversion panics, the thread ends and the cache keeps its last bytes for good.
\<close>

theorem cached_date:
  assumes "cache_reach c"
  shows "length (date_as_bytes (cached c)) = 29
    \<and> (date_as_bytes (cached c) = replicate 29 0
       \<or> (\<exists>now dt. datetime_from now = Ok dt \<and> date_as_bytes (cached c) = imf_fixdate dt \<and> 0 \<notin> set (imf_fixdate dt)))
    \<and> (if 0 \<le> st_secs now \<and> st_secs now < 253402300800
       then \<exists>dt. datetime_from now = Ok dt \<and> date_as_bytes (cached (cache_update now c)) = imf_fixdate dt
              \<and> updater (cache_update now c) = updater c
       else cache_update now c = c\<lparr>updater := Stopped\<rparr>)"
proof -
  note inv = cache_reach_inv [OF assms, unfolded cache_inv_def DATE_VALUE_LENGTH_def]
  then have "length (date_bytes (cached c)) = DATE_VALUE_LENGTH" by (simp add: DATE_VALUE_LENGTH_def)
  then show ?thesis
    using inv by (cases rule: cache_update_cases [where now = now]) (auto simp: date_as_bytes_def)
qed

theorem cached_date_witness:
  "\<exists>c. cache_reach c \<and> updater c = Updating \<and> (\<exists>dt. date_as_bytes (cached c) = imf_fixdate dt)"
proof -
  let ?now = "\<lparr>st_secs = 1000000000, st_nanos = 0\<rparr>"
  have w: "cache_reach (cache_wake cache_new)" by (rule wake [OF spawn]) (simp add: cache_new_def)
  have "cache_reach (cache_update ?now (cache_wake cache_new))" by (rule turn [OF w]) (simp add: cache_wake_def)
  with cached_date [OF w, of ?now] show ?thesis by (auto simp: cache_wake_def)
qed

end
