(* ===== verification/Memory.thy ===== *)
theory Memory
  imports BufMut
begin

text \<open>
  The memory that \<open>Bytes\<close> and \<open>BytesMut\<close> share: raw pointers, the blocks they point into, and the
  operations of the language and of \<open>alloc\<close> that the two types use on them.

  A pointer is an address with the block it was derived from. A block is a byte buffer (the
  allocation of a vector or of a boxed slice), static data, or one of the three boxes with a
  reference count. Following a pointer to a block that is gone, outside of its bounds, or of
  another type, freeing with another address or size than the allocation's, and reading a
  byte that was never written are \<open>UndefinedBehaviour\<close>. Blocks get fresh names and are not
  reused, so a use after free is always seen. The address of a new block is chosen by the
  allocator, which is a parameter. Running out of memory is not modelled.
\<close>

section \<open>Pointers, vectors and blocks\<close>

record ptr =
  prov :: "nat option"
  addr :: usize

record raw_vec =
  rv_ptr :: ptr
  rv_len :: usize
  rv_cap :: usize

text \<open>
  \<open>ArcShared\<close> is \<open>Shared\<close> of \<open>bytes.rs\<close> (its buffer, capacity and count), \<open>VecShared\<close> is \<open>Shared\<close> of
  \<open>bytes_mut.rs\<close> (its vector, the code of the original capacity, and the count), and \<open>Owned\<close> holds
  the count and the blocks that dropping the owner frees.
\<close>

datatype block =
    Buffer usize "u8 option list"
  | Static usize "u8 list"
  | ArcShared usize ptr usize usize
  | VecShared usize raw_vec usize usize
  | Owned usize usize "nat list"

record heap =
  blocks :: "nat \<Rightarrow> block option"
  fresh :: nat

text \<open>The build: whether debug assertions are on, and where the allocator puts a new block.\<close>

record build =
  debug :: bool
  place :: "heap \<Rightarrow> usize \<Rightarrow> usize \<Rightarrow> usize"

definition good_build :: "build \<Rightarrow> bool" where
  "good_build E \<longleftrightarrow> (\<forall>h n align. n \<le> isize_max \<and> align \<in> {1, 8} \<longrightarrow>
     place E h n align mod align = 0 \<and> 0 < place E h n align \<and> place E h n align + n \<le> usize_max)"

text \<open>A build to compute with.\<close>

definition plain_build :: build where
  "plain_build = \<lparr>debug = True, place = \<lambda>h n align. 64 * (1 + fresh h mod 2 ^ 32)\<rparr>"

definition empty_heap :: heap where
  "empty_heap = \<lparr>blocks = (\<lambda>_. None), fresh = 0\<rparr>"

lemma good_plain_build: "good_build plain_build"
  unfolding good_build_def
proof (intro allI impI)
  fix h :: heap and n align
  assume a: "n \<le> isize_max \<and> align \<in> {1, 8::nat}"
  define k where "k = fresh h mod 2 ^ 32"
  have "k < 2 ^ 32" by (simp add: k_def)
  then have "64 * (1 + k) + n \<le> usize_max" using a by (simp add: usize_max_def isize_max_def)
  then show "place plain_build h n align mod align = 0 \<and> 0 < place plain_build h n align
      \<and> place plain_build h n align + n \<le> usize_max"
    using a by (auto simp: plain_build_def k_def)
qed

section \<open>Actions on the heap\<close>

type_synonym 'a act = "heap \<Rightarrow> ('a \<times> heap) outcome"

definition ret :: "'a \<Rightarrow> 'a act" where
  "ret x = (\<lambda>h. Ok (x, h))"

definition bind :: "'a act \<Rightarrow> ('a \<Rightarrow> 'b act) \<Rightarrow> 'b act" where
  "bind m f = (\<lambda>h. obind (m h) (\<lambda>(x, h'). f x h'))"

definition lift :: "'a outcome \<Rightarrow> 'a act" where
  "lift r = (\<lambda>h. omap (\<lambda>x. (x, h)) r)"

definition require :: "bool \<Rightarrow> fault \<Rightarrow> unit act" where
  "require c e = lift (guard c e)"

definition debug_assert :: "build \<Rightarrow> bool \<Rightarrow> unit act" where
  "debug_assert E c = require (debug E \<longrightarrow> c) PanicAssert"

lemma ret_apply [simp]: "ret x h = Ok (x, h)"
  by (simp add: ret_def)

lemma bind_apply [simp]: "bind m f h = obind (m h) (\<lambda>(x, h'). f x h')"
  by (simp add: bind_def)

lemma lift_apply [simp]: "lift r h = omap (\<lambda>x. (x, h)) r"
  by (simp add: lift_def)

lemma require_apply [simp]:
  "c \<Longrightarrow> require c e h = Ok ((), h)" "\<not> c \<Longrightarrow> require c e h = Fault e"
  by (simp_all add: require_def)

lemma debug_assert_apply [simp]: "c \<Longrightarrow> debug_assert E c h = Ok ((), h)"
  by (simp add: debug_assert_def)

section \<open>Pointers\<close>

definition null :: ptr where
  "null = \<lparr>prov = None, addr = 0\<rparr>"

definition without_provenance :: "usize \<Rightarrow> ptr" where
  "without_provenance a = \<lparr>prov = None, addr = a\<rparr>"

definition wrapping_add :: "ptr \<Rightarrow> usize \<Rightarrow> ptr" where
  "wrapping_add p n = p\<lparr>addr := (addr p + n) mod 2 ^ 64\<rparr>"

definition ptr_map :: "ptr \<Rightarrow> (usize \<Rightarrow> usize) \<Rightarrow> ptr" where
  "ptr_map p f =
     (let old_address = addr p; new_address = f old_address;
          diff = nat ((int new_address - int old_address) mod 2 ^ 64)
      in wrapping_add p diff)"

text \<open>\<open>a + b\<close> and \<open>a - b\<close> on \<open>usize\<close>: an overflow panics in a debug build and wraps otherwise.\<close>

definition usize_add :: "build \<Rightarrow> usize \<Rightarrow> usize \<Rightarrow> usize outcome" where
  "usize_add E a b =
     (if a + b \<le> usize_max then Ok (a + b)
      else if debug E then Fault PanicOverflow else Ok ((a + b) mod 2 ^ 64))"

definition usize_sub :: "build \<Rightarrow> usize \<Rightarrow> usize \<Rightarrow> usize outcome" where
  "usize_sub E a b =
     (if b \<le> a then Ok (a - b)
      else if debug E then Fault PanicOverflow else Ok (a + 2 ^ 64 - b))"

text \<open>\<open>offset_from\<close>: a plain subtraction of the addresses.\<close>

definition offset_from :: "build \<Rightarrow> ptr \<Rightarrow> ptr \<Rightarrow> usize outcome" where
  "offset_from E dst original = usize_sub E (addr dst) (addr original)"

text \<open>\<open>ptr.add(n)\<close> and \<open>ptr.sub(n)\<close>, whose result is only followed after a check of the bounds.\<close>

definition ptr_add :: "ptr \<Rightarrow> usize \<Rightarrow> ptr" where
  "ptr_add p n = p\<lparr>addr := addr p + n\<rparr>"

definition ptr_sub :: "ptr \<Rightarrow> usize \<Rightarrow> ptr outcome" where
  "ptr_sub p n = (if n \<le> addr p then Ok (p\<lparr>addr := addr p - n\<rparr>) else Fault UndefinedBehaviour)"

lemma ptr_add_simps [simp]:
  "prov (ptr_add p n) = prov p" "addr (ptr_add p n) = addr p + n" "ptr_add p 0 = p"
  "ptr_add (ptr_add p m) n = ptr_add p (m + n)"
  by (simp_all add: ptr_add_def)

lemma ptr_sub_add [simp]: "ptr_sub (ptr_add p n) n = Ok p"
  by (simp add: ptr_sub_def ptr_add_def)

section \<open>Reading and writing buffers\<close>

text \<open>The cells of a block that holds bytes.\<close>

primrec cells_of :: "block \<Rightarrow> (usize \<times> u8 option list) option" where
  "cells_of (Buffer base cells) = Some (base, cells)"
| "cells_of (Static base bs) = Some (base, map Some bs)"
| "cells_of (ArcShared _ _ _ _) = None"
| "cells_of (VecShared _ _ _ _) = None"
| "cells_of (Owned _ _ _) = None"

definition get_cells :: "ptr \<Rightarrow> usize \<Rightarrow> u8 option list act" where
  "get_cells p n = (\<lambda>h.
     if n = 0 then Ok ([], h)
     else case Option.bind (Option.bind (prov p) (blocks h)) cells_of of
            None \<Rightarrow> Fault UndefinedBehaviour
          | Some (base, cells) \<Rightarrow>
              if base \<le> addr p \<and> addr p + n \<le> base + length cells
              then Ok (take n (drop (addr p - base) cells), h)
              else Fault UndefinedBehaviour)"

text \<open>\<open>slice::from_raw_parts\<close>, and the reading of all its bytes.\<close>

definition read_slice :: "ptr \<Rightarrow> usize \<Rightarrow> u8 list act" where
  "read_slice p n =
     bind (get_cells p n) (\<lambda>cells.
       if None \<in> set cells then lift (Fault UndefinedBehaviour) else ret (map the cells))"

definition put_cells :: "ptr \<Rightarrow> u8 option list \<Rightarrow> unit act" where
  "put_cells p new = (\<lambda>h.
     if new = [] then Ok ((), h)
     else case prov p of
            None \<Rightarrow> Fault UndefinedBehaviour
          | Some b \<Rightarrow>
              (case blocks h b of
                 Some (Buffer base cells) \<Rightarrow>
                   if base \<le> addr p \<and> addr p + length new \<le> base + length cells
                   then Ok ((), h\<lparr>blocks := (blocks h)
                          (b := Some (Buffer base (overwrite cells (addr p - base) new)))\<rparr>)
                   else Fault UndefinedBehaviour
               | _ \<Rightarrow> Fault UndefinedBehaviour))"

text \<open>\<open>ptr::copy\<close>, also for \<open>ptr::copy_nonoverlapping\<close> where the stretches are apart.\<close>

definition ptr_copy :: "ptr \<Rightarrow> ptr \<Rightarrow> usize \<Rightarrow> unit act" where
  "ptr_copy src dst n = bind (get_cells src n) (\<lambda>cells. put_cells dst cells)"

definition ptr_copy_nonoverlapping :: "ptr \<Rightarrow> ptr \<Rightarrow> usize \<Rightarrow> unit act" where
  "ptr_copy_nonoverlapping src dst n =
     (if prov src = prov dst \<and> addr src < addr dst + n \<and> addr dst < addr src + n \<and> 0 < n
      then lift (Fault UndefinedBehaviour) else ptr_copy src dst n)"

section \<open>Allocation\<close>

text \<open>The alignment of the boxes is that of a \<open>usize\<close>.\<close>

definition new_block :: "build \<Rightarrow> usize \<Rightarrow> usize \<Rightarrow> (usize \<Rightarrow> block) \<Rightarrow> ptr act" where
  "new_block E sz align mk = (\<lambda>h.
     let base = place E h sz align in
     Ok (\<lparr>prov = Some (fresh h), addr = base\<rparr>,
         h\<lparr>blocks := (blocks h)(fresh h := Some (mk base)), fresh := Suc (fresh h)\<rparr>))"

definition free_block :: "nat \<Rightarrow> unit act" where
  "free_block b = (\<lambda>h. Ok ((), h\<lparr>blocks := (blocks h)(b := None)\<rparr>))"

definition dealloc :: "ptr \<Rightarrow> usize \<Rightarrow> unit act" where
  "dealloc p sz = (\<lambda>h.
     case prov p of
       None \<Rightarrow> Fault UndefinedBehaviour
     | Some b \<Rightarrow>
         (case blocks h b of
            Some (Buffer base cells) \<Rightarrow>
              if base = addr p \<and> length cells = sz \<and> 0 < sz then free_block b h
              else Fault UndefinedBehaviour
          | _ \<Rightarrow> Fault UndefinedBehaviour))"

section \<open>Vectors of bytes\<close>

definition dangling :: ptr where
  "dangling = without_provenance 1"

definition rv_new :: raw_vec where
  "rv_new = \<lparr>rv_ptr = dangling, rv_len = 0, rv_cap = 0\<rparr>"

definition rv_with_capacity :: "build \<Rightarrow> usize \<Rightarrow> raw_vec act" where
  "rv_with_capacity E n =
     (if n = 0 then ret rv_new
      else bind (require (n \<le> isize_max) PanicExplicit) (\<lambda>_.
           bind (new_block E n 1 (\<lambda>base. Buffer base (replicate n None))) (\<lambda>p.
             ret \<lparr>rv_ptr = p, rv_len = 0, rv_cap = n\<rparr>)))"

text \<open>\<open>Vec::from_raw_parts\<close>: the allocation must be one of exactly this capacity.\<close>

definition rv_from_raw_parts :: "ptr \<Rightarrow> usize \<Rightarrow> usize \<Rightarrow> raw_vec act" where
  "rv_from_raw_parts p len cap = (\<lambda>h.
     let v = \<lparr>rv_ptr = p, rv_len = len, rv_cap = cap\<rparr> in
     if cap = 0 then (if len = 0 then Ok (v, h) else Fault UndefinedBehaviour)
     else case Option.bind (prov p) (blocks h) of
            Some (Buffer base cells) \<Rightarrow>
              if base = addr p \<and> length cells = cap \<and> len \<le> cap then Ok (v, h)
              else Fault UndefinedBehaviour
          | _ \<Rightarrow> Fault UndefinedBehaviour)"

definition rv_drop :: "raw_vec \<Rightarrow> unit act" where
  "rv_drop v = (if rv_cap v = 0 then ret () else dealloc (rv_ptr v) (rv_cap v))"

text \<open>Growing moves the bytes to a new block and frees the old one.\<close>

definition rv_realloc :: "build \<Rightarrow> raw_vec \<Rightarrow> usize \<Rightarrow> raw_vec act" where
  "rv_realloc E v cap =
     bind (get_cells (rv_ptr v) (rv_cap v)) (\<lambda>cells.
     bind (new_block E cap 1 (\<lambda>base. Buffer base (cells @ replicate (cap - length cells) None))) (\<lambda>p.
     bind (rv_drop v) (\<lambda>_.
       ret (v\<lparr>rv_ptr := p, rv_cap := cap\<rparr>))))"

definition rv_reserve :: "build \<Rightarrow> raw_vec \<Rightarrow> usize \<Rightarrow> raw_vec act" where
  "rv_reserve E v additional =
     (if additional \<le> rv_cap v - rv_len v then ret v
      else let cap = vec_grown (rv_cap v) (rv_len v + additional) in
           bind (require (cap \<le> isize_max) PanicExplicit) (\<lambda>_. rv_realloc E v cap))"

text \<open>A new vector with the given bytes, as \<open>to_vec\<close> and \<open>vec![..]\<close> make one.\<close>

definition rv_of_list :: "build \<Rightarrow> u8 list \<Rightarrow> raw_vec act" where
  "rv_of_list E bs =
     bind (rv_with_capacity E (length bs)) (\<lambda>v.
     bind (put_cells (rv_ptr v) (map Some bs)) (\<lambda>_.
       ret (v\<lparr>rv_len := length bs\<rparr>)))"

end
