(* ===== verification/Bytes_Mut.thy ===== *)
theory Bytes_Mut
  imports Memory
begin

text \<open>
  \<open>BytesMut\<close> (\<open>bytes/src/bytes_mut.rs\<close>): a unique handle to a stretch of a vector's allocation. The
  word \<open>data\<close> is tagged by its lowest bit: either it packs the position of the handle in the
  vector and a code of the original capacity (\<open>KIND_VEC\<close>), or it points to a \<open>Shared\<close> box that owns
  the vector and counts the handles into it (\<open>KIND_ARC\<close>).

  The operations that make or take a \<open>Bytes\<close> follow in \<open>Bytes_Handle\<close>.
\<close>

section \<open>The handle and its tag\<close>

record bytes_mut =
  bm_ptr :: ptr
  bm_len :: usize
  bm_cap :: usize
  bm_data :: ptr

definition KIND_ARC :: usize where "KIND_ARC = 0"

definition KIND_VEC :: usize where "KIND_VEC = 1"

definition KIND_MASK :: usize where "KIND_MASK = 1"

definition MAX_ORIGINAL_CAPACITY_WIDTH :: usize where "MAX_ORIGINAL_CAPACITY_WIDTH = 17"

definition MIN_ORIGINAL_CAPACITY_WIDTH :: usize where "MIN_ORIGINAL_CAPACITY_WIDTH = 10"

definition ORIGINAL_CAPACITY_MASK :: usize where "ORIGINAL_CAPACITY_MASK = 28"

definition ORIGINAL_CAPACITY_OFFSET :: usize where "ORIGINAL_CAPACITY_OFFSET = 2"

definition VEC_POS_OFFSET :: usize where "VEC_POS_OFFSET = 5"

definition MAX_VEC_POS :: usize where "MAX_VEC_POS = drop_bit VEC_POS_OFFSET usize_max"

definition NOT_VEC_POS_MASK :: usize where "NOT_VEC_POS_MASK = 31"

definition PTR_WIDTH :: usize where "PTR_WIDTH = 64"

text \<open>\<open>leading_zeros\<close> of a \<open>usize\<close>.\<close>

fun bit_width :: "nat \<Rightarrow> nat" where
  "bit_width n = (if n = 0 then 0 else Suc (bit_width (n div 2)))"

declare bit_width.simps [simp del]

definition leading_zeros :: "usize \<Rightarrow> nat" where
  "leading_zeros n = PTR_WIDTH - bit_width n"

definition original_capacity_to_repr :: "usize \<Rightarrow> usize" where
  "original_capacity_to_repr cap =
     (let width = PTR_WIDTH - leading_zeros (drop_bit MIN_ORIGINAL_CAPACITY_WIDTH cap)
      in min width (MAX_ORIGINAL_CAPACITY_WIDTH - MIN_ORIGINAL_CAPACITY_WIDTH))"

definition original_capacity_from_repr :: "usize \<Rightarrow> usize" where
  "original_capacity_from_repr repr =
     (if repr = 0 then 0 else push_bit (repr + (MIN_ORIGINAL_CAPACITY_WIDTH - 1)) 1)"

definition invalid_ptr :: "usize \<Rightarrow> ptr" where
  "invalid_ptr a = without_provenance a"

definition vptr :: "build \<Rightarrow> ptr \<Rightarrow> ptr outcome" where
  "vptr E p = (if addr p \<noteq> 0 then Ok p else if debug E then Fault PanicExpect else Fault UndefinedBehaviour)"

definition kind :: "bytes_mut \<Rightarrow> usize" where
  "kind self = addr (bm_data self) AND KIND_MASK"

definition get_vec_pos :: "build \<Rightarrow> bytes_mut \<Rightarrow> usize act" where
  "get_vec_pos E self =
     bind (debug_assert E (kind self = KIND_VEC)) (\<lambda>_.
       ret (drop_bit VEC_POS_OFFSET (addr (bm_data self))))"

definition set_vec_pos :: "build \<Rightarrow> bytes_mut \<Rightarrow> usize \<Rightarrow> bytes_mut act" where
  "set_vec_pos E self pos =
     bind (debug_assert E (kind self = KIND_VEC)) (\<lambda>_.
     bind (debug_assert E (pos \<le> MAX_VEC_POS)) (\<lambda>_.
       ret (self\<lparr>bm_data := invalid_ptr (take_bit 64 (push_bit VEC_POS_OFFSET pos)
                                  OR (addr (bm_data self) AND NOT_VEC_POS_MASK))\<rparr>)))"

definition rebuild_vec :: "ptr \<Rightarrow> usize \<Rightarrow> usize \<Rightarrow> usize \<Rightarrow> raw_vec act" where
  "rebuild_vec p len cap off =
     bind (lift (ptr_sub p off)) (\<lambda>p'. rv_from_raw_parts p' (len + off) (cap + off))"

section \<open>The shared box\<close>

text \<open>The vector, the code and the count of the box behind \<open>data\<close>.\<close>

definition get_shared :: "ptr \<Rightarrow> (raw_vec \<times> usize \<times> usize) act" where
  "get_shared p = (\<lambda>h.
     case Option.bind (prov p) (blocks h) of
       Some (VecShared base v r n) \<Rightarrow>
         if base = addr p then Ok ((v, r, n), h) else Fault UndefinedBehaviour
     | _ \<Rightarrow> Fault UndefinedBehaviour)"

definition set_shared :: "ptr \<Rightarrow> raw_vec \<times> usize \<times> usize \<Rightarrow> unit act" where
  "set_shared p s = (\<lambda>h.
     case s of (v, r, n) \<Rightarrow>
       (case prov p of None \<Rightarrow> Fault UndefinedBehaviour
        | Some b \<Rightarrow>
            Ok ((), h\<lparr>blocks := (blocks h)(b := Some (VecShared (addr p) v r n))\<rparr>)))"

text \<open>\<open>drop(Box::from_raw(ptr))\<close>: the box goes, and the vector in it with its allocation.\<close>

definition drop_shared :: "ptr \<Rightarrow> unit act" where
  "drop_shared p =
     bind (get_shared p) (\<lambda>(v, r, n).
     bind (rv_drop v) (\<lambda>_. free_block (the (prov p))))"

definition increment_shared :: "ptr \<Rightarrow> unit act" where
  "increment_shared p =
     bind (get_shared p) (\<lambda>(v, r, old_size).
     bind (set_shared p (v, r, (old_size + 1) mod 2 ^ 64)) (\<lambda>_.
       require (old_size \<le> isize_max) AbortProcess))"

definition release_shared :: "ptr \<Rightarrow> unit act" where
  "release_shared p =
     bind (get_shared p) (\<lambda>(v, r, n).
     bind (set_shared p (v, r, (n + 2 ^ 64 - 1) mod 2 ^ 64)) (\<lambda>_.
       if n \<noteq> 1 then ret () else drop_shared p))"

definition shared_unique :: "ptr \<Rightarrow> bool act" where
  "shared_unique p = bind (get_shared p) (\<lambda>(v, r, n). ret (n = 1))"

definition promote_to_shared :: "build \<Rightarrow> bytes_mut \<Rightarrow> usize \<Rightarrow> bytes_mut act" where
  "promote_to_shared E self ref_cnt =
     bind (debug_assert E (kind self = KIND_VEC)) (\<lambda>_.
     bind (debug_assert E (ref_cnt = 1 \<or> ref_cnt = 2)) (\<lambda>_.
     let repr = drop_bit ORIGINAL_CAPACITY_OFFSET (addr (bm_data self) AND ORIGINAL_CAPACITY_MASK);
         off = drop_bit VEC_POS_OFFSET (addr (bm_data self))
     in bind (rebuild_vec (bm_ptr self) (bm_len self) (bm_cap self) off) (\<lambda>v.
        bind (new_block E 40 8 (\<lambda>base. VecShared base v repr ref_cnt)) (\<lambda>shared.
        bind (debug_assert E (addr shared AND KIND_MASK = KIND_ARC)) (\<lambda>_.
          ret (self\<lparr>bm_data := shared\<rparr>))))))"

definition shallow_clone :: "build \<Rightarrow> bytes_mut \<Rightarrow> (bytes_mut \<times> bytes_mut) act" where
  "shallow_clone E self =
     (if kind self = KIND_ARC
      then bind (increment_shared (bm_data self)) (\<lambda>_. ret (self, self))
      else bind (promote_to_shared E self 2) (\<lambda>self. ret (self, self)))"

section \<open>Making, reading and shrinking\<close>

definition bm_from_vec :: "build \<Rightarrow> raw_vec \<Rightarrow> bytes_mut outcome" where
  "bm_from_vec E v =
     obind (vptr E (rv_ptr v)) (\<lambda>p.
       let repr = original_capacity_to_repr (rv_cap v);
           data = push_bit ORIGINAL_CAPACITY_OFFSET repr OR KIND_VEC
       in Ok \<lparr>bm_ptr = p, bm_len = rv_len v, bm_cap = rv_cap v, bm_data = invalid_ptr data\<rparr>)"

definition bm_with_capacity :: "build \<Rightarrow> usize \<Rightarrow> bytes_mut act" where
  "bm_with_capacity E n = bind (rv_with_capacity E n) (\<lambda>v. lift (bm_from_vec E v))"

definition bm_new :: "build \<Rightarrow> bytes_mut act" where
  "bm_new E = bm_with_capacity E 0"

definition bm_zeroed :: "build \<Rightarrow> usize \<Rightarrow> bytes_mut act" where
  "bm_zeroed E n = bind (rv_of_list E (replicate n 0)) (\<lambda>v. lift (bm_from_vec E v))"

definition bm_from_slice :: "build \<Rightarrow> u8 list \<Rightarrow> bytes_mut act" where
  "bm_from_slice E bs = bind (rv_of_list E bs) (\<lambda>v. lift (bm_from_vec E v))"

definition bm_is_empty :: "bytes_mut \<Rightarrow> bool" where
  "bm_is_empty self = (bm_len self = 0)"

definition bm_as_slice :: "bytes_mut \<Rightarrow> u8 list act" where
  "bm_as_slice self = read_slice (bm_ptr self) (bm_len self)"

text \<open>An assignment to one byte through \<open>as_slice_mut\<close>, which \<open>as_mut\<close>, \<open>deref_mut\<close> and \<open>borrow_mut\<close> give.\<close>

definition bm_slice_set :: "bytes_mut \<Rightarrow> usize \<Rightarrow> u8 \<Rightarrow> bytes_mut act" where
  "bm_slice_set self i b =
     (if i < bm_len self then bind (put_cells (ptr_add (bm_ptr self) i) [Some b]) (\<lambda>_. ret self)
      else lift (Fault PanicIndex))"

definition bm_set_len :: "build \<Rightarrow> bytes_mut \<Rightarrow> usize \<Rightarrow> bytes_mut act" where
  "bm_set_len E self len =
     bind (debug_assert E (len \<le> bm_cap self)) (\<lambda>_. ret (self\<lparr>bm_len := len\<rparr>))"

definition bm_truncate :: "build \<Rightarrow> bytes_mut \<Rightarrow> usize \<Rightarrow> bytes_mut act" where
  "bm_truncate E self len =
     (if len \<le> bm_len self then bm_set_len E self len else ret self)"

definition bm_clear :: "build \<Rightarrow> bytes_mut \<Rightarrow> bytes_mut act" where
  "bm_clear E self = bm_set_len E self 0"

definition advance_unchecked :: "build \<Rightarrow> bytes_mut \<Rightarrow> usize \<Rightarrow> bytes_mut act" where
  "advance_unchecked E self count =
     (if count = 0 then ret self
      else bind (debug_assert E (count \<le> bm_cap self)) (\<lambda>_.
           bind (if kind self = KIND_VEC
                 then bind (get_vec_pos E self) (\<lambda>vec_pos.
                      let pos = vec_pos + count
                      in if pos \<le> MAX_VEC_POS then set_vec_pos E self pos
                         else promote_to_shared E self 1)
                 else ret self) (\<lambda>self.
           bind (lift (vptr E (ptr_add (bm_ptr self) count))) (\<lambda>p.
             ret (self\<lparr>bm_ptr := p,
                       bm_len := (case checked_sub (bm_len self) count of Some n \<Rightarrow> n | None \<Rightarrow> 0),
                       bm_cap := bm_cap self - count\<rparr>)))))"

definition bm_advance :: "build \<Rightarrow> bytes_mut \<Rightarrow> usize \<Rightarrow> bytes_mut act" where
  "bm_advance E self cnt =
     bind (require (cnt \<le> bm_len self) PanicAssert) (\<lambda>_. advance_unchecked E self cnt)"

section \<open>Splitting\<close>

text \<open>Each returns the new handle with \<open>self\<close>.\<close>

definition bm_split_off :: "build \<Rightarrow> bytes_mut \<Rightarrow> usize \<Rightarrow> (bytes_mut \<times> bytes_mut) act" where
  "bm_split_off E self at =
     bind (require (at \<le> bm_cap self) PanicAssert) (\<lambda>_.
     bind (shallow_clone E self) (\<lambda>(other, self).
     bind (advance_unchecked E other at) (\<lambda>other.
       ret (other, self\<lparr>bm_cap := at, bm_len := min (bm_len self) at\<rparr>))))"

definition bm_split_to :: "build \<Rightarrow> bytes_mut \<Rightarrow> usize \<Rightarrow> (bytes_mut \<times> bytes_mut) act" where
  "bm_split_to E self at =
     bind (require (at \<le> bm_len self) PanicAssert) (\<lambda>_.
     bind (shallow_clone E self) (\<lambda>(other, self).
     bind (advance_unchecked E self at) (\<lambda>self.
       ret (other\<lparr>bm_cap := at, bm_len := at\<rparr>, self))))"

definition bm_split :: "build \<Rightarrow> bytes_mut \<Rightarrow> (bytes_mut \<times> bytes_mut) act" where
  "bm_split E self = bm_split_to E self (bm_len self)"

section \<open>Growing\<close>

text \<open>The first half of \<open>reserve_inner\<close>: the handle owns its vector alone.\<close>

definition reserve_vec :: "build \<Rightarrow> bytes_mut \<Rightarrow> usize \<Rightarrow> bool \<Rightarrow> (bool \<times> bytes_mut) act" where
  "reserve_vec E self additional allocate =
     bind (get_vec_pos E self) (\<lambda>off.
       if bm_cap self - bm_len self + off \<ge> additional \<and> off \<ge> bm_len self
       then bind (lift (ptr_sub (bm_ptr self) off)) (\<lambda>base_ptr.
            bind (ptr_copy_nonoverlapping (bm_ptr self) base_ptr (bm_len self)) (\<lambda>_.
            bind (lift (vptr E base_ptr)) (\<lambda>p.
            bind (set_vec_pos E (self\<lparr>bm_ptr := p\<rparr>) 0) (\<lambda>self.
              ret (True, self\<lparr>bm_cap := bm_cap self + off\<rparr>)))))
       else if \<not> allocate then ret (False, self)
       else bind (rebuild_vec (bm_ptr self) (bm_len self) (bm_cap self) off) (\<lambda>v.
            bind (rv_reserve E v additional) (\<lambda>v.
            bind (lift (vptr E (ptr_add (rv_ptr v) off))) (\<lambda>p.
            bind (debug_assert E (bm_len self = rv_len v - off)) (\<lambda>_.
              ret (True, self\<lparr>bm_ptr := p, bm_cap := rv_cap v - off\<rparr>))))))"

text \<open>\<open>reserve_inner\<close> for the only handle of a shared vector.\<close>

definition reserve_unique ::
    "build \<Rightarrow> bytes_mut \<Rightarrow> usize \<Rightarrow> bool \<Rightarrow> (bool \<times> bytes_mut) act" where
  "reserve_unique E self new_cap allocate =
     bind (get_shared (bm_data self)) (\<lambda>(v, r, n).
     bind (lift (offset_from E (bm_ptr self) (rv_ptr v))) (\<lambda>off.
     bind (lift (usize_add E new_cap off)) (\<lambda>needed.
       if rv_cap v \<ge> needed then ret (True, self\<lparr>bm_cap := new_cap\<rparr>)
       else if rv_cap v \<ge> new_cap \<and> off \<ge> bm_len self
       then bind (ptr_copy_nonoverlapping (bm_ptr self) (rv_ptr v) (bm_len self)) (\<lambda>_.
            bind (lift (vptr E (rv_ptr v))) (\<lambda>p.
              ret (True, self\<lparr>bm_ptr := p, bm_cap := rv_cap v\<rparr>)))
       else if \<not> allocate then ret (False, self)
       else bind (lift (case checked_add new_cap off of Some x \<Rightarrow> Ok x | None \<Rightarrow> Fault PanicExpect)) (\<lambda>new_cap.
            let double = (rv_cap v * 2) mod 2 ^ 64;
                new_cap = max double new_cap
            in bind (debug_assert E (off + bm_len self \<le> rv_cap v)) (\<lambda>_.
               let v = v\<lparr>rv_len := off + bm_len self\<rparr>
               in bind (rv_reserve E v (new_cap - rv_len v)) (\<lambda>v.
                  bind (set_shared (bm_data self) (v, r, n)) (\<lambda>_.
                  bind (lift (vptr E (ptr_add (rv_ptr v) off))) (\<lambda>p.
                    ret (True, self\<lparr>bm_ptr := p, bm_cap := rv_cap v - off\<rparr>)))))))))"

text \<open>\<open>reserve_inner\<close> when other handles share the vector: the bytes move to a new one.\<close>

definition reserve_copy :: "build \<Rightarrow> bytes_mut \<Rightarrow> usize \<Rightarrow> bytes_mut act" where
  "reserve_copy E self new_cap =
     bind (get_shared (bm_data self)) (\<lambda>(_, original_capacity_repr, _).
       let new_cap = max new_cap (original_capacity_from_repr original_capacity_repr)
       in bind (rv_with_capacity E new_cap) (\<lambda>v.
          bind (bm_as_slice self) (\<lambda>bs.
          bind (rv_reserve E v (length bs)) (\<lambda>v.
          bind (put_cells (rv_ptr v) (map Some bs)) (\<lambda>_.
          bind (release_shared (bm_data self)) (\<lambda>_.
          bind (lift (vptr E (rv_ptr v))) (\<lambda>p.
          bind (debug_assert E (bm_len self = length bs)) (\<lambda>_.
            ret (self\<lparr>bm_data := invalid_ptr
                         (push_bit ORIGINAL_CAPACITY_OFFSET original_capacity_repr OR KIND_VEC),
                      bm_ptr := p, bm_cap := rv_cap v\<rparr>)))))))))"

definition reserve_inner :: "build \<Rightarrow> bytes_mut \<Rightarrow> usize \<Rightarrow> bool \<Rightarrow> (bool \<times> bytes_mut) act" where
  "reserve_inner E self additional allocate =
     (if kind self = KIND_VEC then reserve_vec E self additional allocate
      else bind (debug_assert E (kind self = KIND_ARC)) (\<lambda>_.
        case checked_add (bm_len self) additional of
          None \<Rightarrow> if \<not> allocate then ret (False, self) else lift (Fault PanicExplicit)
        | Some new_cap \<Rightarrow>
            bind (shared_unique (bm_data self)) (\<lambda>unique.
              if unique then reserve_unique E self new_cap allocate
              else if \<not> allocate then ret (False, self)
              else bind (reserve_copy E self new_cap) (\<lambda>self. ret (True, self)))))"

definition bm_reserve :: "build \<Rightarrow> bytes_mut \<Rightarrow> usize \<Rightarrow> bytes_mut act" where
  "bm_reserve E self additional =
     (if additional \<le> bm_cap self - bm_len self then ret self
      else bind (reserve_inner E self additional True) (\<lambda>(_, self). ret self))"

definition bm_try_reclaim :: "build \<Rightarrow> bytes_mut \<Rightarrow> usize \<Rightarrow> (bool \<times> bytes_mut) act" where
  "bm_try_reclaim E self additional =
     (if additional \<le> bm_cap self - bm_len self then ret (True, self)
      else reserve_inner E self additional True)"

section \<open>Writing\<close>

definition bm_remaining_mut :: "bytes_mut \<Rightarrow> usize" where
  "bm_remaining_mut self = usize_max - bm_len self"

definition bm_advance_mut :: "bytes_mut \<Rightarrow> usize \<Rightarrow> bytes_mut outcome" where
  "bm_advance_mut self cnt =
     (let rem = bm_cap self - bm_len self
      in if cnt > rem then Fault (PanicAdvance cnt rem) else Ok (self\<lparr>bm_len := bm_len self + cnt\<rparr>))"

text \<open>\<open>spare_capacity_mut\<close>: where the spare bytes are and how many.\<close>

definition spare_capacity_mut :: "bytes_mut \<Rightarrow> ptr \<times> usize" where
  "spare_capacity_mut self = (ptr_add (bm_ptr self) (bm_len self), bm_cap self - bm_len self)"

definition bm_chunk_mut :: "build \<Rightarrow> bytes_mut \<Rightarrow> (usize \<times> bytes_mut) act" where
  "bm_chunk_mut E self =
     bind (if bm_cap self = bm_len self then bm_reserve E self 64 else ret self) (\<lambda>self.
       ret (snd (spare_capacity_mut self), self))"

definition bm_extend_from_slice :: "build \<Rightarrow> bytes_mut \<Rightarrow> u8 list \<Rightarrow> bytes_mut act" where
  "bm_extend_from_slice E self ext =
     (let cnt = length ext
      in bind (bm_reserve E self cnt) (\<lambda>self.
         case spare_capacity_mut self of (dst, dst_len) \<Rightarrow>
         bind (debug_assert E (dst_len \<ge> cnt)) (\<lambda>_.
         bind (put_cells dst (map Some ext)) (\<lambda>_.
           lift (bm_advance_mut self cnt)))))"

definition bm_put_slice :: "build \<Rightarrow> bytes_mut \<Rightarrow> u8 list \<Rightarrow> bytes_mut act" where
  "bm_put_slice E self src = bm_extend_from_slice E self src"

definition bm_put_bytes :: "build \<Rightarrow> bytes_mut \<Rightarrow> u8 \<Rightarrow> usize \<Rightarrow> bytes_mut act" where
  "bm_put_bytes E self val cnt =
     bind (bm_reserve E self cnt) (\<lambda>self.
     case spare_capacity_mut self of (dst, dst_len) \<Rightarrow>
     bind (debug_assert E (dst_len \<ge> cnt)) (\<lambda>_.
     bind (put_cells dst (replicate cnt (Some val))) (\<lambda>_.
       lift (bm_advance_mut self cnt))))"

text \<open>
  The traits: a handle with its heap is a buffer that can be read and written. \<open>chunk\<close> is the
  slice of the handle, and what a caller stores through \<open>chunk_mut\<close> goes to the spare capacity.
\<close>

definition bm_chunk :: "bytes_mut \<times> heap \<Rightarrow> u8 list" where
  "bm_chunk s = (case s of (self, h) \<Rightarrow> (case bm_as_slice self h of Ok (bs, _) \<Rightarrow> bs | Fault _ \<Rightarrow> []))"

definition bm_chunk_write :: "bytes_mut \<times> heap \<Rightarrow> u8 list \<Rightarrow> bytes_mut \<times> heap" where
  "bm_chunk_write s bs = (case s of (self, h) \<Rightarrow>
     (case put_cells (fst (spare_capacity_mut self)) (map Some bs) h of
        Ok (_, h') \<Rightarrow> (self, h') | Fault _ \<Rightarrow> (self, h)))"

definition bm_required :: "build \<Rightarrow> (bytes_mut \<times> heap) buf_required" where
  "bm_required E =
     \<lparr>req_remaining = (\<lambda>(self, h). bm_len self),
      req_chunk = bm_chunk,
      req_advance = (\<lambda>(self, h) cnt. bm_advance E self cnt h)\<rparr>"

definition bm_bufmut :: "build \<Rightarrow> (bytes_mut \<times> heap) bufmut_ops" where
  "bm_bufmut E =
     \<lparr>remaining_mut = (\<lambda>(self, h). bm_remaining_mut self),
      advance_mut = (\<lambda>(self, h) cnt. lift (bm_advance_mut self cnt) h),
      chunk_mut = (\<lambda>(self, h). omap (\<lambda>((n, self), h). (n, self, h)) (bm_chunk_mut E self h)),
      chunk_write = bm_chunk_write,
      put_slice = (\<lambda>(self, h) src. bm_put_slice E self src h),
      put_bytes = (\<lambda>(self, h) val cnt. bm_put_bytes E self val cnt h)\<rparr>"

text \<open>\<open>BufMut::put\<close> as \<open>BytesMut\<close> specialises it.\<close>

definition bm_put :: "build \<Rightarrow> 's buf_ops \<Rightarrow> bytes_mut \<Rightarrow> 's \<Rightarrow> ('s \<times> bytes_mut) act" where
  "bm_put E S self src = (\<lambda>h.
     omap (\<lambda>(src, self, h). ((src, self), h))
       (loop (\<lambda>(src, self, h). has_remaining S src)
         (\<lambda>(src, self, h).
            let s = chunk S src; l = length s in
            obind (bm_extend_from_slice E self s h) (\<lambda>(self', h').
            obind (advance S src l) (\<lambda>src'. Ok (src', self', h'))))
         (src, self, h)))"

definition bm_resize :: "build \<Rightarrow> bytes_mut \<Rightarrow> usize \<Rightarrow> u8 \<Rightarrow> bytes_mut act" where
  "bm_resize E self new_len val =
     (case checked_sub new_len (bm_len self) of
        None \<Rightarrow> bm_truncate E self new_len
      | Some additional \<Rightarrow>
          if additional = 0 then ret self
          else bind (bm_reserve E self additional) (\<lambda>self.
               bind (put_cells (fst (spare_capacity_mut self)) (replicate additional (Some val))) (\<lambda>_.
                 bm_set_len E self new_len)))"

definition bm_write_str :: "build \<Rightarrow> bytes_mut \<Rightarrow> u8 list \<Rightarrow> (bool \<times> bytes_mut) act" where
  "bm_write_str E self s =
     (if bm_remaining_mut self \<ge> length s
      then bind (bm_put_slice E self s) (\<lambda>self. ret (True, self))
      else ret (False, self))"

definition bm_clone :: "build \<Rightarrow> bytes_mut \<Rightarrow> bytes_mut act" where
  "bm_clone E self = bind (bm_as_slice self) (\<lambda>bs. bm_from_slice E bs)"

section \<open>Dropping and joining\<close>

definition bm_drop :: "build \<Rightarrow> bytes_mut \<Rightarrow> unit act" where
  "bm_drop E self =
     (if kind self = KIND_VEC
      then bind (get_vec_pos E self) (\<lambda>off.
           bind (rebuild_vec (bm_ptr self) (bm_len self) (bm_cap self) off) (\<lambda>v. rv_drop v))
      else if kind self = KIND_ARC then release_shared (bm_data self)
      else ret ())"

text \<open>
  \<open>try_unsplit\<close> takes \<open>other\<close>: it is dropped when it is not given back. The result is \<open>other\<close> when it
  was not absorbed.
\<close>

definition bm_try_unsplit ::
    "build \<Rightarrow> bytes_mut \<Rightarrow> bytes_mut \<Rightarrow> (bytes_mut option \<times> bytes_mut) act" where
  "bm_try_unsplit E self other =
     (if bm_cap other = 0 then bind (bm_drop E other) (\<lambda>_. ret (None, self))
      else let p = ptr_add (bm_ptr self) (bm_len self)
           in if addr p = addr (bm_ptr other) \<and> kind self = KIND_ARC \<and> kind other = KIND_ARC
                 \<and> addr (bm_data self) = addr (bm_data other)
              then bind (bm_drop E other) (\<lambda>_.
                     ret (None, self\<lparr>bm_len := bm_len self + bm_len other,
                                     bm_cap := bm_cap self + bm_cap other\<rparr>))
              else ret (Some other, self))"

definition bm_unsplit :: "build \<Rightarrow> bytes_mut \<Rightarrow> bytes_mut \<Rightarrow> bytes_mut act" where
  "bm_unsplit E self other =
     (if bm_is_empty self then bind (bm_drop E self) (\<lambda>_. ret other)
      else bind (bm_try_unsplit E self other) (\<lambda>(r, self).
           case r of
             None \<Rightarrow> ret self
           | Some other \<Rightarrow>
               bind (bm_as_slice other) (\<lambda>bs.
               bind (bm_extend_from_slice E self bs) (\<lambda>self.
               bind (bm_drop E other) (\<lambda>_. ret self)))))"

text \<open>\<open>From<BytesMut> for Vec<u8>\<close>.\<close>

definition vec_of_bytes_mut :: "build \<Rightarrow> bytes_mut \<Rightarrow> raw_vec act" where
  "vec_of_bytes_mut E self =
     (let finish = (\<lambda>v. bind (ptr_copy (bm_ptr self) (rv_ptr v) (bm_len self)) (\<lambda>_.
                        ret (v\<lparr>rv_len := bm_len self\<rparr>)))
      in if kind self = KIND_VEC
         then bind (get_vec_pos E self) (\<lambda>off.
              bind (rebuild_vec (bm_ptr self) (bm_len self) (bm_cap self) off) finish)
         else bind (shared_unique (bm_data self)) (\<lambda>unique.
              if unique
              then bind (get_shared (bm_data self)) (\<lambda>(v, r, n).
                   bind (set_shared (bm_data self) (rv_new, r, n)) (\<lambda>_.
                   bind (release_shared (bm_data self)) (\<lambda>_. finish v)))
              else bind (bm_as_slice self) (\<lambda>bs.
                   bind (rv_of_list E bs) (\<lambda>v.
                   bind (bm_drop E self) (\<lambda>_. ret v)))))"

end
