(* ===== verification/Bytes_Mut_Contract.thy ===== *)
theory Bytes_Mut_Contract
  imports Bytes_Mut
begin

text \<open>
  What \<open>BytesMut\<close> keeps and computes. The invariant \<open>bm_ok\<close> ties a handle to the vector it lies in; every
  operation keeps it, keeps the bytes it should and never reaches undefined behaviour. The
  handle, together with the heap, meets the contracts of \<open>Buf\<close> and \<open>BufMut\<close>.
\<close>

section \<open>The tag word\<close>

definition vec_tag :: "nat \<Rightarrow> nat \<Rightarrow> nat" where
  "vec_tag pos r = 32 * pos + (4 * r + 1)"

lemma MAX_VEC_POS_val: "MAX_VEC_POS = 576460752303423487"
  by (simp add: MAX_VEC_POS_def VEC_POS_OFFSET_def usize_max_def drop_bit_eq_div)

lemma repr_cases: "r \<le> 7 \<Longrightarrow> r = 0 \<or> r = 1 \<or> r = 2 \<or> r = 3 \<or> r = 4 \<or> r = 5 \<or> r = 6 \<or> r = (7::nat)"
  by auto

lemma tag_low: "r \<le> 7 \<Longrightarrow> vec_tag pos r mod 32 = 4 * r + 1" "r \<le> 7 \<Longrightarrow> vec_tag pos r div 32 = pos"
  by (simp_all add: vec_tag_def)

lemma tag_kind: "vec_tag pos r AND KIND_MASK = KIND_VEC"
proof -
  have "odd (vec_tag pos r)" by (simp add: vec_tag_def)
  then have "vec_tag pos r mod 2 = 1" by (simp only: odd_iff_mod_2_eq_one)
  then show ?thesis by (simp add: KIND_MASK_def KIND_VEC_def and_one_eq)
qed

lemma tag_pos: "r \<le> 7 \<Longrightarrow> drop_bit VEC_POS_OFFSET (vec_tag pos r) = pos"
  using tag_low(2) by (simp add: VEC_POS_OFFSET_def drop_bit_eq_div)

lemma and_low:
  fixes x m :: nat
  assumes "m < 32"
  shows "x AND m = (x mod 32) AND m"
proof -
  have "m = m AND mask 5" using assms by (simp add: take_bit_eq_mask [symmetric] take_bit_nat_eq_self)
  then have "x AND m = (x AND mask 5) AND m" by (metis and.assoc and.commute)
  then show ?thesis by (simp add: take_bit_eq_mask [symmetric] take_bit_eq_mod)
qed

lemma tag_repr:
  assumes "r \<le> 7"
  shows "drop_bit ORIGINAL_CAPACITY_OFFSET (vec_tag pos r AND ORIGINAL_CAPACITY_MASK) = r"
proof -
  have "vec_tag pos r AND ORIGINAL_CAPACITY_MASK = (4 * r + 1) AND ORIGINAL_CAPACITY_MASK"
    using and_low [of ORIGINAL_CAPACITY_MASK "vec_tag pos r"] tag_low(1) [OF assms]
    by (simp add: ORIGINAL_CAPACITY_MASK_def)
  then show ?thesis
    using repr_cases [OF assms]
    by (elim disjE) (simp_all add: ORIGINAL_CAPACITY_MASK_def ORIGINAL_CAPACITY_OFFSET_def drop_bit_eq_div)
qed

lemma tag_make: "r \<le> 7 \<Longrightarrow> push_bit ORIGINAL_CAPACITY_OFFSET r OR KIND_VEC = vec_tag 0 r"
  by (drule repr_cases, elim disjE) (simp_all add: ORIGINAL_CAPACITY_OFFSET_def KIND_VEC_def vec_tag_def push_bit_eq_mult)

lemma tag_set:
  assumes "r \<le> 7" "pos' \<le> MAX_VEC_POS"
  shows "take_bit 64 (push_bit VEC_POS_OFFSET pos') OR (vec_tag pos r AND NOT_VEC_POS_MASK)
         = vec_tag pos' r"
proof -
  have "push_bit VEC_POS_OFFSET pos' < 2 ^ 64"
    using assms(2) by (simp add: MAX_VEC_POS_val VEC_POS_OFFSET_def push_bit_eq_mult)
  then have a: "take_bit 64 (push_bit VEC_POS_OFFSET pos') = 32 * pos'"
    by (simp add: take_bit_nat_eq_self VEC_POS_OFFSET_def push_bit_eq_mult)
  have b: "vec_tag pos r AND NOT_VEC_POS_MASK = 4 * r + 1"
    using and_low [of NOT_VEC_POS_MASK "vec_tag pos r"] tag_low(1) [OF assms(1)] repr_cases [OF assms(1)]
    by (elim disjE) (simp_all add: NOT_VEC_POS_MASK_def)
  have "(32 * pos') AND (4 * r + 1) = 0"
    using and_low [of "4 * r + 1" "32 * pos'"] assms(1) by simp
  then have "32 * pos' + (4 * r + 1) = 32 * pos' OR (4 * r + 1)" by (rule disjunctive_add_eq_or)
  then show ?thesis unfolding a b by (simp add: vec_tag_def)
qed

section \<open>Frames\<close>

text \<open>Nothing but the blocks in \<open>X\<close> and new ones has changed.\<close>

definition same_except :: "nat set \<Rightarrow> heap \<Rightarrow> heap \<Rightarrow> bool" where
  "same_except X h h' \<longleftrightarrow> fresh h \<le> fresh h' \<and> (\<forall>x < fresh h. x \<notin> X \<longrightarrow> blocks h' x = blocks h x)"

lemma same_except_refl [simp]: "same_except X h h"
  by (simp add: same_except_def)

lemma same_except_trans:
  "same_except X h h' \<Longrightarrow> same_except Y h' h'' \<Longrightarrow> same_except (X \<union> Y) h h''"
  by (auto simp: same_except_def)

lemma same_except_new:
  assumes "same_except X h h'" "same_except Y h' h''" "Y \<inter> {x. x < fresh h} = {}"
  shows "same_except X h h''"
  unfolding same_except_def
proof (intro conjI allI impI)
  show "fresh h \<le> fresh h''" using assms(1,2) by (simp add: same_except_def)
  fix x
  assume x: "x < fresh h" "x \<notin> X"
  then have "x \<notin> Y" "x < fresh h'" using assms(1,3) by (auto simp: same_except_def)
  then show "blocks h'' x = blocks h x" using assms(1,2) x by (simp add: same_except_def)
qed

lemma same_except_mono: "same_except X h h' \<Longrightarrow> X \<subseteq> Y \<Longrightarrow> same_except Y h h'"
  by (auto simp: same_except_def)

lemma same_exceptD: "same_except X h h' \<Longrightarrow> x < fresh h \<Longrightarrow> x \<notin> X \<Longrightarrow> blocks h' x = blocks h x"
  by (simp add: same_except_def)

lemma same_except_fresh: "same_except X h h' \<Longrightarrow> fresh h \<le> fresh h'"
  by (simp add: same_except_def)

section \<open>Vectors\<close>

definition vcells :: "heap \<Rightarrow> raw_vec \<Rightarrow> u8 option list" where
  "vcells h v = (case Option.bind (prov (rv_ptr v)) (blocks h) of
                   Some (Buffer base cells) \<Rightarrow> cells | _ \<Rightarrow> [])"

definition vec_ok :: "heap \<Rightarrow> raw_vec \<Rightarrow> bool" where
  "vec_ok h v \<longleftrightarrow>
     0 < addr (rv_ptr v) \<and> addr (rv_ptr v) + rv_cap v \<le> usize_max \<and> rv_cap v \<le> isize_max
     \<and> rv_len v \<le> rv_cap v \<and> length (vcells h v) = rv_cap v
     \<and> (if rv_cap v = 0 then prov (rv_ptr v) = None
        else \<exists>b. prov (rv_ptr v) = Some b \<and> b < fresh h
                 \<and> blocks h b = Some (Buffer (addr (rv_ptr v)) (vcells h v)))"

text \<open>The heap with other cells in the allocation of the vector.\<close>

definition set_cells :: "heap \<Rightarrow> raw_vec \<Rightarrow> u8 option list \<Rightarrow> heap" where
  "set_cells h v cells =
     (case prov (rv_ptr v) of None \<Rightarrow> h
      | Some b \<Rightarrow> h\<lparr>blocks := (blocks h)(b := Some (Buffer (addr (rv_ptr v)) cells))\<rparr>)"

abbreviation vset :: "raw_vec \<Rightarrow> nat set" where
  "vset v \<equiv> set_option (prov (rv_ptr v))"

lemma vec_okE:
  assumes "vec_ok h v"
  obtains "rv_cap v = 0" "prov (rv_ptr v) = None" "vcells h v = []"
  | b where "0 < rv_cap v" "prov (rv_ptr v) = Some b" "b < fresh h"
      "blocks h b = Some (Buffer (addr (rv_ptr v)) (vcells h v))"
  using assms by (auto simp: vec_ok_def split: if_splits)

lemma vec_ok_bounds:
  assumes "vec_ok h v"
  shows "0 < addr (rv_ptr v)" "addr (rv_ptr v) + rv_cap v \<le> usize_max" "rv_cap v \<le> isize_max"
    "rv_len v \<le> rv_cap v" "length (vcells h v) = rv_cap v"
  using assms by (simp_all add: vec_ok_def)

lemma vec_ok_frame:
  assumes "vec_ok h v" "same_except X h h'" "vset v \<inter> X = {}"
  shows "vec_ok h' v" "vcells h' v = vcells h v"
proof -
  show c: "vcells h' v = vcells h v"
    using assms(1)
  proof (cases rule: vec_okE)
    case (2 b)
    then show ?thesis using same_exceptD [OF assms(2), of b] assms(3) by (simp add: vcells_def)
  qed (simp add: vcells_def)
  show "vec_ok h' v"
    using assms(1)
  proof (cases rule: vec_okE)
    case (2 b)
    then have "blocks h' b = blocks h b" "b < fresh h'"
      using same_exceptD [OF assms(2), of b] same_except_fresh [OF assms(2)] assms(3) by auto
    then show ?thesis using assms(1) 2 c by (simp add: vec_ok_def)
  qed (use assms(1) c in \<open>simp add: vec_ok_def\<close>)
qed

lemma get_cells_vec:
  assumes "vec_ok h v" "off + n \<le> rv_cap v"
  shows "get_cells (ptr_add (rv_ptr v) off) n h = Ok (take n (drop off (vcells h v)), h)"
  using assms(1)
proof (cases rule: vec_okE)
  case 1
  then show ?thesis using assms(2) by (simp add: get_cells_def)
next
  case (2 b)
  then show ?thesis
    using assms(2) vec_ok_bounds(5) [OF assms(1)] by (simp add: get_cells_def)
qed

lemma read_slice_vec:
  assumes "vec_ok h v" "off + n \<le> rv_cap v" "None \<notin> set (take n (drop off (vcells h v)))"
  shows "read_slice (ptr_add (rv_ptr v) off) n h = Ok (map the (take n (drop off (vcells h v))), h)"
  using get_cells_vec [OF assms(1,2)] assms(3) by (simp add: read_slice_def)

lemma set_cells_simps [simp]:
  "fresh (set_cells h v c) = fresh h"
  by (simp add: set_cells_def split: option.split)

lemma set_cells_frame: "same_except (vset v) h (set_cells h v c)"
  by (auto simp: same_except_def set_cells_def split: option.split)

lemma vec_ok_set_cells:
  assumes "vec_ok h v" "length c = rv_cap v"
  shows "vec_ok (set_cells h v c) v" "vcells (set_cells h v c) v = c"
  using assms(1)
  by (cases rule: vec_okE; use assms in \<open>auto simp: vec_ok_def set_cells_def vcells_def\<close>)+

lemma put_cells_vec:
  assumes "vec_ok h v" "off + length new \<le> rv_cap v"
  shows "put_cells (ptr_add (rv_ptr v) off) new h
         = Ok ((), set_cells h v (overwrite (vcells h v) off new))"
  using assms(1)
proof (cases rule: vec_okE)
  case 1
  then show ?thesis using assms(2) by (simp add: put_cells_def set_cells_def)
next
  case (2 b)
  have "h\<lparr>blocks := (blocks h)(b := blocks h b)\<rparr> = h" by simp
  then show ?thesis
    using 2 assms(2) vec_ok_bounds(5) [OF assms(1)]
    by (auto simp: put_cells_def set_cells_def overwrite_def)
qed

text \<open>Every allocation gives a good vector and touches no other block.\<close>

lemma rv_from_raw_parts_ok:
  assumes "vec_ok h \<lparr>rv_ptr = p, rv_len = len, rv_cap = cap\<rparr>"
  shows "rv_from_raw_parts p len cap h = Ok (\<lparr>rv_ptr = p, rv_len = len, rv_cap = cap\<rparr>, h)"
  using assms
  by (cases rule: vec_okE) (use vec_ok_bounds [OF assms] in \<open>auto simp: rv_from_raw_parts_def Let_def\<close>)

lemma rv_drop_ok:
  assumes "vec_ok h v"
  obtains h' where "rv_drop v h = Ok ((), h')" "same_except (vset v) h h'" "fresh h' = fresh h"
  using assms
proof (cases rule: vec_okE)
  case 1
  then show ?thesis by (intro that [of h]) (simp_all add: rv_drop_def)
next
  case (2 b)
  then show ?thesis
    using vec_ok_bounds(5) [OF assms]
    by (intro that [of "h\<lparr>blocks := (blocks h)(b := None)\<rparr>"])
      (auto simp: rv_drop_def dealloc_def free_block_def same_except_def)
qed

lemma new_buffer_ok:
  assumes E: "good_build E" and n: "0 < n" "n \<le> isize_max" "length cells = n" "l \<le> n"
  obtains p h' where "new_block E n 1 (\<lambda>base. Buffer base cells) h = Ok (p, h')"
    "vec_ok h' \<lparr>rv_ptr = p, rv_len = l, rv_cap = n\<rparr>" "vcells h' \<lparr>rv_ptr = p, rv_len = l, rv_cap = n\<rparr> = cells"
    "same_except {} h h'" "prov p = Some (fresh h)" "fresh h' = Suc (fresh h)"
proof -
  let ?a = "place E h n 1"
  have "0 < ?a" "?a + n \<le> usize_max" using E n(2) by (simp_all add: good_build_def)
  then show thesis
    using n by (intro that [of "\<lparr>prov = Some (fresh h), addr = ?a\<rparr>"
        "h\<lparr>blocks := (blocks h)(fresh h := Some (Buffer ?a cells)), fresh := Suc (fresh h)\<rparr>"])
      (auto simp: new_block_def Let_def vec_ok_def vcells_def same_except_def)
qed

lemma vcells_len [simp]: "vcells h (v\<lparr>rv_len := l\<rparr>) = vcells h v"
  by (simp add: vcells_def)

lemma vec_ok_len: "vec_ok h v \<Longrightarrow> l \<le> rv_cap v \<Longrightarrow> vec_ok h (v\<lparr>rv_len := l\<rparr>)"
  by (simp add: vec_ok_def)

lemma prov_dangling [simp]: "prov dangling = None"
  by (simp add: dangling_def without_provenance_def)

lemma vec_ok_dangling: "l = 0 \<Longrightarrow> vec_ok h \<lparr>rv_ptr = dangling, rv_len = l, rv_cap = 0\<rparr>"
  by (simp add: vec_ok_def dangling_def without_provenance_def vcells_def usize_max_def)

lemma rv_with_capacity_ok:
  assumes E: "good_build E" and n: "n \<le> isize_max"
  obtains v h' where "rv_with_capacity E n h = Ok (v, h')" "vec_ok h' v" "rv_cap v = n" "rv_len v = 0"
    "same_except {} h h'" "vset v \<inter> {x. x < fresh h} = {}"
proof (cases "n = 0")
  case True
  then show ?thesis
    by (intro that [of rv_new h])
      (simp_all add: rv_with_capacity_def rv_new_def vec_ok_dangling)
next
  case False
  obtain p h' where p: "new_block E n 1 (\<lambda>base. Buffer base (replicate n None)) h = Ok (p, h')"
    "vec_ok h' \<lparr>rv_ptr = p, rv_len = 0, rv_cap = n\<rparr>" "same_except {} h h'" "prov p = Some (fresh h)"
    by (rule new_buffer_ok [OF E, of n "replicate n None" 0]) (use False n in auto)
  then show ?thesis
    using False n by (intro that [of "\<lparr>rv_ptr = p, rv_len = 0, rv_cap = n\<rparr>" h'])
      (simp_all add: rv_with_capacity_def)
qed

lemma rv_realloc_ok:
  assumes E: "good_build E" and v: "vec_ok h v" and cap: "rv_cap v \<le> cap" "0 < cap" "cap \<le> isize_max"
  obtains v' h' where "rv_realloc E v cap h = Ok (v', h')" "vec_ok h' v'" "rv_cap v' = cap"
    "rv_len v' = rv_len v" "take (rv_cap v) (vcells h' v') = vcells h v" "same_except (vset v) h h'"
    "prov (rv_ptr v') = Some (fresh h)"
proof -
  let ?cells = "vcells h v @ replicate (cap - rv_cap v) None"
  note b = vec_ok_bounds [OF v]
  obtain p h1 where p: "new_block E cap 1 (\<lambda>base. Buffer base ?cells) h = Ok (p, h1)"
    "vec_ok h1 \<lparr>rv_ptr = p, rv_len = rv_len v, rv_cap = cap\<rparr>"
    "vcells h1 \<lparr>rv_ptr = p, rv_len = rv_len v, rv_cap = cap\<rparr> = ?cells" "same_except {} h h1"
    "prov p = Some (fresh h)" "fresh h1 = Suc (fresh h)"
    by (rule new_buffer_ok [OF E, of cap ?cells "rv_len v"]) (use cap b in auto)
  have v1: "vec_ok h1 v" by (rule vec_ok_frame [OF v p(4)]) simp
  obtain h2 where d: "rv_drop v h1 = Ok ((), h2)" "same_except (vset v) h1 h2" "fresh h2 = fresh h1"
    using rv_drop_ok [OF v1] by metis
  have notin: "fresh h \<notin> vset v" using v by (cases rule: vec_okE) auto
  have f: "vset \<lparr>rv_ptr = p, rv_len = rv_len v, rv_cap = cap\<rparr> \<inter> vset v = {}" using p(5) notin by auto
  have g: "get_cells (rv_ptr v) (rv_cap v) h = Ok (vcells h v, h)"
    using get_cells_vec [OF v, of 0 "rv_cap v"] b by simp
  have vv: "v\<lparr>rv_ptr := p, rv_cap := cap\<rparr> = \<lparr>rv_ptr = p, rv_len = rv_len v, rv_cap = cap\<rparr>" by (cases v) simp
  show thesis
    by (rule that [of "\<lparr>rv_ptr = p, rv_len = rv_len v, rv_cap = cap\<rparr>" h2])
      (use g p d vv vec_ok_frame [OF p(2) d(2) f] b same_except_trans [OF p(4) d(2)] in
        \<open>simp_all add: rv_realloc_def\<close>)
qed

lemma rv_reserve_ok:
  assumes E: "good_build E" and v: "vec_ok h v"
    and n: "additional \<le> rv_cap v - rv_len v \<or> vec_grown (rv_cap v) (rv_len v + additional) \<le> isize_max"
  obtains v' h' where "rv_reserve E v additional h = Ok (v', h')" "vec_ok h' v'"
    "rv_len v' = rv_len v" "rv_len v + additional \<le> rv_cap v'" "rv_cap v \<le> rv_cap v'"
    "take (rv_cap v) (vcells h' v') = vcells h v" "same_except (vset v) h h'"
    "v' = v \<and> h' = h \<or> prov (rv_ptr v') = Some (fresh h)"
proof (cases "additional \<le> rv_cap v - rv_len v")
  case True
  then show ?thesis
    using v vec_ok_bounds [OF v] by (intro that [of v h]) (auto simp: rv_reserve_def)
next
  case False
  let ?c = "vec_grown (rv_cap v) (rv_len v + additional)"
  have c: "rv_cap v \<le> ?c" "rv_len v + additional \<le> ?c" "0 < ?c" "?c \<le> isize_max"
    using False n by (auto simp: vec_grown_def)
  obtain v' h' where r: "rv_realloc E v ?c h = Ok (v', h')" "vec_ok h' v'" "rv_cap v' = ?c"
    "rv_len v' = rv_len v" "take (rv_cap v) (vcells h' v') = vcells h v" "same_except (vset v) h h'"
    "prov (rv_ptr v') = Some (fresh h)"
    by (rule rv_realloc_ok [OF E v c(1,3,4)])
  then show ?thesis
    using False c by (intro that [of v' h']) (simp_all add: rv_reserve_def Let_def)
qed

lemma rv_of_list_ok:
  assumes E: "good_build E" and n: "length bs \<le> isize_max"
  obtains v h' where "rv_of_list E bs h = Ok (v, h')" "vec_ok h' v" "rv_cap v = length bs"
    "rv_len v = length bs" "vcells h' v = map Some bs" "same_except {} h h'"
    "vset v \<inter> {x. x < fresh h} = {}"
proof -
  obtain v h1 where v: "rv_with_capacity E (length bs) h = Ok (v, h1)" "vec_ok h1 v"
    "rv_cap v = length bs" "rv_len v = 0" "same_except {} h h1" "vset v \<inter> {x. x < fresh h} = {}"
    by (rule rv_with_capacity_ok [OF E n])
  let ?h = "set_cells h1 v (map Some bs)" and ?v = "v\<lparr>rv_len := length bs\<rparr>"
  have "put_cells (rv_ptr v) (map Some bs) h1 = Ok ((), ?h)"
    using put_cells_vec [OF v(2), of 0 "map Some bs"] v(3) vec_ok_bounds(5) [OF v(2)]
    by (simp add: overwrite_def)
  then have "rv_of_list E bs h = Ok (?v, ?h)" using v(1) by (simp add: rv_of_list_def)
  moreover have "vec_ok ?h ?v" "vcells ?h ?v = map Some bs"
    using vec_ok_set_cells [OF v(2), of "map Some bs"] v(3) by (simp_all add: vec_ok_len)
  moreover have "same_except {} h ?h"
    by (rule same_except_new [OF v(5) set_cells_frame v(6)])
  ultimately show ?thesis using v by (intro that [of ?v ?h]) simp_all
qed

section \<open>The invariant of a handle\<close>

text \<open>The handle lies in the vector \<open>v\<close> at \<open>off\<close>, and the bytes it shows have been written.\<close>

definition bm_in :: "heap \<Rightarrow> bytes_mut \<Rightarrow> raw_vec \<Rightarrow> nat \<Rightarrow> bool" where
  "bm_in h m v off \<longleftrightarrow>
     vec_ok h v \<and> bm_ptr m = ptr_add (rv_ptr v) off \<and> off + bm_cap m \<le> rv_cap v
     \<and> bm_len m \<le> bm_cap m \<and> None \<notin> set (take (bm_len m) (drop off (vcells h v)))"

definition shared_at :: "heap \<Rightarrow> ptr \<Rightarrow> raw_vec \<Rightarrow> nat \<Rightarrow> nat \<Rightarrow> bool" where
  "shared_at h p v r n \<longleftrightarrow>
     (\<exists>s. prov p = Some s \<and> s < fresh h \<and> blocks h s = Some (VecShared (addr p) v r n)) \<and> even (addr p)
     \<and> r \<le> 7 \<and> 0 < n \<and> n \<le> isize_max + 1"

definition bm_vec :: "heap \<Rightarrow> bytes_mut \<Rightarrow> raw_vec \<Rightarrow> nat \<Rightarrow> nat \<Rightarrow> bool" where
  "bm_vec h m v off r \<longleftrightarrow>
     bm_in h m v off \<and> bm_data m = without_provenance (vec_tag off r) \<and> r \<le> 7 \<and> off \<le> MAX_VEC_POS
     \<and> off + bm_cap m = rv_cap v \<and> rv_len v = off + bm_len m"

definition bm_arc :: "heap \<Rightarrow> bytes_mut \<Rightarrow> raw_vec \<Rightarrow> nat \<Rightarrow> nat \<Rightarrow> nat \<Rightarrow> bool" where
  "bm_arc h m v off r n \<longleftrightarrow> bm_in h m v off \<and> shared_at h (bm_data m) v r n"

definition bm_ok :: "heap \<Rightarrow> bytes_mut \<Rightarrow> bool" where
  "bm_ok h m \<longleftrightarrow> (\<exists>v off r. bm_vec h m v off r) \<or> (\<exists>v off r n. bm_arc h m v off r n)"

definition bm_view :: "heap \<Rightarrow> bytes_mut \<Rightarrow> u8 list" where
  "bm_view h m = (case bm_as_slice m h of Ok (bs, _) \<Rightarrow> bs | Fault _ \<Rightarrow> [])"

definition footprint :: "bytes_mut \<Rightarrow> nat set" where
  "footprint m = set_option (prov (bm_ptr m)) \<union> set_option (prov (bm_data m))"

lemma bm_okE:
  assumes "bm_ok h m"
  obtains v off r where "bm_vec h m v off r" | v off r n where "bm_arc h m v off r n"
  using assms by (auto simp: bm_ok_def)

lemma bm_vec_ok: "bm_vec h m v off r \<Longrightarrow> bm_ok h m"
  by (auto simp: bm_ok_def)

lemma bm_arc_ok: "bm_arc h m v off r n \<Longrightarrow> bm_ok h m"
  by (auto simp: bm_ok_def)

lemma bm_ok_in:
  assumes "bm_ok h m"
  obtains v off where "bm_in h m v off"
  using assms by (auto simp: bm_ok_def bm_vec_def bm_arc_def)

lemma bm_vec_in: "bm_vec h m v off r \<Longrightarrow> bm_in h m v off"
  by (simp add: bm_vec_def)

lemma bm_arc_in: "bm_arc h m v off r n \<Longrightarrow> bm_in h m v off"
  by (simp add: bm_arc_def)

lemma bm_as_slice_in:
  assumes "bm_in h m v off"
  shows "bm_as_slice m h = Ok (map the (take (bm_len m) (drop off (vcells h v))), h)"
  using assms read_slice_vec [of h v off "bm_len m"] by (simp add: bm_in_def bm_as_slice_def)

lemma map_Some_the: "None \<notin> set xs \<Longrightarrow> map (Some \<circ> the) xs = xs"
  by (induction xs) auto

lemma bm_view_in:
  assumes "bm_in h m v off"
  shows "bm_view h m = map the (take (bm_len m) (drop off (vcells h v)))"
    and "length (bm_view h m) = bm_len m"
    and "map Some (bm_view h m) = take (bm_len m) (drop off (vcells h v))"
proof -
  show v: "bm_view h m = map the (take (bm_len m) (drop off (vcells h v)))"
    using bm_as_slice_in [OF assms] by (simp add: bm_view_def)
  have "length (vcells h v) = rv_cap v" "off + bm_len m \<le> rv_cap v" "None \<notin> set (take (bm_len m) (drop off (vcells h v)))"
    using assms vec_ok_bounds(5) [of h v] by (auto simp: bm_in_def)
  then show "length (bm_view h m) = bm_len m"
    "map Some (bm_view h m) = take (bm_len m) (drop off (vcells h v))"
    unfolding v by (simp, simp add: map_Some_the)
qed

lemma bm_as_slice_ok: "bm_ok h m \<Longrightarrow> bm_as_slice m h = Ok (bm_view h m, h)"
  by (auto elim!: bm_ok_in simp: bm_as_slice_in bm_view_in(1))

lemma length_bm_view: "bm_ok h m \<Longrightarrow> length (bm_view h m) = bm_len m"
  by (auto elim!: bm_ok_in simp: bm_view_in(2))

lemma bm_ok_len: "bm_ok h m \<Longrightarrow> bm_len m \<le> bm_cap m"
  by (auto elim!: bm_ok_in simp: bm_in_def)

lemma bm_in_footprint: "bm_in h m v off \<Longrightarrow> vset v \<subseteq> footprint m"
  by (simp add: bm_in_def footprint_def)

lemma bm_in_frame:
  assumes "bm_in h m v off" "same_except X h h'" "vset v \<inter> X = {}"
  shows "bm_in h' m v off" "bm_view h' m = bm_view h m"
proof -
  have "vec_ok h v" using assms(1) by (simp add: bm_in_def)
  note f = vec_ok_frame [OF this assms(2,3)]
  show i: "bm_in h' m v off" using assms(1) f by (simp add: bm_in_def)
  show "bm_view h' m = bm_view h m" using bm_view_in(1) [OF i] bm_view_in(1) [OF assms(1)] f by simp
qed

lemma shared_at_frame:
  assumes "shared_at h p v r n" "same_except X h h'" "set_option (prov p) \<inter> X = {}"
  shows "shared_at h' p v r n"
  using assms by (auto simp: shared_at_def same_except_def)

lemma bm_ok_frame:
  assumes "bm_ok h m" "same_except X h h'" "footprint m \<inter> X = {}"
  shows "bm_ok h' m" "bm_view h' m = bm_view h m"
proof -
  have v: "vset v \<inter> X = {}" if "bm_in h m v off" for v off
    using bm_in_footprint [OF that] assms(3) by auto
  show "bm_ok h' m"
    using assms(1)
  proof (cases rule: bm_okE)
    case (1 v off r)
    then show ?thesis
      using bm_in_frame(1) [OF bm_vec_in [OF 1] assms(2) v [OF bm_vec_in [OF 1]]]
      by (intro bm_vec_ok [of h' m v off r]) (simp add: bm_vec_def)
  next
    case (2 v off r n)
    have "set_option (prov (bm_data m)) \<inter> X = {}" using assms(3) by (auto simp: footprint_def)
    then show ?thesis
      using bm_in_frame(1) [OF bm_arc_in [OF 2] assms(2) v [OF bm_arc_in [OF 2]]] 2
        shared_at_frame [OF _ assms(2)]
      by (intro bm_arc_ok [of h' m v off r n]) (auto simp: bm_arc_def)
  qed
  show "bm_view h' m = bm_view h m"
    using assms(1) by (rule bm_ok_in) (use bm_in_frame(2) [OF _ assms(2)] v in blast)
qed

lemma kind_vec: "bm_vec h m v off r \<Longrightarrow> kind m = KIND_VEC"
  by (simp add: bm_vec_def kind_def tag_kind without_provenance_def)

lemma even_kind: "even a \<Longrightarrow> a AND KIND_MASK = KIND_ARC"
  by (simp add: KIND_MASK_def KIND_ARC_def and_one_eq)

lemma kind_arc: "bm_arc h m v off r n \<Longrightarrow> kind m = KIND_ARC"
  by (simp add: bm_arc_def shared_at_def kind_def even_kind)

lemma kinds_differ [simp]: "KIND_VEC \<noteq> KIND_ARC" "KIND_ARC \<noteq> KIND_VEC"
  by (simp_all add: KIND_VEC_def KIND_ARC_def)

text \<open>A handle that shares its vector with no other.\<close>

definition sole :: "heap \<Rightarrow> bytes_mut \<Rightarrow> bool" where
  "sole h m \<longleftrightarrow> (\<forall>v r n. shared_at h (bm_data m) v r n \<longrightarrow> n = 1)"

lemma sole_noprov: "prov (bm_data m) = None \<Longrightarrow> sole h m"
  by (simp add: sole_def shared_at_def)

lemma shared_at_unique: "shared_at h p v r n \<Longrightarrow> shared_at h p v' r' n' \<Longrightarrow> v' = v \<and> r' = r \<and> n' = n"
  by (auto simp: shared_at_def)

lemma sole_shared: "shared_at h (bm_data m) v r 1 \<Longrightarrow> sole h m"
  using shared_at_unique by (auto simp: sole_def)

lemma vec_noprov: "bm_vec h m v off r \<Longrightarrow> prov (bm_data m) = None"
  by (simp add: bm_vec_def without_provenance_def)

lemma get_vec_pos_ok: "bm_vec h m v off r \<Longrightarrow> get_vec_pos E m h = Ok (off, h)"
  using kind_vec [of h m v off r] by (simp add: get_vec_pos_def bm_vec_def tag_pos without_provenance_def)

lemma set_vec_pos_ok:
  "bm_data m = without_provenance (vec_tag off r) \<Longrightarrow> r \<le> 7 \<Longrightarrow> pos \<le> MAX_VEC_POS \<Longrightarrow>
   set_vec_pos E m pos h = Ok (m\<lparr>bm_data := without_provenance (vec_tag pos r)\<rparr>, h)"
  using tag_set [of r pos off]
  by (simp add: set_vec_pos_def kind_def tag_kind without_provenance_def invalid_ptr_def)

lemma rv_from_raw_parts_of:
  "vec_ok h v \<Longrightarrow> rv_from_raw_parts (rv_ptr v) (rv_len v) (rv_cap v) h = Ok (v, h)"
  by (cases v) (simp add: rv_from_raw_parts_ok)

lemma rebuild_vec_ok:
  assumes "bm_vec h m v off r"
  shows "rebuild_vec (bm_ptr m) (bm_len m) (bm_cap m) off h = Ok (v, h)"
proof -
  have "vec_ok h v" "bm_ptr m = ptr_add (rv_ptr v) off" "bm_len m + off = rv_len v" "bm_cap m + off = rv_cap v"
    using assms by (simp_all add: bm_vec_def bm_in_def add.commute)
  then show ?thesis by (simp add: rebuild_vec_def rv_from_raw_parts_of)
qed

section \<open>Promotion, advancing, writing\<close>

lemma vptr_in: "bm_in h m v off \<Longrightarrow> vptr E (ptr_add (rv_ptr v) k) = Ok (ptr_add (rv_ptr v) k)"
  by (simp add: bm_in_def vec_ok_def vptr_def)

lemma vptr_vec: "vec_ok h v \<Longrightarrow> vptr E (ptr_add (rv_ptr v) k) = Ok (ptr_add (rv_ptr v) k)"
  "vec_ok h v \<Longrightarrow> vptr E (rv_ptr v) = Ok (rv_ptr v)"
  by (simp_all add: vec_ok_def vptr_def)

lemma new_shared_ok:
  assumes E: "good_build E" and n: "r \<le> 7" "0 < n" "n \<le> isize_max + 1"
  obtains p h' where "new_block E 40 8 (\<lambda>base. VecShared base v r n) h = Ok (p, h')"
    "shared_at h' p v r n" "same_except {} h h'" "prov p = Some (fresh h)" "even (addr p)"
    "fresh h' = Suc (fresh h)"
proof -
  let ?a = "place E h 40 8"
  have "?a mod 8 = 0" using E by (simp add: good_build_def isize_max_def)
  then have "even ?a" by (metis dvd_eq_mod_eq_0 dvd_trans even_numeral)
  then show thesis
    using n by (intro that [of "\<lparr>prov = Some (fresh h), addr = ?a\<rparr>"
        "h\<lparr>blocks := (blocks h)(fresh h := Some (VecShared ?a v r n)), fresh := Suc (fresh h)\<rparr>"])
      (auto simp: new_block_def Let_def shared_at_def same_except_def)
qed

lemma promote_to_shared_ok:
  assumes E: "good_build E" and m: "bm_vec h m v off r" and n: "n = 1 \<or> n = 2"
  obtains m' h' where "promote_to_shared E m n h = Ok (m', h')" "bm_arc h' m' v off r n"
    "m' = m\<lparr>bm_data := bm_data m'\<rparr>" "same_except {} h h'" "prov (bm_data m') = Some (fresh h)"
    "bm_view h' m' = bm_view h m"
proof -
  have r: "r \<le> 7" and d: "bm_data m = without_provenance (vec_tag off r)"
    using m by (simp_all add: bm_vec_def)
  obtain p h' where p: "new_block E 40 8 (\<lambda>base. VecShared base v r n) h = Ok (p, h')"
    "shared_at h' p v r n" "same_except {} h h'" "prov p = Some (fresh h)" "even (addr p)"
    "fresh h' = Suc (fresh h)"
    by (rule new_shared_ok [OF E r, of n]) (use n in \<open>auto simp: isize_max_def\<close>)
  let ?m = "m\<lparr>bm_data := p\<rparr>"
  have i: "bm_in h' m v off" and w: "bm_view h' m = bm_view h m"
    using bm_in_frame [OF bm_vec_in [OF m] p(3)] by simp_all
  have "promote_to_shared E m n h = Ok (?m, h')"
    using kind_vec [OF m] n r p(1) rebuild_vec_ok [OF m] even_kind [OF p(5)]
    by (simp add: promote_to_shared_def Let_def d tag_repr tag_pos without_provenance_def
        del: drop_bit_and)
  moreover have i': "bm_in h' ?m v off" using i by (simp add: bm_in_def)
  moreover have "bm_view h' ?m = bm_view h m"
    using bm_view_in(1) [OF i'] bm_view_in(1) [OF i] w by simp
  ultimately show thesis
    using p by (intro that [of ?m h']) (simp_all add: bm_arc_def)
qed

text \<open>A handle may show less, or start later, in its vector.\<close>

lemma bm_in_shrink:
  assumes "bm_in h m v off" "k + cap \<le> bm_cap m" "len \<le> bm_len m - k" "len \<le> cap"
    "m' = \<lparr>bm_ptr = ptr_add (bm_ptr m) k, bm_len = len, bm_cap = cap, bm_data = d\<rparr>"
  shows "bm_in h m' v (off + k)" "bm_view h m' = take len (drop k (bm_view h m))"
proof -
  have le: "take len (drop (off + k) (vcells h v)) = take len (drop k (take (bm_len m) (drop off (vcells h v))))"
  proof (cases "k \<le> bm_len m")
    case True
    then have "len \<le> bm_len m - k" using assms(3) by simp
    then show ?thesis by (simp add: drop_take add.commute min_def)
  qed (use assms(3) in simp)
  have "set (take len (drop k (take (bm_len m) (drop off (vcells h v))))) \<subseteq> set (take (bm_len m) (drop off (vcells h v)))"
    by (meson order_trans set_drop_subset set_take_subset)
  then show i: "bm_in h m' v (off + k)"
    using assms unfolding bm_in_def le [symmetric] by (auto simp: le)
  show "bm_view h m' = take len (drop k (bm_view h m))"
    using bm_view_in(1) [OF i] bm_view_in(1) [OF assms(1)] assms(5) le by (simp add: take_map drop_map)
qed

definition advanced :: "bytes_mut \<Rightarrow> nat \<Rightarrow> bytes_mut" where
  "advanced m k = m\<lparr>bm_ptr := ptr_add (bm_ptr m) k, bm_len := bm_len m - k, bm_cap := bm_cap m - k\<rparr>"

lemma advanced_simps [simp]:
  "bm_ptr (advanced m k) = ptr_add (bm_ptr m) k" "bm_len (advanced m k) = bm_len m - k"
  "bm_cap (advanced m k) = bm_cap m - k" "bm_data (advanced m k) = bm_data m" "advanced m 0 = m"
  by (simp_all add: advanced_def)

lemma bm_in_data [simp]: "bm_in h (m\<lparr>bm_data := d\<rparr>) v off = bm_in h m v off"
  "bm_view h (m\<lparr>bm_data := d\<rparr>) = bm_view h m"
  by (simp_all add: bm_in_def bm_view_def bm_as_slice_def)

lemma bm_in_advanced:
  assumes i: "bm_in h m v off" and k: "k \<le> bm_cap m"
  shows "bm_in h (advanced m k) v (off + k)" "bm_view h (advanced m k) = drop k (bm_view h m)"
proof -
  have le: "bm_len m - k \<le> bm_cap m - k" using i by (simp add: bm_in_def diff_le_mono)
  have a: "advanced m k = \<lparr>bm_ptr = ptr_add (bm_ptr m) k, bm_len = bm_len m - k,
                           bm_cap = bm_cap m - k, bm_data = bm_data m\<rparr>"
    by (cases m) (simp add: advanced_def)
  note s = bm_in_shrink [OF i _ _ le a]
  show "bm_in h (advanced m k) v (off + k)" by (rule s(1)) (use k in simp_all)
  have "length (drop k (bm_view h m)) = bm_len m - k" using bm_view_in(2) [OF i] by simp
  then show "bm_view h (advanced m k) = drop k (bm_view h m)" using s(2) k by simp
qed

lemma bm_arc_advanced:
  "bm_arc h m v off r n \<Longrightarrow> k \<le> bm_cap m \<Longrightarrow> bm_arc h (advanced m k) v (off + k) r n"
  by (simp add: bm_arc_def bm_in_advanced)

lemma bm_vec_advanced:
  assumes m: "bm_vec h m v off r" and k: "k \<le> bm_cap m" "off + k \<le> MAX_VEC_POS"
  shows "bm_ok h (advanced (m\<lparr>bm_data := without_provenance (vec_tag (off + k) r)\<rparr>) k)"
proof -
  let ?m = "m\<lparr>bm_data := without_provenance (vec_tag (off + k) r)\<rparr>"
  let ?v = "v\<lparr>rv_len := off + k + (bm_len m - k)\<rparr>"
  have i: "bm_in h (advanced ?m k) v (off + k)"
    using bm_vec_in [OF m] k by (intro bm_in_advanced) simp_all
  have "vec_ok h ?v"
    by (rule vec_ok_len) (use bm_vec_in [OF m] k in \<open>auto simp: bm_in_def\<close>)
  then have "bm_vec h (advanced ?m k) ?v (off + k) r"
    using i m k by (simp add: bm_vec_def bm_in_def)
  then show ?thesis by (rule bm_vec_ok)
qed

lemma advance_unchecked_step:
  assumes "count \<noteq> 0" "count \<le> bm_cap m" "bm_in h m v off"
    and "if kind m = KIND_VEC
         then (bind (get_vec_pos E m) (\<lambda>vec_pos.
                let pos = vec_pos + count
                in if pos \<le> MAX_VEC_POS then set_vec_pos E m pos else promote_to_shared E m 1)) h
              = Ok (m\<lparr>bm_data := d\<rparr>, h')
         else d = bm_data m \<and> h' = h"
  shows "advance_unchecked E m count h = Ok (advanced (m\<lparr>bm_data := d\<rparr>) count, h')"
proof -
  have "(case checked_sub a count of None \<Rightarrow> 0 | Some n \<Rightarrow> n) = a - count" for a
    by (simp add: checked_sub_def)
  moreover have "bm_ptr m = ptr_add (rv_ptr v) off" using assms(3) by (simp add: bm_in_def)
  ultimately show ?thesis
    using assms vptr_in [OF assms(3)]
    by (simp add: advance_unchecked_def advanced_def split: if_splits)
qed

lemma advance_unchecked_ok:
  assumes E: "good_build E" and m: "bm_ok h m" and c: "count \<le> bm_cap m"
  obtains d h' where
    "advance_unchecked E m count h = Ok (advanced (m\<lparr>bm_data := d\<rparr>) count, h')"
    "bm_ok h' (advanced (m\<lparr>bm_data := d\<rparr>) count)"
    "bm_view h' (advanced (m\<lparr>bm_data := d\<rparr>) count) = drop count (bm_view h m)"
    "same_except {} h h'" "kind m = KIND_ARC \<Longrightarrow> d = bm_data m \<and> h' = h"
    "kind m = KIND_VEC \<Longrightarrow> prov d \<in> {None, Some (fresh h)}"
    "kind m = KIND_VEC \<Longrightarrow> sole h' (advanced (m\<lparr>bm_data := d\<rparr>) count)"
proof (cases "count = 0")
  case True
  have "kind m = KIND_VEC \<Longrightarrow> prov (bm_data m) = None"
    using m by (auto elim!: bm_okE simp: kind_arc) (simp add: bm_vec_def without_provenance_def)
  then show ?thesis using True m
    by (intro that [of "bm_data m" h]) (auto simp: advance_unchecked_def intro: sole_noprov)
next
  case False
  show ?thesis
    using m
  proof (cases rule: bm_okE)
    case (1 v off r)
    note i = bm_vec_in [OF 1]
    show ?thesis
    proof (cases "off + count \<le> MAX_VEC_POS")
      case True
      let ?d = "without_provenance (vec_tag (off + count) r)"
      have "set_vec_pos E m (off + count) h = Ok (m\<lparr>bm_data := ?d\<rparr>, h)"
        using 1 True by (intro set_vec_pos_ok [of m off]) (simp_all add: bm_vec_def)
      then have "advance_unchecked E m count h = Ok (advanced (m\<lparr>bm_data := ?d\<rparr>) count, h)"
        using False c i 1 True by (intro advance_unchecked_step)
          (simp_all add: kind_vec [OF 1] get_vec_pos_ok [OF 1])
      then show ?thesis
        using bm_vec_advanced [OF 1 c True] bm_in_advanced(2) [of h "m\<lparr>bm_data := ?d\<rparr>" v off count] i c
        by (intro that [of ?d h]) (simp_all add: kind_vec [OF 1] without_provenance_def sole_noprov)
    next
      case nofit: False
      obtain m1 h1 where p: "promote_to_shared E m 1 h = Ok (m1, h1)" "bm_arc h1 m1 v off r 1"
        "m1 = m\<lparr>bm_data := bm_data m1\<rparr>" "same_except {} h h1" "prov (bm_data m1) = Some (fresh h)"
        "bm_view h1 m1 = bm_view h m"
        by (rule promote_to_shared_ok [OF E 1, where n = 1]) simp
      have c1: "count \<le> bm_cap m1" using p(3) c by (metis bytes_mut.select_convs(3) bytes_mut.surjective bytes_mut.update_convs(4))
      have "advance_unchecked E m count h = Ok (advanced (m\<lparr>bm_data := bm_data m1\<rparr>) count, h1)"
        using False c i nofit p(1,3) by (intro advance_unchecked_step)
          (simp_all add: kind_vec [OF 1] get_vec_pos_ok [OF 1])
      then show ?thesis
        using p(4-6) bm_arc_ok [OF bm_arc_advanced [OF p(2) c1]]
          bm_in_advanced(2) [OF bm_arc_in [OF p(2)] c1] p(2,3)
        by (intro that [of "bm_data m1" h1]) (auto simp: kind_vec [OF 1] bm_arc_def intro: sole_shared)
    qed
  next
    case (2 v off r n)
    have "advance_unchecked E m count h = Ok (advanced (m\<lparr>bm_data := bm_data m\<rparr>) count, h)"
      using False c bm_arc_in [OF 2] by (intro advance_unchecked_step) (simp_all add: kind_arc [OF 2])
    then show ?thesis
      using bm_arc_ok [OF bm_arc_advanced [OF 2 c]] bm_in_advanced(2) [OF bm_arc_in [OF 2] c]
      by (intro that [of "bm_data m" h]) (simp_all add: kind_arc [OF 2])
  qed
qed

section \<open>Reserving\<close>

lemma get_shared_ok: "shared_at h p v r n \<Longrightarrow> get_shared p h = Ok ((v, r, n), h)"
  by (auto simp: shared_at_def get_shared_def)

lemma set_shared_ok:
  assumes "shared_at h p v r n" "r' \<le> 7" "0 < n'" "n' \<le> isize_max + 1"
  obtains h' where "set_shared p (v', r', n') h = Ok ((), h')" "shared_at h' p v' r' n'"
    "same_except (set_option (prov p)) h h'" "fresh h' = fresh h"
  using assms
  by (intro that [of "h\<lparr>blocks := (blocks h)(the (prov p) := Some (VecShared (addr p) v' r' n'))\<rparr>"])
    (auto simp: shared_at_def set_shared_def same_except_def)

lemma shared_not_vec:
  assumes "vec_ok h v" "shared_at h p v' r n"
  shows "set_option (prov p) \<inter> vset v = {}" "vset v \<inter> set_option (prov p) = {}"
  using assms(1) by (cases rule: vec_okE; use assms(2) in \<open>auto simp: shared_at_def\<close>)+

text \<open>The handle after its vector has moved or its bytes have moved within it.\<close>

lemma bm_in_moved:
  assumes i: "bm_in h m v off" and v': "vec_ok h' v'"
    and c: "take (bm_len m) (drop off' (vcells h' v')) = take (bm_len m) (drop off (vcells h v))"
    and b: "off' + cap \<le> rv_cap v'" "bm_len m \<le> cap"
  shows "bm_in h' (m\<lparr>bm_ptr := ptr_add (rv_ptr v') off', bm_cap := cap\<rparr>) v' off'"
    "bm_view h' (m\<lparr>bm_ptr := ptr_add (rv_ptr v') off', bm_cap := cap\<rparr>) = bm_view h m"
proof -
  let ?m = "m\<lparr>bm_ptr := ptr_add (rv_ptr v') off', bm_cap := cap\<rparr>"
  show i': "bm_in h' ?m v' off'" using assms by (simp add: bm_in_def)
  show "bm_view h' ?m = bm_view h m" using bm_view_in(1) [OF i'] bm_view_in(1) [OF i] c by simp
qed

lemma grown_cells:
  assumes "take k c' = c" "length c = k" "off + n \<le> k"
  shows "take n (drop off c') = take n (drop off c)"
proof -
  have "take n (drop off c) = take (min n (k - off)) (drop off c')"
    unfolding assms(1) [symmetric] by (simp add: drop_take)
  then show ?thesis using assms(3) by (simp add: min_def)
qed

text \<open>The bytes are copied to the front of the vector.\<close>

lemma move_front_ok:
  assumes i: "bm_in h m v off" and o: "bm_len m \<le> off" "bm_len m \<le> cap" "cap \<le> rv_cap v"
  obtains h' where "ptr_copy_nonoverlapping (bm_ptr m) (rv_ptr v) (bm_len m) h = Ok ((), h')"
    "bm_in h' (m\<lparr>bm_ptr := rv_ptr v, bm_cap := cap\<rparr>) v 0"
    "bm_view h' (m\<lparr>bm_ptr := rv_ptr v, bm_cap := cap\<rparr>) = bm_view h m"
    "same_except (vset v) h h'" "fresh h' = fresh h" "vec_ok h' v"
proof -
  let ?bs = "take (bm_len m) (drop off (vcells h v))"
  let ?c = "overwrite (vcells h v) 0 ?bs"
  let ?h = "set_cells h v ?c"
  have v: "vec_ok h v" and p: "bm_ptr m = ptr_add (rv_ptr v) off" and b: "off + bm_len m \<le> rv_cap v"
    using i by (auto simp: bm_in_def)
  have l: "length ?bs = bm_len m" using b vec_ok_bounds(5) [OF v] by simp
  then have lc: "length ?c = rv_cap v" using b vec_ok_bounds(5) [OF v] by (simp add: overwrite_def)
  have "ptr_copy_nonoverlapping (bm_ptr m) (rv_ptr v) (bm_len m) h = Ok ((), ?h)"
    using get_cells_vec [OF v b] put_cells_vec [OF v, of 0 ?bs] l b o(1)
    by (auto simp: ptr_copy_nonoverlapping_def ptr_copy_def p)
  moreover have "take (bm_len m) (drop 0 (vcells ?h v)) = ?bs"
    using l unfolding vec_ok_set_cells(2) [OF v lc] by (simp add: overwrite_def)
  moreover note bm_in_moved [OF i vec_ok_set_cells(1) [OF v lc] calculation(2), of cap]
  ultimately show thesis
    using o set_cells_frame [of v h ?c] vec_ok_set_cells(1) [OF v lc] by (intro that [of ?h]) simp_all
qed

lemma bm_in_tag: "bm_in h m v off \<Longrightarrow> off + bm_cap m = rv_cap v \<Longrightarrow> bm_data m = without_provenance (vec_tag off r) \<Longrightarrow>
  r \<le> 7 \<Longrightarrow> off \<le> MAX_VEC_POS \<Longrightarrow> bm_ok h m"
  by (rule bm_vec_ok [of h m "v\<lparr>rv_len := off + bm_len m\<rparr>" off r])
    (auto simp: bm_vec_def bm_in_def intro!: vec_ok_len)

lemma reserve_vec_ok:
  assumes E: "good_build E" and m: "bm_vec h m v off r"
    and n: "bm_len m + add \<le> isize_max div 4" "bm_cap m - bm_len m < add"
  obtains m' h' where "reserve_vec E m add True h = Ok ((True, m'), h')" "bm_ok h' m'"
    "bm_len m' = bm_len m" "bm_view h' m' = bm_view h m" "bm_len m + add \<le> bm_cap m'"
    "same_except (footprint m) h h'" "footprint m' \<subseteq> footprint m \<union> {fresh h}" "kind m' = KIND_VEC"
proof -
  note i = bm_vec_in [OF m]
  have v: "vec_ok h v" "bm_ptr m = ptr_add (rv_ptr v) off" "bm_len m \<le> bm_cap m" using i by (auto simp: bm_in_def)
  have d: "bm_data m = without_provenance (vec_tag off r)" "r \<le> 7" "off \<le> MAX_VEC_POS"
    "off + bm_cap m = rv_cap v" "rv_len v = off + bm_len m"
    using m by (auto simp: bm_vec_def)
  have k: "kind (x\<lparr>bm_data := without_provenance (vec_tag y r)\<rparr>) = KIND_VEC" for x y
    by (simp add: kind_def tag_kind without_provenance_def)
  have fp: "vset v \<subseteq> footprint m" using bm_in_footprint [OF i] .
  show thesis
  proof (cases "add \<le> bm_cap m - bm_len m + off \<and> bm_len m \<le> off")
    case True
    let ?m = "m\<lparr>bm_ptr := rv_ptr v, bm_cap := bm_cap m + off\<rparr>"
    obtain h' where h': "ptr_copy_nonoverlapping (bm_ptr m) (rv_ptr v) (bm_len m) h = Ok ((), h')"
      "bm_in h' ?m v 0" "bm_view h' ?m = bm_view h m" "same_except (vset v) h h'"
      by (rule move_front_ok [OF i, of "bm_cap m + off"]) (use True v d in auto)
    let ?n = "?m\<lparr>bm_data := without_provenance (vec_tag 0 r)\<rparr>"
    have "bm_ok h' ?n" using h'(2) d by (intro bm_in_tag [of _ _ v 0 r]) simp_all
    moreover have "reserve_vec E m add True h = Ok ((True, ?n), h')"
      using True h'(1) d v set_vec_pos_ok [of "m\<lparr>bm_ptr := rv_ptr v\<rparr>" off r 0 E h']
        vptr_vec(2) [OF v(1)]
      by (simp add: reserve_vec_def get_vec_pos_ok [OF m])
    ultimately show ?thesis
      using h' True v n same_except_mono [OF h'(4) fp] k [of 0 ?m] fp
      by (intro that [of ?n h']) (auto simp: footprint_def without_provenance_def)
  next
    case False
    have "vec_grown (rv_cap v) (rv_len v + add) \<le> isize_max"
      using False n d v by (auto simp: vec_grown_def isize_max_def)
    then obtain v' h' where v': "rv_reserve E v add h = Ok (v', h')" "vec_ok h' v'"
      "rv_len v' = rv_len v" "rv_len v + add \<le> rv_cap v'" "rv_cap v \<le> rv_cap v'"
      "take (rv_cap v) (vcells h' v') = vcells h v" "same_except (vset v) h h'"
      "v' = v \<and> h' = h \<or> prov (rv_ptr v') = Some (fresh h)"
      using rv_reserve_ok [OF E v(1), of add] by metis
    let ?m = "m\<lparr>bm_ptr := ptr_add (rv_ptr v') off, bm_cap := rv_cap v' - off\<rparr>"
    have "off + bm_len m \<le> rv_cap v" using d v by simp
    note g = grown_cells [OF v'(6) vec_ok_bounds(5) [OF v(1)] this]
    note mv = bm_in_moved [OF i v'(2) g, of "rv_cap v' - off"]
    have mv': "bm_in h' ?m v' off" "bm_view h' ?m = bm_view h m"
      using mv v'(4) d by auto
    then have "bm_ok h' ?m" using d v' by (intro bm_in_tag [of _ _ v' off r]) simp_all
    moreover have "reserve_vec E m add True h = Ok ((True, ?m), h')"
      using False v'(1,3) d(5) vptr_vec(1) [OF v'(2)]
      by (auto simp: reserve_vec_def get_vec_pos_ok [OF m] rebuild_vec_ok [OF m])
    moreover have "footprint ?m \<subseteq> footprint m \<union> {fresh h}"
      using v'(8) v(2) by (auto simp: footprint_def)
    ultimately show ?thesis
      using mv' v' d k [of off ?m] same_except_mono [OF v'(7) fp]
      by (intro that [of ?m h']) (simp_all add: kind_def)
  qed
qed

lemma offset_from_in:
  "bm_in h m v off \<Longrightarrow> offset_from E (bm_ptr m) (rv_ptr v) = Ok off"
  by (simp add: bm_in_def offset_from_def usize_sub_def)

text \<open>The case of \<open>reserve_unique\<close> that grows the vector in the box.\<close>

lemma grow_shared_ok:
  assumes E: "good_build E" and m: "bm_arc h m v off r n"
    and c: "off + bm_len m \<le> cap" "vec_grown (rv_cap v) cap \<le> isize_max"
  obtains v1 h1 h2 m' where
    "rv_reserve E (v\<lparr>rv_len := off + bm_len m\<rparr>) (cap - (off + bm_len m)) h = Ok (v1, h1)"
    "set_shared (bm_data m) (v1, r, n) h1 = Ok ((), h2)" "vec_ok h2 v1" "cap \<le> rv_cap v1"
    "m' = m\<lparr>bm_ptr := ptr_add (rv_ptr v1) off, bm_cap := rv_cap v1 - off\<rparr>"
    "bm_arc h2 m' v1 off r n" "bm_view h2 m' = bm_view h m" "same_except (footprint m) h h2"
    "footprint m' \<subseteq> footprint m \<union> {fresh h}"
proof -
  note i = bm_arc_in [OF m]
  let ?v = "v\<lparr>rv_len := off + bm_len m\<rparr>"
  have v: "vec_ok h v" and s: "shared_at h (bm_data m) v r n" and o: "off + bm_len m \<le> rv_cap v"
    using m by (auto simp: bm_arc_def bm_in_def)
  have v2: "vec_ok h ?v" using v o by (rule vec_ok_len)
  have e: "rv_len ?v + (cap - (off + bm_len m)) = cap" using c(1) by simp
  obtain v1 h1 where r: "rv_reserve E ?v (cap - (off + bm_len m)) h = Ok (v1, h1)" "vec_ok h1 v1"
    "rv_cap ?v \<le> rv_cap v1" "cap \<le> rv_cap v1" "take (rv_cap ?v) (vcells h1 v1) = vcells h ?v"
    "same_except (vset ?v) h h1" "v1 = ?v \<and> h1 = h \<or> prov (rv_ptr v1) = Some (fresh h)"
    by (rule rv_reserve_ok [OF E v2, of "cap - (off + bm_len m)", unfolded e]) (use c(2) in simp_all)
  note r = r(1,2) r(3-6) [simplified] r(7)
  have s1: "shared_at h1 (bm_data m) v r n"
    using shared_at_frame [OF s r(6) shared_not_vec(1) [OF v s]] .
  obtain h2 where s2: "set_shared (bm_data m) (v1, r, n) h1 = Ok ((), h2)" "shared_at h2 (bm_data m) v1 r n"
    "same_except (set_option (prov (bm_data m))) h1 h2"
    by (rule set_shared_ok [OF s1, of r n v1]) (use s1 in \<open>auto simp: shared_at_def\<close>)
  note f = vec_ok_frame [OF r(2) s2(3) shared_not_vec(2) [OF r(2) s1]]
  note g = grown_cells [OF r(5) vec_ok_bounds(5) [OF v] o, folded f(2)]
  note mv = bm_in_moved [OF i f(1) g, of "rv_cap v1 - off"]
  have fp: "vset v \<union> set_option (prov (bm_data m)) \<subseteq> footprint m"
    using bm_in_footprint [OF i] by (auto simp: footprint_def)
  show thesis
    by (rule that [OF r(1) s2(1) f(1) r(4) refl])
      (use mv c(1) r(4,7) s2(2) i same_except_mono [OF same_except_trans [OF r(6) s2(3)] fp] in
        \<open>auto simp: bm_arc_def footprint_def bm_in_def\<close>)
qed

lemma reserve_unique_ok:
  assumes E: "good_build E" and m: "bm_arc h m v off r n"
    and c: "bm_len m + add \<le> isize_max div 4" "bm_cap m - bm_len m < add"
  obtains m' h' where "reserve_unique E m (bm_len m + add) True h = Ok ((True, m'), h')" "bm_ok h' m'"
    "bm_len m' = bm_len m" "bm_view h' m' = bm_view h m" "bm_len m + add \<le> bm_cap m'"
    "same_except (footprint m) h h'" "footprint m' \<subseteq> footprint m \<union> {fresh h}"
    "\<exists>v'. shared_at h' (bm_data m') v' r n"
proof -
  note i = bm_arc_in [OF m]
  have v: "vec_ok h v" "bm_ptr m = ptr_add (rv_ptr v) off" "bm_len m \<le> bm_cap m" "off + bm_cap m \<le> rv_cap v"
    and s: "shared_at h (bm_data m) v r n" using m by (auto simp: bm_arc_def bm_in_def)
  note b = vec_ok_bounds [OF v(1)]
  have fp: "vset v \<subseteq> footprint m" using bm_in_footprint [OF i] .
  have ua: "usize_add E (bm_len m + add) off = Ok (bm_len m + add + off)"
    using c v b by (simp add: usize_add_def isize_max_def usize_max_def)
  note simps = reserve_unique_def get_shared_ok [OF s] offset_from_in [OF i] ua
  consider (fits) "bm_len m + add + off \<le> rv_cap v"
    | (front) "\<not> bm_len m + add + off \<le> rv_cap v" "bm_len m + add \<le> rv_cap v" "bm_len m \<le> off"
    | (grow) "\<not> bm_len m + add + off \<le> rv_cap v" "rv_cap v < bm_len m + add \<or> off < bm_len m"
    by linarith
  then show thesis
  proof cases
    case fits
    let ?m = "m\<lparr>bm_cap := bm_len m + add\<rparr>"
    have "bm_in h ?m v off" using i fits by (simp add: bm_in_def)
    moreover have "bm_view h ?m = bm_view h m" by (simp add: bm_view_def bm_as_slice_def)
    ultimately show ?thesis using fits s
      by (intro that [of ?m h]) (auto simp: simps footprint_def bm_arc_ok [of h _ v off r n] bm_arc_def)
  next
    case front
    let ?m = "m\<lparr>bm_ptr := rv_ptr v, bm_cap := rv_cap v\<rparr>"
    obtain h' where h': "ptr_copy_nonoverlapping (bm_ptr m) (rv_ptr v) (bm_len m) h = Ok ((), h')"
      "bm_in h' ?m v 0" "bm_view h' ?m = bm_view h m" "same_except (vset v) h h'"
      by (rule move_front_ok [OF i, of "rv_cap v"]) (use front v in auto)
    have s': "shared_at h' (bm_data m) v r n"
      using shared_at_frame [OF s h'(4) shared_not_vec(1) [OF v(1) s]] .
    then have "bm_ok h' ?m" using h'(2) by (intro bm_arc_ok [of h' _ v 0 r n]) (simp add: bm_arc_def)
    then show ?thesis
      using front h' same_except_mono [OF h'(4) fp] vptr_vec(2) [OF v(1)] fp s'
      by (intro that [of ?m h']) (auto simp: simps footprint_def)
  next
    case grow
    let ?cap = "max (rv_cap v * 2) (bm_len m + add + off)"
    have dbl: "rv_cap v * 2 mod 2 ^ 64 = rv_cap v * 2" using b(3) by (simp add: isize_max_def)
    have "off + bm_len m \<le> ?cap" "vec_grown (rv_cap v) ?cap \<le> isize_max"
      using grow c v by (auto simp: vec_grown_def isize_max_def)
    then obtain v1 h1 h2 m' where g:
      "rv_reserve E (v\<lparr>rv_len := off + bm_len m\<rparr>) (?cap - (off + bm_len m)) h = Ok (v1, h1)"
      "set_shared (bm_data m) (v1, r, n) h1 = Ok ((), h2)" "vec_ok h2 v1" "?cap \<le> rv_cap v1"
      "m' = m\<lparr>bm_ptr := ptr_add (rv_ptr v1) off, bm_cap := rv_cap v1 - off\<rparr>"
      "bm_arc h2 m' v1 off r n" "bm_view h2 m' = bm_view h m" "same_except (footprint m) h h2"
      "footprint m' \<subseteq> footprint m \<union> {fresh h}"
      by (rule grow_shared_ok [OF E m])
    have "reserve_unique E m (bm_len m + add) True h = Ok ((True, m'), h2)"
      using grow g(1,2) vptr_vec(1) [OF g(3)] v(3,4) c b
      by (auto simp: simps Let_def checked_add_def dbl g(5) usize_max_def isize_max_def)
    then show ?thesis using g bm_arc_ok [OF g(6)] by (intro that [of m' h2]) (auto simp: bm_arc_def)
  qed
qed

lemma repr_le: "original_capacity_to_repr c \<le> 7"
  by (simp add: original_capacity_to_repr_def MAX_ORIGINAL_CAPACITY_WIDTH_def MIN_ORIGINAL_CAPACITY_WIDTH_def Let_def)

lemma original_capacity_bound: "r \<le> 7 \<Longrightarrow> original_capacity_from_repr r \<le> 65536"
  by (drule repr_cases, elim disjE)
    (simp_all add: original_capacity_from_repr_def MIN_ORIGINAL_CAPACITY_WIDTH_def push_bit_eq_mult)

text \<open>A shared handle leaves its vector, which then has one handle less.\<close>

lemma reserve_copy_ok:
  assumes E: "good_build E" and m: "bm_arc h m v off r n" and n: "n \<noteq> 1"
    and c: "bm_len m \<le> cap" "cap \<le> isize_max div 4"
  obtains m' h' where "reserve_copy E m cap h = Ok (m', h')" "bm_ok h' m'"
    "bm_len m' = bm_len m" "bm_view h' m' = bm_view h m" "cap \<le> bm_cap m'"
    "same_except (set_option (prov (bm_data m))) h h'" "shared_at h' (bm_data m) v r (n - 1)"
    "footprint m' \<inter> {x. x < fresh h} = {}" "prov (bm_data m') = None"
proof -
  note i = bm_arc_in [OF m]
  have s: "shared_at h (bm_data m) v r n" and r: "r \<le> 7"
    using m by (auto simp: bm_arc_def shared_at_def)
  let ?cap = "max cap (original_capacity_from_repr r)"
  have "?cap \<le> isize_max" using original_capacity_bound [OF r] c by (simp add: isize_max_def)
  then obtain v1 h1 where v1: "rv_with_capacity E ?cap h = Ok (v1, h1)" "vec_ok h1 v1" "rv_cap v1 = ?cap"
    "rv_len v1 = 0" "same_except {} h h1" "vset v1 \<inter> {x. x < fresh h} = {}"
    by (rule rv_with_capacity_ok [OF E])
  let ?bs = "map Some (bm_view h m)"
  let ?h = "set_cells h1 v1 (overwrite (vcells h1 v1) 0 ?bs)"
  have l: "length (bm_view h m) = bm_len m" using bm_view_in(2) [OF i] .
  have view1: "bm_as_slice m h1 = Ok (bm_view h m, h1)"
    using bm_as_slice_ok [OF bm_arc_ok [OF m]] bm_ok_frame [OF bm_arc_ok [OF m] v1(5)]
      bm_as_slice_ok [of h1 m] by simp
  have put: "put_cells (rv_ptr v1) ?bs h1 = Ok ((), ?h)"
    using put_cells_vec [OF v1(2), of 0 ?bs] l c v1(3) by simp
  have lc: "length (overwrite (vcells h1 v1) 0 ?bs) = rv_cap v1"
    using vec_ok_bounds(5) [OF v1(2)] v1(3) l c by simp
  note vc = vec_ok_set_cells [OF v1(2) lc]
  have f1: "same_except {} h ?h" by (rule same_except_new [OF v1(5) set_cells_frame v1(6)])
  have s1: "shared_at ?h (bm_data m) v r n" by (rule shared_at_frame [OF s f1]) simp
  obtain h2 where s2: "set_shared (bm_data m) (v, r, n - 1) ?h = Ok ((), h2)"
    "shared_at h2 (bm_data m) v r (n - 1)" "same_except (set_option (prov (bm_data m))) ?h h2"
    by (rule set_shared_ok [OF s1 r, of "n - 1" v]) (use n s in \<open>auto simp: shared_at_def\<close>)
  have "(n + 2 ^ 64 - 1) mod 2 ^ 64 = n - 1"
  proof -
    have "n + 2 ^ 64 - 1 = (n - 1) + 2 ^ 64" "n - 1 < 2 ^ 64"
      using s by (auto simp: shared_at_def isize_max_def)
    then show ?thesis by (simp only: mod_add_self2 mod_less)
  qed
  then have rel: "release_shared (bm_data m) ?h = Ok ((), h2)"
    using n s2(1) by (simp add: release_shared_def get_shared_ok [OF s1])
  note v2 = vec_ok_frame [OF vc(1) s2(3) shared_not_vec(2) [OF vc(1) s1]]
  let ?m = "m\<lparr>bm_ptr := rv_ptr v1, bm_cap := ?cap\<rparr>"
  let ?n = "?m\<lparr>bm_data := without_provenance (vec_tag 0 r)\<rparr>"
  have "take (bm_len m) (drop 0 (vcells h2 v1)) = ?bs"
    unfolding v2 vc using l by (simp add: overwrite_def)
  also have "\<dots> = take (bm_len m) (drop off (vcells h v))" using bm_view_in(3) [OF i] .
  finally have "take (bm_len m) (drop 0 (vcells h2 v1)) = take (bm_len m) (drop off (vcells h v))" .
  note mv = bm_in_moved [OF i v2(1) this, of ?cap]
  have "bm_ok h2 ?n" using mv(1) v1(3) c r by (intro bm_in_tag [of _ _ v1 0 r]) simp_all
  moreover have "reserve_copy E m cap h = Ok (?n, h2)"
    using v1(1,3,4) view1 put rel l c vptr_vec(2) [OF v2(1)] tag_make [OF r]
    by (simp add: reserve_copy_def get_shared_ok [OF s] Let_def rv_reserve_def invalid_ptr_def le_max_iff_disj)
  moreover have "same_except (set_option (prov (bm_data m))) h h2"
    using same_except_trans [OF f1 s2(3)] by simp
  ultimately show thesis
    using mv(2) v1(3,6) c s2(2) by (intro that [of ?n h2]) (auto simp: footprint_def without_provenance_def)
qed

lemma same_except_within:
  assumes "same_except X h h1" "same_except Y h1 h2" "Y \<subseteq> X \<union> {x. fresh h \<le> x}"
  shows "same_except X h h2"
proof -
  have "same_except (Y - {x. fresh h \<le> x} \<union> X) h h2"
    unfolding same_except_def
  proof (intro conjI allI impI)
    show "fresh h \<le> fresh h2" using assms(1,2) by (simp add: same_except_def)
    fix x
    assume x: "x < fresh h" "x \<notin> Y - {x. fresh h \<le> x} \<union> X"
    then have "x \<notin> Y" "x \<notin> X" "x < fresh h1" using assms(1) by (auto simp: same_except_def)
    then show "blocks h2 x = blocks h x" using assms(1,2) x(1) by (simp add: same_except_def)
  qed
  then show ?thesis by (rule same_except_mono) (use assms(3) in auto)
qed

text \<open>A handle of several has left its vector for one of its own.\<close>

definition moved_out :: "heap \<Rightarrow> bytes_mut \<Rightarrow> heap \<Rightarrow> bytes_mut \<Rightarrow> bool" where
  "moved_out h m h' m' \<longleftrightarrow>
     (\<exists>v off r n. bm_arc h m v off r n \<and> n \<noteq> 1 \<and> shared_at h' (bm_data m) v r (n - 1))
     \<and> same_except (set_option (prov (bm_data m))) h h' \<and> prov (bm_data m') = None
     \<and> footprint m' \<subseteq> {x. fresh h \<le> x}"

lemma reserve_ok:
  assumes E: "good_build E" and m: "bm_ok h m" and c: "bm_len m + add \<le> isize_max div 4"
  obtains m' h' where "bm_reserve E m add h = Ok (m', h')" "bm_ok h' m'"
    "bm_len m' = bm_len m" "bm_view h' m' = bm_view h m" "bm_len m + add \<le> bm_cap m'"
    "same_except (footprint m) h h'" "footprint m' \<subseteq> footprint m \<union> {x. fresh h \<le> x}"
    "m' = m \<and> h' = h \<or> sole h m \<and> sole h' m' \<or> moved_out h m h' m'"
proof (cases "add \<le> bm_cap m - bm_len m")
  case True
  then show ?thesis
    using m bm_ok_len [OF m] by (intro that [of m h]) (auto simp: bm_reserve_def)
next
  case False
  then have less: "bm_cap m - bm_len m < add" by simp
  show ?thesis
    using m
  proof (cases rule: bm_okE)
    case (1 v off r)
    obtain m' h' where r: "reserve_vec E m add True h = Ok ((True, m'), h')" "bm_ok h' m'"
      "bm_len m' = bm_len m" "bm_view h' m' = bm_view h m" "bm_len m + add \<le> bm_cap m'"
      "same_except (footprint m) h h'" "footprint m' \<subseteq> footprint m \<union> {fresh h}" "kind m' = KIND_VEC"
      by (rule reserve_vec_ok [OF E 1 c less])
    moreover have "sole h' m'" using r(2,8) by (auto elim!: bm_okE simp: kind_arc intro: sole_noprov dest: vec_noprov)
    ultimately show ?thesis using False sole_noprov [OF vec_noprov [OF 1]]
      by (intro that [of m' h']) (auto simp: bm_reserve_def reserve_inner_def kind_vec [OF 1])
  next
    case (2 v off r n)
    have s: "shared_at h (bm_data m) v r n" using 2 by (simp add: bm_arc_def)
    have inner: "reserve_inner E m add True h =
        (if n = 1 then reserve_unique E m (bm_len m + add) True h
         else omap (\<lambda>(m', h'). ((True, m'), h')) (reserve_copy E m (bm_len m + add) h))"
      using c by (auto simp: reserve_inner_def kind_arc [OF 2] checked_add_def usize_max_def isize_max_def
          shared_unique_def get_shared_ok [OF s] case_prod_unfold omap_def)
    show ?thesis
    proof (cases "n = 1")
      case True
      obtain m' h' where "reserve_unique E m (bm_len m + add) True h = Ok ((True, m'), h')" "bm_ok h' m'"
        "bm_len m' = bm_len m" "bm_view h' m' = bm_view h m" "bm_len m + add \<le> bm_cap m'"
        "same_except (footprint m) h h'" "footprint m' \<subseteq> footprint m \<union> {fresh h}"
        "\<exists>v'. shared_at h' (bm_data m') v' r n"
        by (rule reserve_unique_ok [OF E 2 c less])
      moreover have "sole h m" using s True by (auto intro: sole_shared)
      ultimately show ?thesis
        using False True sole_shared [of h' m'] by (intro that [of m' h']) (auto simp: bm_reserve_def inner)
    next
      case shared: False
      obtain m' h' where r: "reserve_copy E m (bm_len m + add) h = Ok (m', h')" "bm_ok h' m'"
        "bm_len m' = bm_len m" "bm_view h' m' = bm_view h m" "bm_len m + add \<le> bm_cap m'"
        "same_except (set_option (prov (bm_data m))) h h'" "footprint m' \<inter> {x. x < fresh h} = {}"
        "shared_at h' (bm_data m) v r (n - 1)" "prov (bm_data m') = None"
        by (rule reserve_copy_ok [OF E 2 shared _ c]) simp
      have "same_except (footprint m) h h'" by (rule same_except_mono [OF r(6)]) (simp add: footprint_def)
      moreover have f: "footprint m' \<subseteq> {x. fresh h \<le> x}" using r(7) by (auto simp: not_le)
      moreover have "moved_out h m h' m'" using 2 shared r(6,8,9) f unfolding moved_out_def by blast
      ultimately show ?thesis
        using False shared r by (intro that [of m' h']) (auto simp: bm_reserve_def inner)
    qed
  qed
qed

section \<open>Writing\<close>

text \<open>The bound up to which doubling the capacity of a vector, twice, cannot overflow.\<close>

definition bm_room :: "bytes_mut \<Rightarrow> nat" where
  "bm_room m = isize_max div 4 - 64 - bm_len m"

text \<open>A handle stays good while its vector holds written bytes where it looks.\<close>

lemma bm_ok_keeps:
  assumes "bm_ok h m"
  obtains v off where "bm_in h m v off"
    "\<And>h' m'. bm_in h' m' v off \<Longrightarrow> bm_data m' = bm_data m \<Longrightarrow> bm_cap m' = bm_cap m \<Longrightarrow>
      same_except (vset v) h h' \<Longrightarrow> bm_ok h' m'"
  using assms
proof (cases rule: bm_okE)
  case (1 v off r)
  then show ?thesis by (intro that [of v off]) (auto simp: bm_vec_def intro: bm_in_tag)
next
  case (2 v off r n)
  then have v: "vec_ok h v" and s: "shared_at h (bm_data m) v r n" by (auto simp: bm_arc_def bm_in_def)
  show ?thesis
  proof (rule that [OF bm_arc_in [OF 2]])
    fix h' m'
    assume a: "bm_in h' m' v off" "bm_data m' = bm_data m" "same_except (vset v) h h'"
    then have "shared_at h' (bm_data m') v r n"
      using shared_at_frame [OF s a(3) shared_not_vec(1) [OF v s]] by simp
    then show "bm_ok h' m'" using a(1) by (intro bm_arc_ok [of _ _ v off r n]) (simp add: bm_arc_def)
  qed
qed

text \<open>Writing into the spare capacity and moving the length over it.\<close>

lemma bm_write_ok:
  assumes m: "bm_ok h m" and l: "bm_len m + length bs \<le> bm_cap m"
  obtains h' where "put_cells (ptr_add (bm_ptr m) (bm_len m)) (map Some bs) h = Ok ((), h')"
    "bm_ok h' m" "bm_view h' m = bm_view h m"
    "bm_ok h' (m\<lparr>bm_len := bm_len m + length bs\<rparr>)"
    "bm_view h' (m\<lparr>bm_len := bm_len m + length bs\<rparr>) = bm_view h m @ bs"
    "same_except (footprint m) h h'"
proof -
  obtain v off where i: "bm_in h m v off"
    and ok: "\<And>h' m'. bm_in h' m' v off \<Longrightarrow> bm_data m' = bm_data m \<Longrightarrow> bm_cap m' = bm_cap m \<Longrightarrow>
      same_except (vset v) h h' \<Longrightarrow> bm_ok h' m'"
    using bm_ok_keeps [OF m] by metis
  have v: "vec_ok h v" "bm_ptr m = ptr_add (rv_ptr v) off" "off + bm_cap m \<le> rv_cap v"
    using i by (auto simp: bm_in_def)
  let ?c = "overwrite (vcells h v) (off + bm_len m) (map Some bs)"
  let ?h = "set_cells h v ?c" and ?m = "m\<lparr>bm_len := bm_len m + length bs\<rparr>"
  have put: "put_cells (ptr_add (bm_ptr m) (bm_len m)) (map Some bs) h = Ok ((), ?h)"
    using put_cells_vec [OF v(1), of "off + bm_len m" "map Some bs"] v l by simp
  have cl: "length (vcells h v) = rv_cap v" by (rule vec_ok_bounds(5) [OF v(1)])
  have lc: "length ?c = rv_cap v" using l v cl by simp
  note vc = vec_ok_set_cells [OF v(1) lc]
  have t: "take (bm_len m + length bs) (drop off ?c) = take (bm_len m) (drop off (vcells h v)) @ map Some bs"
    using l v(3) cl by (simp add: overwrite_def drop_take)
  have i': "bm_in ?h ?m v off"
    using i l v cl by (auto simp: bm_in_def vc t)
  have view': "bm_view ?h ?m = bm_view h m @ bs"
    using bm_view_in(1) [OF i'] bm_view_in(1) [OF i] by (simp add: vc t comp_def)
  have t0: "take (bm_len m) (drop off ?c) = take (bm_len m) (drop off (vcells h v))"
    using l v(3) cl by (simp add: overwrite_def drop_take)
  have i0: "bm_in ?h m v off" using i by (simp add: bm_in_def vc t0)
  have view0: "bm_view ?h m = bm_view h m"
    using bm_view_in(1) [OF i0] bm_view_in(1) [OF i] by (simp add: vc t0)
  have fr: "same_except (footprint m) h ?h"
    by (rule same_except_mono [OF set_cells_frame bm_in_footprint [OF i]])
  have "bm_ok ?h m" "bm_ok ?h ?m" using i0 i' by (simp_all add: ok [OF _ _ _ set_cells_frame])
  then show thesis using put view' view0 fr by (intro that [of ?h]) auto
qed

lemma bm_set_ok:
  assumes m: "bm_ok h m" and l: "i < bm_len m"
  obtains h' where "put_cells (ptr_add (bm_ptr m) i) [Some b] h = Ok ((), h')" "bm_ok h' m"
    "bm_view h' m = (bm_view h m)[i := b]" "same_except (footprint m) h h'"
proof -
  obtain v off where i: "bm_in h m v off"
    and ok: "\<And>h' m'. bm_in h' m' v off \<Longrightarrow> bm_data m' = bm_data m \<Longrightarrow> bm_cap m' = bm_cap m \<Longrightarrow>
      same_except (vset v) h h' \<Longrightarrow> bm_ok h' m'"
    using bm_ok_keeps [OF m] by metis
  have v: "vec_ok h v" "bm_ptr m = ptr_add (rv_ptr v) off" "off + bm_len m \<le> rv_cap v"
    using i by (auto simp: bm_in_def)
  let ?c = "overwrite (vcells h v) (off + i) [Some b]"
  let ?h = "set_cells h v ?c"
  have put: "put_cells (ptr_add (bm_ptr m) i) [Some b] h = Ok ((), ?h)"
    using put_cells_vec [OF v(1), of "off + i" "[Some b]"] v l by simp
  have cl: "length (vcells h v) = rv_cap v" by (rule vec_ok_bounds(5) [OF v(1)])
  have c: "?c = (vcells h v)[off + i := Some b]" using l v(3) cl by (simp add: overwrite_def upd_conv_take_nth_drop)
  have lc: "length ?c = rv_cap v" using cl c by simp
  note vc = vec_ok_set_cells [OF v(1) lc]
  have t: "take (bm_len m) (drop off ?c) = (take (bm_len m) (drop off (vcells h v)))[i := Some b]"
    unfolding c by (simp add: drop_update_swap take_update_swap)
  have i': "bm_in ?h m v off" using i set_update_subset_insert [of "take (bm_len m) (drop off (vcells h v))" i "Some b"]
    by (auto simp: bm_in_def vc t)
  have "bm_view ?h m = (bm_view h m)[i := b]"
    using bm_view_in(1) [OF i'] bm_view_in(1) [OF i] by (simp add: vc t map_update)
  then show thesis
    using that [of ?h] put ok [OF i' refl refl set_cells_frame] same_except_mono [OF set_cells_frame bm_in_footprint [OF i]] by blast
qed

lemma append_ok:
  assumes E: "good_build E" and m: "bm_ok h m" and l: "length bs \<le> bm_room m"
  obtains m1 h1 m' h' where "bm_reserve E m (length bs) h = Ok (m1, h1)"
    "put_cells (ptr_add (bm_ptr m1) (bm_len m1)) (map Some bs) h1 = Ok ((), h')"
    "bm_len m1 = bm_len m" "bm_len m + length bs \<le> bm_cap m1" "m' = m1\<lparr>bm_len := bm_len m + length bs\<rparr>"
    "bm_ok h' m'" "bm_view h' m' = bm_view h m @ bs" "same_except (footprint m) h h'"
    "footprint m' \<subseteq> footprint m \<union> {x. fresh h \<le> x}" "bm_room m' = bm_room m - length bs"
proof (cases "bs = []")
  case True
  obtain m1 h1 where r: "bm_reserve E m 0 h = Ok (m1, h1)" "bm_ok h1 m1" "bm_len m1 = bm_len m"
    "bm_view h1 m1 = bm_view h m" "same_except (footprint m) h h1" "m1 = m"
    using m by (simp add: bm_reserve_def)
  then show ?thesis
    using True bm_ok_len [OF m] by (intro that [of m1 h1 h1 m1]) (simp_all add: put_cells_def)
next
  case False
  have "0 < length bs" using False by simp
  then have "bm_len m + length bs \<le> isize_max div 4" using l unfolding bm_room_def by linarith
  then obtain m1 h1 where r: "bm_reserve E m (length bs) h = Ok (m1, h1)" "bm_ok h1 m1"
    "bm_len m1 = bm_len m" "bm_view h1 m1 = bm_view h m" "bm_len m + length bs \<le> bm_cap m1"
    "same_except (footprint m) h h1" "footprint m1 \<subseteq> footprint m \<union> {x. fresh h \<le> x}"
    by (rule reserve_ok [OF E m])
  have "bm_len m1 + length bs \<le> bm_cap m1" using r by simp
  then obtain h2 where w: "put_cells (ptr_add (bm_ptr m1) (bm_len m1)) (map Some bs) h1 = Ok ((), h2)"
    "bm_ok h2 (m1\<lparr>bm_len := bm_len m1 + length bs\<rparr>)"
    "bm_view h2 (m1\<lparr>bm_len := bm_len m1 + length bs\<rparr>) = bm_view h1 m1 @ bs"
    "same_except (footprint m1) h1 h2"
    by (rule bm_write_ok [OF r(2)])
  have "same_except (footprint m) h h2"
    by (rule same_except_within [OF r(6) w(4) r(7)])
  then show ?thesis
    using r w by (intro that [of m1 h1 h2 "m1\<lparr>bm_len := bm_len m + length bs\<rparr>"])
      (auto simp: footprint_def bm_room_def)
qed

lemma extend_from_slice_ok:
  assumes "good_build E" "bm_ok h m" "length bs \<le> bm_room m"
  obtains m' h' where "bm_extend_from_slice E m bs h = Ok (m', h')" "bm_ok h' m'"
    "bm_view h' m' = bm_view h m @ bs" "same_except (footprint m) h h'"
    "footprint m' \<subseteq> footprint m \<union> {x. fresh h \<le> x}" "bm_room m' = bm_room m - length bs"
    "bm_len m' = bm_len m + length bs"
  by (rule append_ok [OF assms])
    (rule that, auto simp: bm_extend_from_slice_def spare_capacity_mut_def bm_advance_mut_def Let_def)

lemma put_bytes_ok:
  assumes "good_build E" "bm_ok h m" "n \<le> bm_room m"
  obtains m' h' where "bm_put_bytes E m b n h = Ok (m', h')" "bm_ok h' m'"
    "bm_view h' m' = bm_view h m @ replicate n b" "same_except (footprint m) h h'"
    "bm_room m' = bm_room m - n"
  by (rule append_ok [OF assms(1,2), of "replicate n b"])
    (use assms(3) in simp, rule that,
     auto simp: bm_put_bytes_def spare_capacity_mut_def bm_advance_mut_def Let_def)

section \<open>The traits\<close>

abbreviation bm_invar :: "bytes_mut \<times> heap \<Rightarrow> bool" where
  "bm_invar s \<equiv> bm_ok (snd s) (fst s)"

abbreviation bm_bytes :: "bytes_mut \<times> heap \<Rightarrow> u8 list" where
  "bm_bytes s \<equiv> bm_view (snd s) (fst s)"

lemma bm_chunk_eq: "bm_chunk s = bm_bytes s"
  by (cases s) (simp add: bm_chunk_def bm_view_def)

lemma bm_advance_ok:
  assumes "good_build E" "bm_ok h m" "n \<le> bm_len m"
  obtains m' h' where "bm_advance E m n h = Ok (m', h')" "bm_ok h' m'" "bm_view h' m' = drop n (bm_view h m)"
proof -
  have "n \<le> bm_cap m" using assms bm_ok_len [of h m] by simp
  then obtain d h' where
    "advance_unchecked E m n h = Ok (advanced (m\<lparr>bm_data := d\<rparr>) n, h')"
    "bm_ok h' (advanced (m\<lparr>bm_data := d\<rparr>) n)"
    "bm_view h' (advanced (m\<lparr>bm_data := d\<rparr>) n) = drop n (bm_view h m)"
    by (rule advance_unchecked_ok [OF assms(1,2)])
  then show thesis using assms(3) by (intro that) (simp_all add: bm_advance_def)
qed

lemma bm_meets_buf:
  assumes E: "good_build E"
  shows "buf_required_contract (bm_required E) bm_invar bm_bytes"
proof (unfold_locales, goal_cases)
  case (4 s n)
  obtain m h where s: "s = (m, h)" by (cases s)
  with 4 have "bm_ok h m" "n \<le> bm_len m" by (simp_all add: length_bm_view)
  then obtain m' h' where "bm_advance E m n h = Ok (m', h')" "bm_ok h' m'" "bm_view h' m' = drop n (bm_view h m)"
    by (rule bm_advance_ok [OF E])
  then show ?case by (simp add: s bm_required_def)
qed (auto simp: bm_required_def bm_chunk_eq length_bm_view bm_advance_def require_def guard_def)

lemma bm_chunk_mut_ok:
  assumes E: "good_build E" and m: "bm_ok h m" and r: "0 < bm_room m"
  obtains m' h' where "bm_chunk_mut E m h = Ok ((bm_cap m' - bm_len m', m'), h')" "bm_ok h' m'"
    "bm_len m' = bm_len m" "bm_view h' m' = bm_view h m" "bm_len m' < bm_cap m'"
proof (cases "bm_cap m = bm_len m")
  case True
  have "bm_len m + 64 \<le> isize_max div 4" using r unfolding bm_room_def by linarith
  then obtain m' h' where "bm_reserve E m 64 h = Ok (m', h')" "bm_ok h' m'"
    "bm_len m' = bm_len m" "bm_view h' m' = bm_view h m" "bm_len m + 64 \<le> bm_cap m'"
    by (rule reserve_ok [OF E m])
  then show ?thesis using True by (intro that [of m' h']) (simp_all add: bm_chunk_mut_def spare_capacity_mut_def)
next
  case False
  then show ?thesis using m bm_ok_len [OF m]
    by (intro that [of m h]) (simp_all add: bm_chunk_mut_def spare_capacity_mut_def)
qed

lemma bm_meets_bufmut:
  assumes E: "good_build E"
  shows "bufmut_contract (bm_bufmut E) bm_invar bm_bytes (\<lambda>s. bm_room (fst s))"
proof (unfold_locales, goal_cases)
  case (1 s)
  then show ?case
    by (cases s) (simp add: bm_bufmut_def required_of_def bm_room_def bm_remaining_mut_def isize_max_def usize_max_def)
next
  case (2 s)
  obtain m h where s: "s = (m, h)" by (cases s)
  with 2 have "bm_ok h m" "0 < bm_room m" by simp_all
  then obtain m' h' where c: "bm_chunk_mut E m h = Ok ((bm_cap m' - bm_len m', m'), h')" "bm_ok h' m'"
    "bm_len m' = bm_len m" "bm_view h' m' = bm_view h m" "bm_len m' < bm_cap m'"
    by (rule bm_chunk_mut_ok [OF E])
  have "bm_cap m' \<le> isize_max"
    using c(2) by (rule bm_ok_in) (auto simp: bm_in_def dest: vec_ok_bounds(3))
  then have n: "bm_cap m' - bm_len m' \<le> bm_remaining_mut m"
    using c(3) by (simp add: bm_remaining_mut_def isize_max_def usize_max_def)
  have len: "fst (bm_chunk_write (m', h') bs) = m'" for bs
    by (simp add: bm_chunk_write_def split: outcome.splits)
  have w: "\<exists>s2. lift (bm_advance_mut (fst (bm_chunk_write (m', h') bs)) (length bs)) (snd (bm_chunk_write (m', h') bs))
        = Ok s2 \<and> bm_invar s2 \<and> bm_bytes s2 = bm_view h m @ bs \<and> bm_room (fst s2) = bm_room m - length bs
        \<and> bm_remaining_mut (fst s2) = bm_remaining_mut m - length bs"
    if "length bs \<le> bm_cap m' - bm_len m'" for bs
  proof -
    have "bm_len m' + length bs \<le> bm_cap m'" using that c(5) by simp
    then obtain h2 where "put_cells (ptr_add (bm_ptr m') (bm_len m')) (map Some bs) h' = Ok ((), h2)"
      "bm_ok h2 (m'\<lparr>bm_len := bm_len m' + length bs\<rparr>)"
      "bm_view h2 (m'\<lparr>bm_len := bm_len m' + length bs\<rparr>) = bm_view h' m' @ bs"
      by (rule bm_write_ok [OF c(2)])
    then show ?thesis
      using that c(3,4) by (simp add: bm_chunk_write_def spare_capacity_mut_def bm_advance_mut_def
          bm_room_def bm_remaining_mut_def Let_def)
  qed
  show ?case
    using c(1,3,5) n w len s
    by (auto simp: bm_bufmut_def required_of_def case_prod_unfold bm_remaining_mut_def)
next
  case (3 s bs)
  obtain m h where s: "s = (m, h)" by (cases s)
  with 3 have "bm_ok h m" "length bs \<le> bm_room m" by simp_all
  then obtain m' h' where "bm_extend_from_slice E m bs h = Ok (m', h')" "bm_ok h' m'"
    "bm_view h' m' = bm_view h m @ bs" "bm_room m' = bm_room m - length bs"
    by (rule extend_from_slice_ok [OF E])
  then show ?case by (simp add: s bm_bufmut_def bm_put_slice_def appends_def)
next
  case (4 s n b)
  obtain m h where s: "s = (m, h)" by (cases s)
  with 4 have "bm_ok h m" "n \<le> bm_room m" by simp_all
  then obtain m' h' where "bm_put_bytes E m b n h = Ok (m', h')" "bm_ok h' m'"
    "bm_view h' m' = bm_view h m @ replicate n b" "bm_room m' = bm_room m - n"
    by (rule put_bytes_ok [OF E])
  then show ?case by (simp add: s bm_bufmut_def appends_def)
qed

interpretation bm_read: buf_required_contract "bm_required plain_build" bm_invar bm_bytes
  by (rule bm_meets_buf [OF good_plain_build])

interpretation bm_write: bufmut_contract "bm_bufmut plain_build" bm_invar bm_bytes "\<lambda>s. bm_room (fst s)"
  by (rule bm_meets_bufmut [OF good_plain_build])

end
