(* ===== verification/Bytes_Mut_World.thy ===== *)
theory Bytes_Mut_World
  imports Bytes_Mut_Contract
begin

text \<open>
  Many \<open>BytesMut\<close> handles at once. A world is a heap with the list of its handles; it is good when
  every handle is good, two handles have no block in common or disjoint stretches of one shared
  vector, and the count in a shared box is the number of its handles. Each operation on one
  handle of a good world gives a good world, in which the bytes of the other handles are what
  they were: the handles implement a list of independent byte strings.
\<close>

section \<open>Good worlds\<close>

definition shares :: "bytes_mut \<Rightarrow> bytes_mut \<Rightarrow> bool" where
  "shares m x \<longleftrightarrow>
     prov (bm_data m) \<noteq> None \<and> bm_data x = bm_data m \<and> prov (bm_ptr x) = prov (bm_ptr m)
     \<and> (bm_cap m = 0 \<or> bm_cap x = 0 \<or> addr (bm_ptr m) + bm_cap m \<le> addr (bm_ptr x)
          \<or> addr (bm_ptr x) + bm_cap x \<le> addr (bm_ptr m))"

definition apart :: "bytes_mut \<Rightarrow> bytes_mut \<Rightarrow> bool" where
  "apart m x \<longleftrightarrow> footprint m \<inter> footprint x = {} \<or> shares m x"

definition refs :: "bytes_mut list \<Rightarrow> ptr \<Rightarrow> nat" where
  "refs ms p = length (filter (\<lambda>m. bm_data m = p) ms)"

definition counted :: "heap \<Rightarrow> bytes_mut list \<Rightarrow> bytes_mut \<Rightarrow> bool" where
  "counted h ms m \<longleftrightarrow> (\<forall>v r n. shared_at h (bm_data m) v r n \<longrightarrow> n = refs ms (bm_data m))"

definition world :: "heap \<Rightarrow> bytes_mut list \<Rightarrow> bool" where
  "world h ms \<longleftrightarrow> (\<forall>m \<in> set ms. bm_ok h m \<and> counted h ms m) \<and> sorted_wrt apart ms"

lemma refs_simps [simp]:
  "refs [] p = 0" "refs (m # ms) p = (if bm_data m = p then Suc (refs ms p) else refs ms p)"
  "refs (xs @ ys) p = refs xs p + refs ys p"
  by (simp_all add: refs_def)

lemma refs_zero: "(\<And>m. m \<in> set ms \<Longrightarrow> bm_data m \<noteq> p) \<Longrightarrow> refs ms p = 0"
  by (induction ms) auto

lemma apart_sym: "apart m x \<longleftrightarrow> apart x m"
  by (auto simp: apart_def shares_def)

lemmas apart_symD = apart_sym [THEN iffD1]

lemma new_disjoint:
  assumes "A \<subseteq> B \<union> {x. k \<le> x}" "C \<inter> B = {}" "C \<subseteq> {x. x < (k :: nat)}"
  shows "A \<inter> C = {}"
proof -
  have "x \<in> B" if "x \<in> A" "x \<in> C" for x using assms(1,3) that by force
  then show ?thesis using assms(2) by blast
qed

lemma world_move: "world h (xs @ ns @ ys) \<longleftrightarrow> world h (ns @ xs @ ys)"
proof -
  have "counted h (xs @ ns @ ys) = counted h (ns @ xs @ ys)" by (simp add: fun_eq_iff counted_def add.left_commute)
  moreover have "sorted_wrt apart (xs @ ns @ ys) \<longleftrightarrow> sorted_wrt apart (ns @ xs @ ys)"
    using apart_symD by (auto simp: sorted_wrt_append)
  ultimately show ?thesis by (auto simp: world_def)
qed

lemma ok_below: "bm_ok h m \<Longrightarrow> footprint m \<subseteq> {x. x < fresh h}"
  by (auto elim!: bm_okE vec_okE simp: footprint_def bm_vec_def bm_arc_def bm_in_def shared_at_def without_provenance_def)

lemma data_footprint: "set_option (prov (bm_data m)) \<subseteq> footprint m"
  by (simp add: footprint_def)

lemma shares_meet: "shares m x \<Longrightarrow> footprint m \<inter> footprint x \<noteq> {}"
  by (auto simp: shares_def footprint_def)

lemma counted_noprov: "prov (bm_data m) = None \<Longrightarrow> counted h ms m"
  by (simp add: counted_def shared_at_def)

lemma shares_arc:
  assumes "shares m x" "bm_ok h m"
  obtains v off r n where "bm_arc h m v off r n"
  using assms by (auto elim!: bm_okE simp: shares_def dest: vec_noprov)

lemma shares_in:
  assumes sh: "shares m x" and m: "bm_arc h m v off r n" and x: "bm_ok h x"
  obtains o' where "bm_arc h x v o' r n" "bm_cap m = 0 \<or> bm_cap x = 0 \<or> off + bm_cap m \<le> o' \<or> o' + bm_cap x \<le> off"
proof -
  have d: "prov (bm_data m) \<noteq> None" "bm_data x = bm_data m" using sh by (simp_all add: shares_def)
  obtain v' o' r' n' where a: "bm_arc h x v' o' r' n'"
    using x by (rule bm_okE) (use d in \<open>auto dest: vec_noprov\<close>)
  have "shared_at h (bm_data m) v r n" "shared_at h (bm_data m) v' r' n'" using m a d(2) by (simp_all add: bm_arc_def)
  then have e: "v' = v" "r' = r" "n' = n" using shared_at_unique by blast+
  have "bm_ptr m = ptr_add (rv_ptr v) off" "bm_ptr x = ptr_add (rv_ptr v) o'"
    using m a e by (simp_all add: bm_arc_def bm_in_def)
  then have "bm_cap m = 0 \<or> bm_cap x = 0 \<or> off + bm_cap m \<le> o' \<or> o' + bm_cap x \<le> off"
    using sh by (auto simp: shares_def)
  then show thesis using that a e by blast
qed

text \<open>Two handles with the same box share its vector.\<close>

lemma same_box:
  assumes "apart m x" "bm_arc h m v off r n" "bm_data x = bm_data m"
  shows "shares m x"
proof -
  have "footprint m \<inter> footprint x \<noteq> {}" using assms(2,3) by (auto simp: footprint_def bm_arc_def shared_at_def)
  then show ?thesis using assms(1) by (simp add: apart_def)
qed

lemma sole_apart:
  assumes w: "world h (m # rest)" and s: "sole h m" and x: "x \<in> set rest"
  shows "\<not> shares m x"
proof
  assume sh: "shares m x"
  obtain v off r n where a: "bm_arc h m v off r n" by (rule shares_arc [OF sh]) (use w in \<open>auto simp: world_def\<close>)
  have "bm_data x = bm_data m" using sh by (simp add: shares_def)
  then have "0 < refs rest (bm_data m)" using x by (auto simp: refs_def filter_empty_conv)
  moreover have "n = Suc (refs rest (bm_data m))" using w a by (auto simp: world_def counted_def bm_arc_def)
  moreover have "n = 1" using s a unfolding sole_def bm_arc_def by blast
  ultimately show False by simp
qed

section \<open>Steps of one handle\<close>

lemma counted_frame:
  assumes "counted h (m # rest) x" "same_except X h h'" "footprint x \<inter> X = {}" "bm_ok h x"
    and "footprint m \<inter> footprint x = {}" "\<And>n. n \<in> set ns \<Longrightarrow> footprint n \<inter> footprint x = {}"
  shows "counted h' (ns @ rest) x"
  unfolding counted_def
proof (intro allI impI)
  fix v r n assume s: "shared_at h' (bm_data x) v r n"
  then obtain b where b: "prov (bm_data x) = Some b" by (auto simp: shared_at_def)
  then have bx: "b \<in> footprint x" by (simp add: footprint_def)
  then have "blocks h' b = blocks h b" "b < fresh h"
    using assms(2,3) ok_below [OF assms(4)] by (auto dest: same_exceptD)
  then have "shared_at h (bm_data x) v r n" using s b by (simp add: shared_at_def)
  then have n: "n = refs (m # rest) (bm_data x)" using assms(1) by (simp add: counted_def)
  have ne: "bm_data y \<noteq> bm_data x" if "footprint y \<inter> footprint x = {}" for y
    using that b bx by (auto simp: footprint_def)
  have "refs ns (bm_data x) = 0" using assms(6) ne by (intro refs_zero) blast
  then show "n = refs (ns @ rest) (bm_data x)" using n ne [OF assms(5)] by simp
qed

lemma world_step:
  assumes w: "world h (m # rest)" and f: "same_except (footprint m) h h'"
    and ns: "\<And>n. n \<in> set ns \<Longrightarrow> bm_ok h' n \<and> counted h' (ns @ rest) n \<and> footprint n \<subseteq> footprint m \<union> {x. fresh h \<le> x}"
      "sorted_wrt apart ns"
    and sh: "\<And>x. x \<in> set rest \<Longrightarrow> shares m x \<Longrightarrow> bm_ok h' x \<and> bm_view h' x = bm_view h x
      \<and> counted h' (ns @ rest) x \<and> (\<forall>n \<in> set ns. apart n x)"
  shows "world h' (ns @ rest)" "map (bm_view h') rest = map (bm_view h) rest"
proof -
  have all: "bm_ok h' x \<and> bm_view h' x = bm_view h x \<and> counted h' (ns @ rest) x \<and> (\<forall>n \<in> set ns. apart n x)"
    if x: "x \<in> set rest" for x
  proof (cases "shares m x")
    case True
    from sh [OF x this] show ?thesis .
  next
    case False
    have ok: "bm_ok h x" and c: "counted h (m # rest) x" and a: "apart m x" using w x by (auto simp: world_def)
    then have d: "footprint x \<inter> footprint m = {}" using False by (auto simp: apart_def)
    have n: "footprint n \<inter> footprint x = {}" if "n \<in> set ns" for n
      by (rule new_disjoint [OF _ d ok_below [OF ok]]) (use ns(1) [OF that] in simp)
    have "counted h' (ns @ rest) x"
      by (rule counted_frame [OF c f d ok _ n]) (use d in auto)
    then show ?thesis using bm_ok_frame [OF ok f d] n by (simp add: apart_def)
  qed
  then show "map (bm_view h') rest = map (bm_view h) rest" by simp
  have "sorted_wrt apart rest" using w by (simp add: world_def)
  moreover have "bm_ok h' y \<and> counted h' (ns @ rest) y" if "y \<in> set (ns @ rest)" for y
    using that all ns(1) by fastforce
  ultimately show "world h' (ns @ rest)"
    using all ns(2) by (simp add: world_def sorted_wrt_append)
qed

lemma world_private:
  assumes w: "world h (m # rest)" and s: "sole h m" and f: "same_except (footprint m) h h'"
    and ns: "\<And>n. n \<in> set ns \<Longrightarrow> bm_ok h' n \<and> counted h' ns n \<and> footprint n \<subseteq> footprint m \<union> {x. fresh h \<le> x}"
      "sorted_wrt apart ns"
  shows "world h' (ns @ rest)" "map (bm_view h') rest = map (bm_view h) rest"
proof -
  have "counted h' (ns @ rest) n" if n: "n \<in> set ns" for n
    unfolding counted_def
  proof (intro allI impI)
    fix v r k assume sa: "shared_at h' (bm_data n) v r k"
    have "bm_data x \<noteq> bm_data n" if x: "x \<in> set rest" for x
    proof
      assume e: "bm_data x = bm_data n"
      have d: "footprint x \<inter> footprint m = {}" using w sole_apart [OF w s x] x by (auto simp: world_def apart_def)
      have "bm_ok h x" using w x by (simp add: world_def)
      from new_disjoint [OF _ d ok_below [OF this]] have "footprint n \<inter> footprint x = {}" using ns(1) [OF n] by simp
      moreover obtain b where "b \<in> footprint x" "b \<in> footprint n" using sa e by (auto simp: shared_at_def footprint_def)
      ultimately show False by blast
    qed
    then have "refs rest (bm_data n) = 0" by (rule refs_zero)
    moreover have "k = refs ns (bm_data n)" using ns(1) [OF n] sa unfolding counted_def by blast
    ultimately show "k = refs (ns @ rest) (bm_data n)" by simp
  qed
  then have ns': "bm_ok h' n \<and> counted h' (ns @ rest) n \<and> footprint n \<subseteq> footprint m \<union> {x. fresh h \<le> x}"
    if "n \<in> set ns" for n using ns(1) [OF that] that by simp
  note st = world_step [OF w f ns' ns(2)]
  show "world h' (ns @ rest)" by (rule st(1)) (simp_all add: sole_apart [OF w s])
  show "map (bm_view h') rest = map (bm_view h) rest" by (rule st(2)) (simp_all add: sole_apart [OF w s])
qed

section \<open>Shrinking a handle\<close>

definition within :: "bytes_mut \<Rightarrow> bytes_mut \<Rightarrow> bool" where
  "within m' m \<longleftrightarrow> bm_data m' = bm_data m \<and> prov (bm_ptr m') = prov (bm_ptr m)
     \<and> addr (bm_ptr m) \<le> addr (bm_ptr m') \<and> addr (bm_ptr m') + bm_cap m' \<le> addr (bm_ptr m) + bm_cap m"

lemma within_footprint: "within m' m \<Longrightarrow> footprint m' = footprint m"
  by (simp add: within_def footprint_def)

lemma apart_within: "apart m x \<Longrightarrow> within m' m \<Longrightarrow> apart m' x"
  by (auto simp: apart_def within_footprint) (auto simp: shares_def within_def)

lemma counted_within: "within m' m \<Longrightarrow> counted h (m' # rest) = counted h (m # rest)"
  by (simp add: fun_eq_iff counted_def within_def)

lemma world_shrink:
  assumes "world h (m # rest)" "bm_ok h m'" "within m' m"
  shows "world h (m' # rest)"
proof -
  have "counted h (m # rest) m'" using assms(1,3) by (simp add: world_def counted_def within_def)
  then show ?thesis
    using assms apart_within [OF _ assms(3)] by (simp add: world_def counted_within [OF assms(3)])
qed

lemma world_ok: "world h (m # rest) \<Longrightarrow> bm_ok h m"
  by (simp add: world_def)

lemma kind_cases:
  assumes "bm_ok h m"
  obtains "kind m = KIND_VEC" "prov (bm_data m) = None" "sole h m"
  | v off r n where "kind m = KIND_ARC" "bm_arc h m v off r n"
  using assms
proof (cases rule: bm_okE)
  case (1 v off r)
  show ?thesis by (rule that(1) [OF kind_vec [OF 1] vec_noprov [OF 1] sole_noprov [OF vec_noprov [OF 1]]])
next
  case (2 v off r n)
  show ?thesis by (rule that(2) [OF kind_arc [OF 2] 2])
qed

lemma counted_sole: "sole h m \<Longrightarrow> counted h [m] m"
  by (auto simp: counted_def sole_def)

lemma world_one:
  assumes "world h (m # rest)" "sole h m" "same_except (footprint m) h h'" "bm_ok h' m'" "sole h' m'"
    "footprint m' \<subseteq> footprint m \<union> {x. fresh h \<le> x}"
  shows "world h' (m' # rest)" "map (bm_view h') rest = map (bm_view h) rest"
  using world_private [OF assms(1-3), of "[m']"] assms(4,6) counted_sole [OF assms(5)] by simp_all

lemma same_except_any: "same_except {} h h' \<Longrightarrow> same_except X h h'"
  by (erule same_except_mono) simp

definition acts :: "heap \<Rightarrow> bytes_mut list \<Rightarrow> u8 list list \<Rightarrow> (bytes_mut list \<times> heap) outcome \<Rightarrow> bool" where
  "acts h rest vs res \<longleftrightarrow> (\<exists>ns h'. res = Ok (ns, h') \<and> world h' (ns @ rest) \<and> map (bm_view h') ns = vs
     \<and> map (bm_view h') rest = map (bm_view h) rest)"

lemma actsI:
  assumes "res = Ok (ns, h')" "world h' (ns @ rest)" "map (bm_view h') ns = vs"
    "map (bm_view h') rest = map (bm_view h) rest"
  shows "acts h rest vs res"
  using assms by (auto simp: acts_def)

abbreviation one :: "bytes_mut act \<Rightarrow> bytes_mut list act" where
  "one a \<equiv> bind a (\<lambda>m. ret [m])"

lemma world_advance:
  assumes E: "good_build E" and w: "world h (m # rest)" and k: "k \<le> bm_len m"
  shows "acts h rest [drop k (bm_view h m)] (one (bm_advance E m k) h)"
proof -
  note ok = world_ok [OF w]
  have c: "k \<le> bm_cap m" using k bm_ok_len [OF ok] by simp
  obtain d h' where d: "advance_unchecked E m k h = Ok (advanced (m\<lparr>bm_data := d\<rparr>) k, h')"
    "bm_ok h' (advanced (m\<lparr>bm_data := d\<rparr>) k)"
    "bm_view h' (advanced (m\<lparr>bm_data := d\<rparr>) k) = drop k (bm_view h m)"
    "same_except {} h h'" "kind m = KIND_ARC \<Longrightarrow> d = bm_data m \<and> h' = h"
    "kind m = KIND_VEC \<Longrightarrow> prov d \<in> {None, Some (fresh h)}"
    "kind m = KIND_VEC \<Longrightarrow> sole h' (advanced (m\<lparr>bm_data := d\<rparr>) k)"
    using advance_unchecked_ok [OF E ok c] by blast
  let ?m = "advanced (m\<lparr>bm_data := d\<rparr>) k"
  have "world h' (?m # rest) \<and> map (bm_view h') rest = map (bm_view h) rest"
    using ok
  proof (cases rule: kind_cases)
    case 1
    have "footprint ?m \<subseteq> footprint m \<union> {x. fresh h \<le> x}" using d(6) [OF 1(1)] by (auto simp: footprint_def)
    then show ?thesis using world_one [OF w 1(3) same_except_any [OF d(4)] d(2) d(7) [OF 1(1)]] by simp
  next
    case (2 v off r n)
    have "within ?m m" using d(5) [OF 2(1)] c by (simp add: within_def)
    then show ?thesis using world_shrink [OF w, of ?m] d(2) d(5) [OF 2(1)] by simp
  qed
  then show ?thesis using d(1,3) k by (intro actsI [of _ "[?m]" h']) (simp_all add: bm_advance_def)
qed

lemma bm_ok_truncate:
  assumes "bm_ok h m" "k \<le> bm_len m"
  shows "bm_ok h (m\<lparr>bm_len := k\<rparr>)" "bm_view h (m\<lparr>bm_len := k\<rparr>) = take k (bm_view h m)"
proof -
  obtain v off where i: "bm_in h m v off" and keep: "\<And>h' m'. bm_in h' m' v off \<Longrightarrow> bm_data m' = bm_data m \<Longrightarrow>
      bm_cap m' = bm_cap m \<Longrightarrow> same_except (vset v) h h' \<Longrightarrow> bm_ok h' m'"
    using bm_ok_keeps [OF assms(1)] by blast
  have "m\<lparr>bm_len := k\<rparr> = \<lparr>bm_ptr = ptr_add (bm_ptr m) 0, bm_len = k, bm_cap = bm_cap m, bm_data = bm_data m\<rparr>" by simp
  from bm_in_shrink [OF i _ _ _ this] assms(2) bm_ok_len [OF assms(1)]
  have "bm_in h (m\<lparr>bm_len := k\<rparr>) v off" "bm_view h (m\<lparr>bm_len := k\<rparr>) = take k (bm_view h m)" by simp_all
  then show "bm_ok h (m\<lparr>bm_len := k\<rparr>)" "bm_view h (m\<lparr>bm_len := k\<rparr>) = take k (bm_view h m)"
    using keep [of h "m\<lparr>bm_len := k\<rparr>"] by simp_all
qed

lemma world_truncate:
  assumes w: "world h (m # rest)"
  shows "acts h rest [take k (bm_view h m)] (one (bm_truncate E m k) h)"
proof (cases "k \<le> bm_len m")
  case True
  have "within (m\<lparr>bm_len := k\<rparr>) m" by (simp add: within_def)
  then show ?thesis
    using True world_shrink [OF w] bm_ok_truncate [OF world_ok [OF w] True] bm_ok_len [OF world_ok [OF w]]
    by (intro actsI [of _ "[m\<lparr>bm_len := k\<rparr>]" h]) (simp_all add: bm_truncate_def bm_set_len_def)
next
  case False
  then show ?thesis
    using w length_bm_view [OF world_ok [OF w]] by (intro actsI [of _ "[m]" h]) (simp_all add: bm_truncate_def)
qed

section \<open>Writing\<close>

lemma overwrite_outside:
  assumes "i + length ys \<le> length xs" "o' + n \<le> i \<or> i + length ys \<le> o'"
  shows "take n (drop o' (overwrite xs i ys)) = take n (drop o' xs)"
  using assms(2)
proof
  assume "o' + n \<le> i"
  then have "take (o' + n) (overwrite xs i ys) = take (o' + n) xs" using assms(1) by (intro take_overwrite) simp_all
  then show ?thesis by (simp add: take_drop add.commute)
qed (use assms(1) in \<open>simp add: drop_overwrite\<close>)

lemma overwrite_Nil: "overwrite xs i [] = xs"
  by (simp add: overwrite_def)

lemma bm_arc_written:
  assumes m: "bm_arc h m v off r n" and c: "length c = rv_cap v"
    and x: "bm_arc h x v o' r n" "take (bm_len x) (drop o' c) = take (bm_len x) (drop o' (vcells h v))"
  shows "bm_arc (set_cells h v c) x v o' r n" "bm_view (set_cells h v c) x = bm_view h x"
proof -
  have v: "vec_ok h v" "shared_at h (bm_data x) v r n" using x(1) by (simp_all add: bm_arc_def bm_in_def)
  note vc = vec_ok_set_cells [OF v(1) c]
  have i: "bm_in (set_cells h v c) x v o'" using x vc by (simp add: bm_arc_def bm_in_def)
  moreover have "shared_at (set_cells h v c) (bm_data x) v r n"
    by (rule shared_at_frame [OF v(2) set_cells_frame shared_not_vec(1) [OF v]])
  ultimately show "bm_arc (set_cells h v c) x v o' r n" by (simp add: bm_arc_def)
  show "bm_view (set_cells h v c) x = bm_view h x"
    using bm_view_in(1) [OF i] bm_view_in(1) [OF bm_arc_in [OF x(1)]] x(2) vc(2) by simp
qed

lemma countedI:
  assumes "shared_at h (bm_data x) v r n" "n = refs ms (bm_data x)"
  shows "counted h ms x"
  unfolding counted_def using shared_at_unique [OF assms(1)] assms(2) by blast

lemma counted_eq: "counted h ms x \<Longrightarrow> shared_at h (bm_data x) v r n \<Longrightarrow> n = refs ms (bm_data x)"
  unfolding counted_def by blast

text \<open>Writing within the capacity of a handle leaves every other handle as it is.\<close>

lemma world_put:
  assumes w: "world h (m # rest)" and l: "k + length bs \<le> bm_cap m" and wi: "within m' m"
    and h': "put_cells (ptr_add (bm_ptr m) k) (map Some bs) h = Ok ((), h')" "bm_ok h' m'" "same_except (footprint m) h h'"
  shows "world h' (m' # rest)" "map (bm_view h') rest = map (bm_view h) rest"
proof -
  have "world h' (m' # rest) \<and> map (bm_view h') rest = map (bm_view h) rest"
    using world_ok [OF w]
  proof (cases rule: kind_cases)
    case 1
    have "sole h' m'" using 1(2) wi by (intro sole_noprov) (simp add: within_def)
    then show ?thesis using world_one [OF w 1(3) h'(3,2)] within_footprint [OF wi] by simp
  next
    case (2 v off r n)
    let ?c = "overwrite (vcells h v) (off + k) (map Some bs)"
    have v: "vec_ok h v" "bm_ptr m = ptr_add (rv_ptr v) off" "off + bm_cap m \<le> rv_cap v"
      "shared_at h (bm_data m) v r n" using 2(2) by (auto simp: bm_arc_def bm_in_def)
    have lv: "length (vcells h v) = rv_cap v" by (rule vec_ok_bounds(5) [OF v(1)])
    have lc: "length ?c = rv_cap v" using lv l v(3) by simp
    have he: "h' = set_cells h v ?c"
      using h'(1) put_cells_vec [OF v(1), of "off + k" "map Some bs"] v(2,3) l by simp
    have s': "shared_at h' p v r n" if "shared_at h p v r n" for p
      unfolding he by (rule shared_at_frame [OF that set_cells_frame shared_not_vec(1) [OF v(1) that]])
    have d: "bm_data m' = bm_data m" using wi by (simp add: within_def)
    have cnt: "counted h' ([m'] @ rest) x" if "counted h (m # rest) x" "shared_at h (bm_data x) v r n" for x
      by (rule countedI [OF s' [OF that(2)]]) (use counted_eq [OF that] d in simp)
    have other: "bm_ok h' x \<and> bm_view h' x = bm_view h x \<and> counted h' ([m'] @ rest) x \<and> (\<forall>n \<in> set [m']. apart n x)"
      if x: "x \<in> set rest" and sh: "shares m x" for x
    proof -
      have ok: "bm_ok h x" "counted h (m # rest) x" "apart m x" using w x by (simp_all add: world_def)
      obtain o' where o: "bm_arc h x v o' r n"
        "bm_cap m = 0 \<or> bm_cap x = 0 \<or> off + bm_cap m \<le> o' \<or> o' + bm_cap x \<le> off"
        by (rule shares_in [OF sh 2(2) ok(1)])
      have "bm_len x = 0 \<or> bs = [] \<or> o' + bm_len x \<le> off + k \<or> off + k + length bs \<le> o'"
        using o(2) l bm_ok_len [OF ok(1)] by auto
      then have "take (bm_len x) (drop o' ?c) = take (bm_len x) (drop o' (vcells h v))"
        using l v(3) lv overwrite_outside [of "off + k" "map Some bs" "vcells h v" o' "bm_len x"]
        by (auto simp: overwrite_Nil)
      note xa = bm_arc_written [OF 2(2) lc o(1) this]
      have "counted h' ([m'] @ rest) x" using cnt [OF ok(2)] o(1) by (simp add: bm_arc_def)
      then show ?thesis using bm_arc_ok [OF xa(1)] xa(2) apart_within [OF ok(3) wi] he by simp
    qed
    have "counted h (m # rest) m" using w by (simp add: world_def)
    then have "counted h' ([m'] @ rest) m'" using cnt [OF _ v(4)] d by (simp add: counted_def)
    then have n: "\<And>n. n \<in> set [m'] \<Longrightarrow> bm_ok h' n \<and> counted h' ([m'] @ rest) n \<and> footprint n \<subseteq> footprint m \<union> {x. fresh h \<le> x}"
      using h'(2) within_footprint [OF wi] by simp
    have so: "sorted_wrt apart [m']" by simp
    show ?thesis using world_step [OF w h'(3) n so other] by simp
  qed
  then show "world h' (m' # rest)" "map (bm_view h') rest = map (bm_view h) rest" by simp_all
qed

lemma world_write:
  assumes w: "world h (m # rest)" and l: "bm_len m + length bs \<le> bm_cap m"
  obtains h' where "put_cells (ptr_add (bm_ptr m) (bm_len m)) (map Some bs) h = Ok ((), h')"
    "world h' (m\<lparr>bm_len := bm_len m + length bs\<rparr> # rest)"
    "bm_view h' (m\<lparr>bm_len := bm_len m + length bs\<rparr>) = bm_view h m @ bs"
    "map (bm_view h') rest = map (bm_view h) rest"
proof -
  let ?m = "m\<lparr>bm_len := bm_len m + length bs\<rparr>"
  have wi: "within ?m m" by (simp add: within_def)
  obtain h' where h': "put_cells (ptr_add (bm_ptr m) (bm_len m)) (map Some bs) h = Ok ((), h')"
    "bm_ok h' ?m" "bm_view h' ?m = bm_view h m @ bs" "same_except (footprint m) h h'"
    by (rule bm_write_ok [OF world_ok [OF w] l])
  then show thesis using that world_put [OF w l wi h'(1,2,4)] by blast
qed

lemma world_set:
  assumes w: "world h (m # rest)" and l: "i < bm_len m"
  shows "acts h rest [(bm_view h m)[i := b]] (one (bm_slice_set m i b) h)"
proof -
  obtain h' where h': "put_cells (ptr_add (bm_ptr m) i) [Some b] h = Ok ((), h')" "bm_ok h' m"
    "bm_view h' m = (bm_view h m)[i := b]" "same_except (footprint m) h h'"
    by (rule bm_set_ok [OF world_ok [OF w] l])
  have "i + length [b] \<le> bm_cap m" "within m m" using l bm_ok_len [OF world_ok [OF w]] by (simp_all add: within_def)
  from world_put [OF w this] h'(1,2,4) have "world h' (m # rest)" "map (bm_view h') rest = map (bm_view h) rest" by simp_all
  then show ?thesis using h'(1,3) l by (intro actsI [of _ "[m]" h']) (simp_all add: bm_slice_set_def)
qed

section \<open>Reserving and appending\<close>

lemma world_reserve:
  assumes E: "good_build E" and w: "world h (m # rest)" and c: "bm_len m + add \<le> isize_max div 4"
  obtains m' h' where "bm_reserve E m add h = Ok (m', h')" "world h' (m' # rest)"
    "bm_len m' = bm_len m" "bm_view h' m' = bm_view h m" "bm_len m + add \<le> bm_cap m'"
    "map (bm_view h') rest = map (bm_view h) rest"
proof -
  obtain m' h' where r: "bm_reserve E m add h = Ok (m', h')" "bm_ok h' m'"
    "bm_len m' = bm_len m" "bm_view h' m' = bm_view h m" "bm_len m + add \<le> bm_cap m'"
    "same_except (footprint m) h h'" "footprint m' \<subseteq> footprint m \<union> {x. fresh h \<le> x}"
    "m' = m \<and> h' = h \<or> sole h m \<and> sole h' m' \<or> moved_out h m h' m'"
    by (rule reserve_ok [OF E world_ok [OF w] c])
  from r(8) have "world h' (m' # rest) \<and> map (bm_view h') rest = map (bm_view h) rest"
  proof (elim disjE)
    assume "m' = m \<and> h' = h"
    then show ?thesis using w by simp
  next
    assume "sole h m \<and> sole h' m'"
    then show ?thesis using world_one [OF w _ r(6,2) _ r(7)] by simp
  next
    assume mo: "moved_out h m h' m'"
    then obtain v off r n where a: "bm_arc h m v off r n" "n \<noteq> 1" "shared_at h' (bm_data m) v r (n - 1)"
      by (auto simp: moved_out_def)
    have mo: "same_except (set_option (prov (bm_data m))) h h'" "prov (bm_data m') = None"
      "footprint m' \<subseteq> {x. fresh h \<le> x}" using mo by (simp_all add: moved_out_def)
    have s: "shared_at h (bm_data m) v r n" using a(1) by (simp add: bm_arc_def)
    have ne: "bm_data m' \<noteq> bm_data m" using mo(2) s by (auto simp: shared_at_def)
    have "counted h (m # rest) m" using w by (simp add: world_def)
    from counted_eq [OF this s] have "n = refs (m # rest) (bm_data m)" .
    then have cnt: "n - 1 = refs ([m'] @ rest) (bm_data m)" using ne by simp
    have other: "bm_ok h' x \<and> bm_view h' x = bm_view h x \<and> counted h' ([m'] @ rest) x \<and> (\<forall>n \<in> set [m']. apart n x)"
      if x: "x \<in> set rest" and sh: "shares m x" for x
    proof -
      have ok: "bm_ok h x" using w x by (simp add: world_def)
      obtain o' where o: "bm_arc h x v o' r n" by (rule shares_in [OF sh a(1) ok])
      have d: "bm_data x = bm_data m" using sh by (simp add: shares_def)
      have v: "vec_ok h v" using o by (simp add: bm_arc_def bm_in_def)
      note i = bm_in_frame [OF bm_arc_in [OF o] mo(1) shared_not_vec(2) [OF v s]]
      have "bm_arc h' x v o' r (n - 1)" using i(1) a(3) d by (simp add: bm_arc_def)
      moreover have "counted h' ([m'] @ rest) x"
        by (rule countedI [of _ _ v r "n - 1"]) (use a(3) cnt d in simp_all)
      moreover have "footprint m' \<inter> footprint x = {}"
        by (rule new_disjoint [of _ "{}", OF _ _ ok_below [OF ok]]) (use mo(3) in auto)
      ultimately show ?thesis using i(2) bm_arc_ok [of h' x] by (simp add: apart_def)
    qed
    have n: "\<And>n. n \<in> set [m'] \<Longrightarrow> bm_ok h' n \<and> counted h' ([m'] @ rest) n \<and> footprint n \<subseteq> footprint m \<union> {x. fresh h \<le> x}"
      using r(2,7) counted_noprov [OF mo(2)] by simp
    have so: "sorted_wrt apart [m']" by simp
    show ?thesis using world_step [OF w r(6) n so other] by simp
  qed
  then show thesis using that r by blast
qed

lemma world_extend:
  assumes E: "good_build E" and w: "world h (m # rest)" and l: "bm_len m + length bs \<le> isize_max div 4"
  shows "acts h rest [bm_view h m @ bs] (one (bm_extend_from_slice E m bs) h)"
proof -
  obtain m1 h1 where r: "bm_reserve E m (length bs) h = Ok (m1, h1)" "world h1 (m1 # rest)"
    "bm_len m1 = bm_len m" "bm_view h1 m1 = bm_view h m" "bm_len m + length bs \<le> bm_cap m1"
    "map (bm_view h1) rest = map (bm_view h) rest"
    by (rule world_reserve [OF E w l])
  have l1: "bm_len m1 + length bs \<le> bm_cap m1" using r(3,5) by simp
  obtain h' where h': "put_cells (ptr_add (bm_ptr m1) (bm_len m1)) (map Some bs) h1 = Ok ((), h')"
    "world h' (m1\<lparr>bm_len := bm_len m1 + length bs\<rparr> # rest)"
    "bm_view h' (m1\<lparr>bm_len := bm_len m1 + length bs\<rparr>) = bm_view h1 m1 @ bs"
    "map (bm_view h') rest = map (bm_view h1) rest"
    by (rule world_write [OF r(2) l1])
  then show ?thesis
    using r l1 by (intro actsI [of _ "[m1\<lparr>bm_len := bm_len m1 + length bs\<rparr>]" h'])
      (simp_all add: bm_extend_from_slice_def Let_def spare_capacity_mut_def bm_advance_mut_def)
qed

lemma world_resize:
  assumes E: "good_build E" and w: "world h (m # rest)" and l: "n \<le> isize_max div 4"
  shows "acts h rest [take n (bm_view h m) @ replicate (n - bm_len m) b] (one (bm_resize E m n b) h)"
proof -
  have lv: "length (bm_view h m) = bm_len m" by (rule length_bm_view [OF world_ok [OF w]])
  consider "n < bm_len m" | "n = bm_len m" | "bm_len m < n" by linarith
  then show ?thesis
  proof cases
    case 1
    then show ?thesis using world_truncate [OF w, of n E] by (simp add: bm_resize_def checked_sub_def)
  next
    case 2
    then show ?thesis using w lv by (intro actsI [of _ "[m]" h]) (simp_all add: bm_resize_def checked_sub_def)
  next
    case 3
    let ?bs = "replicate (n - bm_len m) b"
    have c: "bm_len m + (n - bm_len m) \<le> isize_max div 4" using 3 l by simp
    obtain m1 h1 where r: "bm_reserve E m (n - bm_len m) h = Ok (m1, h1)" "world h1 (m1 # rest)"
      "bm_len m1 = bm_len m" "bm_view h1 m1 = bm_view h m" "bm_len m + (n - bm_len m) \<le> bm_cap m1"
      "map (bm_view h1) rest = map (bm_view h) rest"
      by (rule world_reserve [OF E w c])
    have l1: "bm_len m1 + length ?bs \<le> bm_cap m1" using r(3,5) by simp
    obtain h' where "put_cells (ptr_add (bm_ptr m1) (bm_len m1)) (map Some ?bs) h1 = Ok ((), h')"
      "world h' (m1\<lparr>bm_len := bm_len m1 + length ?bs\<rparr> # rest)"
      "bm_view h' (m1\<lparr>bm_len := bm_len m1 + length ?bs\<rparr>) = bm_view h1 m1 @ ?bs"
      "map (bm_view h') rest = map (bm_view h1) rest"
      by (rule world_write [OF r(2) l1])
    moreover have "bm_len m1 + length ?bs = n" using r(3) 3 by simp
    ultimately show ?thesis
      using r l1 3 lv by (intro actsI [of _ "[m1\<lparr>bm_len := n\<rparr>]" h'])
        (simp_all add: bm_resize_def checked_sub_def spare_capacity_mut_def bm_set_len_def)
  qed
qed

section \<open>Splitting\<close>

text \<open>The other handles of a box whose count has changed to the number of its handles.\<close>

lemma recount:
  assumes m: "bm_arc h m v off r n" and sh: "shares m x" and x: "bm_ok h x"
    and f: "same_except (set_option (prov (bm_data m))) h h'" and s': "shared_at h' (bm_data m) v r n'"
    and n': "n' = refs ms (bm_data m)"
  shows "bm_ok h' x" "bm_view h' x = bm_view h x" "counted h' ms x"
proof -
  obtain o' where o: "bm_arc h x v o' r n" by (rule shares_in [OF sh m x])
  have d: "bm_data x = bm_data m" using sh by (simp add: shares_def)
  have v: "vec_ok h v" and s: "shared_at h (bm_data m) v r n" using o d by (simp_all add: bm_arc_def bm_in_def)
  note i = bm_in_frame [OF bm_arc_in [OF o] f shared_not_vec(2) [OF v s]]
  show "bm_ok h' x" by (rule bm_arc_ok [of _ _ v o' r n']) (use i(1) s' d in \<open>simp add: bm_arc_def\<close>)
  show "bm_view h' x = bm_view h x" by (rule i(2))
  show "counted h' ms x" by (rule countedI [of _ _ v r n']) (use s' n' d in simp_all)
qed

lemma advance_arc:
  assumes "bm_arc h m v off r n" "k \<le> bm_cap m"
  shows "advance_unchecked E m k h = Ok (advanced m k, h)"
proof (cases "k = 0")
  case False
  then show ?thesis
    using advance_unchecked_step [OF False assms(2) bm_arc_in [OF assms(1)], of E "bm_data m" h] kind_arc [OF assms(1)]
    by simp
qed (simp add: advance_unchecked_def)

abbreviation lower :: "bytes_mut \<Rightarrow> nat \<Rightarrow> bytes_mut" where
  "lower m at \<equiv> m\<lparr>bm_cap := at, bm_len := min (bm_len m) at\<rparr>"

lemma halves:
  assumes m: "bm_arc h m v off r n" and at: "at \<le> bm_cap m"
  shows "bm_arc h (lower m at) v off r n" "bm_view h (lower m at) = take at (bm_view h m)"
    "bm_arc h (advanced m at) v (off + at) r n" "bm_view h (advanced m at) = drop at (bm_view h m)"
    "within (lower m at) m" "within (advanced m at) m" "shares (lower m at) (advanced m at)"
proof -
  note i = bm_arc_in [OF m]
  have "lower m at = \<lparr>bm_ptr = ptr_add (bm_ptr m) 0, bm_len = min (bm_len m) at, bm_cap = at, bm_data = bm_data m\<rparr>" by simp
  from bm_in_shrink [OF i _ _ _ this] at
  have "bm_in h (lower m at) v off" "bm_view h (lower m at) = take (min (bm_len m) at) (bm_view h m)" by simp_all
  then show "bm_arc h (lower m at) v off r n" "bm_view h (lower m at) = take at (bm_view h m)"
    using m bm_view_in(2) [OF i] by (simp_all add: bm_arc_def min_def)
  show "bm_arc h (advanced m at) v (off + at) r n" by (rule bm_arc_advanced [OF m at])
  show "bm_view h (advanced m at) = drop at (bm_view h m)" by (rule bm_in_advanced(2) [OF i at])
  show "within (lower m at) m" "within (advanced m at) m" using at by (simp_all add: within_def)
  show "shares (lower m at) (advanced m at)" using m by (auto simp: shares_def bm_arc_def shared_at_def)
qed

lemma clone_vec:
  assumes E: "good_build E" and w: "world h (m # rest)" and k: "kind m = KIND_VEC" "sole h m" and at: "at \<le> bm_cap m"
  obtains d h' v off r n where "shallow_clone E m h = Ok ((m\<lparr>bm_data := d\<rparr>, m\<lparr>bm_data := d\<rparr>), h')"
    "bm_arc h' (m\<lparr>bm_data := d\<rparr>) v off r n" "bm_view h' (m\<lparr>bm_data := d\<rparr>) = bm_view h m"
    "world h' ([lower (m\<lparr>bm_data := d\<rparr>) at, advanced (m\<lparr>bm_data := d\<rparr>) at] @ rest)"
    "map (bm_view h') rest = map (bm_view h) rest"
proof -
  obtain v off r where vec: "bm_vec h m v off r"
    using world_ok [OF w] by (rule bm_okE) (use k kind_arc in auto)
  obtain m1 h1 where p: "promote_to_shared E m 2 h = Ok (m1, h1)" "bm_arc h1 m1 v off r 2"
    "m1 = m\<lparr>bm_data := bm_data m1\<rparr>" "same_except {} h h1" "prov (bm_data m1) = Some (fresh h)"
    "bm_view h1 m1 = bm_view h m"
    by (rule promote_to_shared_ok [OF E vec, where n = 2]) simp
  define d where "d = bm_data m1"
  have m1: "m1 = m\<lparr>bm_data := d\<rparr>" using p(3) by (simp add: d_def)
  have at1: "at \<le> bm_cap m1" using at m1 by simp
  note hv = halves [OF p(2) at1]
  let ?ns = "[lower m1 at, advanced m1 at]"
  have fp: "footprint m1 \<subseteq> footprint m \<union> {x. fresh h \<le> x}" using p(5) m1 by (auto simp: footprint_def)
  have "counted h1 ?ns n \<and> bm_ok h1 n \<and> footprint n = footprint m1" if "n \<in> set ?ns" for n
    using that hv(1,3,5,6) within_footprint [of _ m1] bm_arc_ok
    by (auto intro!: countedI [of _ _ v r 2] simp: bm_arc_def)
  then have ns: "bm_ok h1 n \<and> counted h1 ?ns n \<and> footprint n \<subseteq> footprint m \<union> {x. fresh h \<le> x}" if "n \<in> set ?ns" for n
    using that fp by blast
  have so: "sorted_wrt apart ?ns" using hv(7) by (simp add: apart_def)
  have "shallow_clone E m h = Ok ((m1, m1), h1)" using k(1) p(1) by (simp add: shallow_clone_def)
  then show thesis
    using that [of d h1 v off r 2] world_private [OF w k(2) same_except_any [OF p(4)] ns so] p(2,6)
    unfolding m1 by simp
qed

lemma clone_arc:
  assumes w: "world h (m # rest)" and m: "bm_arc h m v off r n" and at: "at \<le> bm_cap m" and l: "length rest < isize_max"
  obtains h' where "shallow_clone E m h = Ok ((m, m), h')" "bm_arc h' m v off r (n + 1)" "bm_view h' m = bm_view h m"
    "world h' ([lower m at, advanced m at] @ rest)" "map (bm_view h') rest = map (bm_view h) rest"
proof -
  have s: "shared_at h (bm_data m) v r n" and v: "vec_ok h v" using m by (simp_all add: bm_arc_def bm_in_def)
  have "counted h (m # rest) m" using w by (simp add: world_def)
  then have n: "n = Suc (refs rest (bm_data m))" using counted_eq [OF _ s] by simp
  moreover have "refs rest (bm_data m) \<le> length rest" by (simp add: refs_def)
  ultimately have nl: "n \<le> isize_max" using l by simp
  have r: "r \<le> 7" using s by (simp add: shared_at_def)
  obtain h' where h': "set_shared (bm_data m) (v, r, n + 1) h = Ok ((), h')" "shared_at h' (bm_data m) v r (n + 1)"
    "same_except (set_option (prov (bm_data m))) h h'"
    by (rule set_shared_ok [OF s r, of "n + 1" v]) (use nl in simp_all)
  have "(n + 1) mod 2 ^ 64 = n + 1" using nl by (simp add: isize_max_def)
  then have cl: "shallow_clone E m h = Ok ((m, m), h')"
    using h'(1) nl by (simp add: shallow_clone_def kind_arc [OF m] increment_shared_def get_shared_ok [OF s])
  note i = bm_in_frame [OF bm_arc_in [OF m] h'(3) shared_not_vec(2) [OF v s]]
  have a: "bm_arc h' m v off r (n + 1)" using i(1) h'(2) by (simp add: bm_arc_def)
  note hv = halves [OF a at]
  let ?ns = "[lower m at, advanced m at]"
  have cnt: "n + 1 = refs (?ns @ rest) (bm_data m)" using n by simp
  have "counted h' (?ns @ rest) x \<and> bm_ok h' x \<and> footprint x = footprint m" if "x \<in> set ?ns" for x
    using that hv(1,3,5,6) within_footprint [of _ m] bm_arc_ok cnt
    by (auto intro!: countedI [of _ _ v r "n + 1"] simp: bm_arc_def)
  then have ns: "bm_ok h' x \<and> counted h' (?ns @ rest) x \<and> footprint x \<subseteq> footprint m \<union> {x. fresh h \<le> x}"
    if "x \<in> set ?ns" for x using that by blast
  have so: "sorted_wrt apart ?ns" using hv(7) by (simp add: apart_def)
  have f: "same_except (footprint m) h h'" by (rule same_except_mono [OF h'(3) data_footprint])
  have other: "bm_ok h' x \<and> bm_view h' x = bm_view h x \<and> counted h' (?ns @ rest) x \<and> (\<forall>n \<in> set ?ns. apart n x)"
    if x: "x \<in> set rest" and sh: "shares m x" for x
  proof -
    have ok: "bm_ok h x" "apart m x" using w x by (simp_all add: world_def)
    show ?thesis
      using recount [OF m sh ok(1) h'(3,2) cnt] apart_within [OF ok(2) hv(5)] apart_within [OF ok(2) hv(6)] by simp
  qed
  show thesis using that [OF cl a i(2)] world_step [OF w f ns so other] by blast
qed

lemma world_clone:
  assumes E: "good_build E" and w: "world h (m # rest)" and at: "at \<le> bm_cap m" and l: "length rest < isize_max"
  obtains d h' v off r n where "shallow_clone E m h = Ok ((m\<lparr>bm_data := d\<rparr>, m\<lparr>bm_data := d\<rparr>), h')"
    "bm_arc h' (m\<lparr>bm_data := d\<rparr>) v off r n" "bm_view h' (m\<lparr>bm_data := d\<rparr>) = bm_view h m"
    "world h' ([lower (m\<lparr>bm_data := d\<rparr>) at, advanced (m\<lparr>bm_data := d\<rparr>) at] @ rest)"
    "map (bm_view h') rest = map (bm_view h) rest"
  using world_ok [OF w]
proof (cases rule: kind_cases)
  case 1
  show ?thesis by (rule clone_vec [OF E w 1(1,3) at that])
next
  case (2 v off r n)
  obtain h' where "shallow_clone E m h = Ok ((m, m), h')" "bm_arc h' m v off r (n + 1)" "bm_view h' m = bm_view h m"
    "world h' ([lower m at, advanced m at] @ rest)" "map (bm_view h') rest = map (bm_view h) rest"
    by (rule clone_arc [OF w 2(2) at l])
  then show ?thesis using that [of "bm_data m" h' v off r "n + 1"] by simp
qed

lemma world_split_off:
  assumes E: "good_build E" and w: "world h (m # rest)" and at: "at \<le> bm_cap m" and l: "length rest < isize_max"
  shows "acts h rest [take at (bm_view h m), drop at (bm_view h m)]
    (bind (bm_split_off E m at) (\<lambda>(other, self). ret [self, other]) h)"
proof -
  obtain d h' v off r n where c: "shallow_clone E m h = Ok ((m\<lparr>bm_data := d\<rparr>, m\<lparr>bm_data := d\<rparr>), h')"
    "bm_arc h' (m\<lparr>bm_data := d\<rparr>) v off r n" "bm_view h' (m\<lparr>bm_data := d\<rparr>) = bm_view h m"
    "world h' ([lower (m\<lparr>bm_data := d\<rparr>) at, advanced (m\<lparr>bm_data := d\<rparr>) at] @ rest)"
    "map (bm_view h') rest = map (bm_view h) rest"
    by (rule world_clone [OF E w at l])
  have at': "at \<le> bm_cap (m\<lparr>bm_data := d\<rparr>)" using at by simp
  note hv = halves [OF c(2) at']
  show ?thesis
    by (rule actsI [OF _ c(4) _ c(5)])
      (use at c(1,3) advance_arc [OF c(2) at'] hv(2,4) in \<open>simp_all add: bm_split_off_def\<close>)
qed

lemma world_split_to:
  assumes E: "good_build E" and w: "world h (m # rest)" and at: "at \<le> bm_len m" and l: "length rest < isize_max"
  shows "acts h rest [take at (bm_view h m), drop at (bm_view h m)]
    (bind (bm_split_to E m at) (\<lambda>(other, self). ret [other, self]) h)"
proof -
  have cap: "at \<le> bm_cap m" using at bm_ok_len [OF world_ok [OF w]] by simp
  obtain d h' v off r n where c: "shallow_clone E m h = Ok ((m\<lparr>bm_data := d\<rparr>, m\<lparr>bm_data := d\<rparr>), h')"
    "bm_arc h' (m\<lparr>bm_data := d\<rparr>) v off r n" "bm_view h' (m\<lparr>bm_data := d\<rparr>) = bm_view h m"
    "world h' ([lower (m\<lparr>bm_data := d\<rparr>) at, advanced (m\<lparr>bm_data := d\<rparr>) at] @ rest)"
    "map (bm_view h') rest = map (bm_view h) rest"
    by (rule world_clone [OF E w cap l])
  have at': "at \<le> bm_cap (m\<lparr>bm_data := d\<rparr>)" using cap by simp
  note hv = halves [OF c(2) at']
  show ?thesis
    by (rule actsI [OF _ c(4) _ c(5)])
      (use at c(1,3) advance_arc [OF c(2) at'] hv(2,4) in \<open>simp_all add: bm_split_to_def\<close>)
qed

section \<open>Dropping\<close>

lemma count_down: "0 < n \<Longrightarrow> n \<le> isize_max + 1 \<Longrightarrow> (n + 2 ^ 64 - 1) mod 2 ^ 64 = n - 1"
proof -
  assume "0 < n" "n \<le> isize_max + 1"
  then have "n + 2 ^ 64 - 1 = (n - 1) + 2 ^ 64" "n - 1 < 2 ^ 64" by (auto simp: isize_max_def)
  then show ?thesis by (simp only: mod_add_self2 mod_less)
qed

lemma release_last:
  assumes s: "shared_at h p v r 1" and v: "vec_ok h v"
  obtains h' where "release_shared p h = Ok ((), h')" "same_except (set_option (prov p) \<union> vset v) h h'"
proof -
  obtain b where b: "prov p = Some b" "b < fresh h" "blocks h b = Some (VecShared (addr p) v r 1)"
    using s by (auto simp: shared_at_def)
  let ?h = "h\<lparr>blocks := (blocks h)(b := Some (VecShared (addr p) v r 0))\<rparr>"
  have f: "same_except (set_option (prov p)) h ?h" using b by (simp add: same_except_def)
  have v1: "vec_ok ?h v" by (rule vec_ok_frame(1) [OF v f shared_not_vec(2) [OF v s]])
  obtain h1 where h1: "rv_drop v ?h = Ok ((), h1)" "same_except (vset v) ?h h1" "fresh h1 = fresh ?h"
    by (rule rv_drop_ok [OF v1])
  let ?h2 = "h1\<lparr>blocks := (blocks h1)(b := None)\<rparr>"
  have "get_shared p ?h = Ok ((v, r, 0), ?h)" using b by (simp add: get_shared_def)
  moreover have "set_shared p (v, r, 0) h = Ok ((), ?h)" using b by (simp add: set_shared_def)
  ultimately have "release_shared p h = Ok ((), ?h2)"
    using h1(1) b(1) by (simp add: release_shared_def get_shared_ok [OF s] drop_shared_def free_block_def)
  moreover have "same_except (set_option (prov p)) h1 ?h2" using b by (simp add: same_except_def)
  then have "same_except (set_option (prov p) \<union> vset v) h ?h2"
    using same_except_trans [OF same_except_trans [OF f h1(2)]] by (auto intro: same_except_mono)
  ultimately show thesis by (rule that)
qed

lemma release_down:
  assumes s: "shared_at h p v r n" and n: "n \<noteq> 1"
  obtains h' where "release_shared p h = Ok ((), h')" "shared_at h' p v r (n - 1)" "same_except (set_option (prov p)) h h'"
proof -
  have b: "0 < n" "n \<le> isize_max + 1" "r \<le> 7" using s by (simp_all add: shared_at_def)
  obtain h' where h': "set_shared p (v, r, n - 1) h = Ok ((), h')" "shared_at h' p v r (n - 1)"
    "same_except (set_option (prov p)) h h'"
    by (rule set_shared_ok [OF s b(3), of "n - 1" v]) (use b n in simp_all)
  have "release_shared p h = Ok ((), h')"
    using h'(1) n count_down [OF b(1,2)] by (simp add: release_shared_def get_shared_ok [OF s])
  then show thesis using h'(2,3) by (rule that)
qed

lemma world_drop:
  assumes w: "world h (m # rest)"
  shows "acts h rest [] (bind (bm_drop E m) (\<lambda>_. ret []) h)"
  using world_ok [OF w]
proof (cases rule: bm_okE)
  case (1 v off r)
  have v: "vec_ok h v" using bm_vec_in [OF 1] by (simp add: bm_in_def)
  obtain h' where h': "rv_drop v h = Ok ((), h')" "same_except (vset v) h h'" by (rule rv_drop_ok [OF v])
  have "same_except (footprint m) h h'" by (rule same_except_mono [OF h'(2) bm_in_footprint [OF bm_vec_in [OF 1]]])
  from world_private [OF w sole_noprov [OF vec_noprov [OF 1]] this, of "[]"] show ?thesis
    using h'(1) by (intro actsI [of _ "[]" h'])
      (simp_all add: bm_drop_def kind_vec [OF 1] get_vec_pos_ok [OF 1] rebuild_vec_ok [OF 1])
next
  case (2 v off r n)
  have s: "shared_at h (bm_data m) v r n" and v: "vec_ok h v" using 2 by (simp_all add: bm_arc_def bm_in_def)
  have dr: "bm_drop E m h = release_shared (bm_data m) h" by (simp add: bm_drop_def kind_arc [OF 2])
  show ?thesis
  proof (cases "n = 1")
    case True
    obtain h' where h': "release_shared (bm_data m) h = Ok ((), h')" "same_except (set_option (prov (bm_data m)) \<union> vset v) h h'"
      by (rule release_last [OF s [unfolded True] v])
    have f: "same_except (footprint m) h h'"
      by (rule same_except_mono [OF h'(2)]) (use bm_in_footprint [OF bm_arc_in [OF 2]] data_footprint in blast)
    from world_private [OF w sole_shared [OF s [unfolded True]] f, of "[]"] show ?thesis
      using h'(1) by (intro actsI [of _ "[]" h']) (simp_all add: dr)
  next
    case False
    obtain h' where h': "release_shared (bm_data m) h = Ok ((), h')" "shared_at h' (bm_data m) v r (n - 1)"
      "same_except (set_option (prov (bm_data m))) h h'"
      by (rule release_down [OF s False])
    have f: "same_except (footprint m) h h'" by (rule same_except_mono [OF h'(3) data_footprint])
    have "counted h (m # rest) m" using w by (simp add: world_def)
    from counted_eq [OF this s] have cnt: "n - 1 = refs ([] @ rest) (bm_data m)" by simp
    have "bm_ok h' x \<and> bm_view h' x = bm_view h x \<and> counted h' ([] @ rest) x \<and> (\<forall>n \<in> set []. apart n x)"
      if x: "x \<in> set rest" and sh: "shares m x" for x
    proof -
      have "bm_ok h x" using w x by (simp add: world_def)
      from recount [OF 2 sh this h'(3,2) cnt] show ?thesis by simp
    qed
    from world_step [OF w f _ _ this] show ?thesis
      using h'(1) by (intro actsI [of _ "[]" h']) (simp_all add: dr)
  qed
qed

section \<open>Making handles\<close>

lemma world_bm_new:
  assumes w: "world h ms" and f: "same_except {} h h'" and m: "bm_ok h' m" "prov (bm_data m) = None"
    and fp: "footprint m \<inter> {x. x < fresh h} = {}"
  shows "world h' (m # ms)" "map (bm_view h') ms = map (bm_view h) ms"
proof -
  let ?e = "\<lparr>bm_ptr = dangling, bm_len = 0, bm_cap = 0, bm_data = without_provenance (vec_tag 0 0)\<rparr>"
  have e: "prov (bm_data ?e) = None" "footprint ?e = {}" by (simp_all add: without_provenance_def footprint_def dangling_def)
  have "bm_ok h ?e"
    by (rule bm_in_tag [of _ _ "\<lparr>rv_ptr = dangling, rv_len = 0, rv_cap = 0\<rparr>" 0 0])
      (simp_all add: bm_in_def vec_ok_dangling)
  moreover have "counted h (?e # ms) x" if x: "x \<in> set ms" for x
    unfolding counted_def
  proof (intro allI impI)
    fix v r n assume s: "shared_at h (bm_data x) v r n"
    then have "bm_data ?e \<noteq> bm_data x" using e(1) by (auto simp: shared_at_def)
    moreover have "counted h ms x" using w x by (simp add: world_def)
    ultimately show "n = refs (?e # ms) (bm_data x)" using counted_eq [OF _ s] by simp
  qed
  ultimately have we: "world h (?e # ms)"
    using w e counted_noprov [OF e(1)] by (simp add: world_def apart_def)
  have "footprint m \<subseteq> footprint ?e \<union> {x. fresh h \<le> x}" using fp by (auto simp: not_le)
  from world_one [OF we sole_noprov [OF e(1)] same_except_any [OF f] m(1) sole_noprov [OF m(2)] this]
  show "world h' (m # ms)" "map (bm_view h') ms = map (bm_view h) ms" .
qed

lemma bm_from_slice_ok:
  assumes E: "good_build E" and l: "length bs \<le> isize_max"
  obtains m h' where "bm_from_slice E bs h = Ok (m, h')" "bm_ok h' m" "bm_view h' m = bs" "same_except {} h h'"
    "prov (bm_data m) = None" "footprint m \<inter> {x. x < fresh h} = {}"
proof -
  obtain v h' where v: "rv_of_list E bs h = Ok (v, h')" "vec_ok h' v" "rv_cap v = length bs"
    "rv_len v = length bs" "vcells h' v = map Some bs" "same_except {} h h'" "vset v \<inter> {x. x < fresh h} = {}"
    by (rule rv_of_list_ok [OF E l])
  let ?r = "original_capacity_to_repr (rv_cap v)"
  let ?m = "\<lparr>bm_ptr = rv_ptr v, bm_len = rv_len v, bm_cap = rv_cap v, bm_data = without_provenance (vec_tag 0 ?r)\<rparr>"
  have "bm_from_vec E v = Ok ?m"
    using vptr_vec(2) [OF v(2)] tag_make [OF repr_le] by (simp add: bm_from_vec_def Let_def invalid_ptr_def)
  then have m: "bm_from_slice E bs h = Ok (?m, h')" using v(1) by (simp add: bm_from_slice_def)
  have i: "bm_in h' ?m v 0" using v by (auto simp: bm_in_def)
  have "bm_ok h' ?m" using i by (intro bm_in_tag [of _ _ v 0 ?r]) (simp_all add: repr_le)
  moreover have "bm_view h' ?m = bs" using bm_view_in(1) [OF i] v(4,5) by (simp add: comp_def)
  ultimately show thesis
    using m v(6,7) by (intro that [of ?m h']) (simp_all add: footprint_def without_provenance_def)
qed

lemma world_clone_handle:
  assumes E: "good_build E" and w: "world h (m # rest)" and l: "bm_len m \<le> isize_max"
  shows "acts h rest [bm_view h m, bm_view h m] (bind (bm_clone E m) (\<lambda>c. ret [m, c]) h)"
proof -
  note ok = world_ok [OF w]
  have "length (bm_view h m) \<le> isize_max" using l length_bm_view [OF ok] by simp
  then obtain c h' where c: "bm_from_slice E (bm_view h m) h = Ok (c, h')" "bm_ok h' c"
    "bm_view h' c = bm_view h m" "same_except {} h h'" "prov (bm_data c) = None" "footprint c \<inter> {x. x < fresh h} = {}"
    by (rule bm_from_slice_ok [OF E])
  note n = world_bm_new [OF w c(4,2,5,6)]
  have "world h' ([m, c] @ rest)" using n(1) world_move [of h' "[m]" "[c]" rest] by simp
  then show ?thesis
    using n(2) c(1,3) bm_as_slice_ok [OF ok] by (intro actsI [of _ "[m, c]" h']) (simp_all add: bm_clone_def)
qed

section \<open>Refinement\<close>

datatype bm_op =
    ExtendFromSlice "u8 list" | Advance nat | Truncate nat | SplitOff nat | SplitTo nat | Reserve nat
  | Resize nat u8 | SetAt nat u8 | CloneHandle | DropHandle

text \<open>The handles in the place of the one that the operation is called on.\<close>

primrec bm_run :: "build \<Rightarrow> bm_op \<Rightarrow> bytes_mut \<Rightarrow> bytes_mut list act" where
  "bm_run E (ExtendFromSlice bs) m = one (bm_extend_from_slice E m bs)"
| "bm_run E (Advance k) m = one (bm_advance E m k)"
| "bm_run E (Truncate k) m = one (bm_truncate E m k)"
| "bm_run E (SplitOff k) m = bind (bm_split_off E m k) (\<lambda>(other, self). ret [self, other])"
| "bm_run E (SplitTo k) m = bind (bm_split_to E m k) (\<lambda>(other, self). ret [other, self])"
| "bm_run E (Reserve k) m = one (bm_reserve E m k)"
| "bm_run E (Resize k b) m = one (bm_resize E m k b)"
| "bm_run E (SetAt i b) m = one (bm_slice_set m i b)"
| "bm_run E CloneHandle m = bind (bm_clone E m) (\<lambda>c. ret [m, c])"
| "bm_run E DropHandle m = bind (bm_drop E m) (\<lambda>_. ret [])"

text \<open>What it does to byte strings, where it is allowed.\<close>

primrec bm_spec :: "bm_op \<Rightarrow> u8 list \<Rightarrow> u8 list list option" where
  "bm_spec (ExtendFromSlice bs) v = (if length v + length bs \<le> isize_max div 4 then Some [v @ bs] else None)"
| "bm_spec (Advance k) v = (if k \<le> length v then Some [drop k v] else None)"
| "bm_spec (Truncate k) v = Some [take k v]"
| "bm_spec (SplitOff k) v = (if k \<le> length v then Some [take k v, drop k v] else None)"
| "bm_spec (SplitTo k) v = (if k \<le> length v then Some [take k v, drop k v] else None)"
| "bm_spec (Reserve k) v = (if length v + k \<le> isize_max div 4 then Some [v] else None)"
| "bm_spec (Resize k b) v = (if k \<le> isize_max div 4 then Some [take k v @ replicate (k - length v) b] else None)"
| "bm_spec (SetAt i b) v = (if i < length v then Some [v[i := b]] else None)"
| "bm_spec CloneHandle v = (if length v \<le> isize_max then Some [v, v] else None)"
| "bm_spec DropHandle v = Some []"

lemma bm_run_acts:
  assumes E: "good_build E" and w: "world h (m # rest)" and l: "length rest < isize_max"
    and s: "bm_spec opr (bm_view h m) = Some vs"
  shows "acts h rest vs (bm_run E opr m h)"
proof -
  have len: "length (bm_view h m) = bm_len m" by (rule length_bm_view [OF world_ok [OF w]])
  have cap: "bm_len m \<le> bm_cap m" by (rule bm_ok_len [OF world_ok [OF w]])
  show ?thesis
  proof (cases opr)
    case (ExtendFromSlice bs)
    then show ?thesis using s len world_extend [OF E w, of bs] by (simp split: if_split_asm)
  next
    case (Advance k)
    then show ?thesis using s len world_advance [OF E w, of k] by (simp split: if_split_asm)
  next
    case (Truncate k)
    then show ?thesis using s world_truncate [OF w, of k E] by simp
  next
    case (SplitOff k)
    then show ?thesis using s len cap world_split_off [OF E w, of k] l by (simp split: if_split_asm)
  next
    case (SplitTo k)
    then show ?thesis using s len world_split_to [OF E w, of k] l by (simp split: if_split_asm)
  next
    case (Reserve k)
    then have c: "bm_len m + k \<le> isize_max div 4" "vs = [bm_view h m]" using s len by (simp_all split: if_split_asm)
    obtain m' h' where "bm_reserve E m k h = Ok (m', h')" "world h' (m' # rest)" "bm_view h' m' = bm_view h m"
      "map (bm_view h') rest = map (bm_view h) rest"
      by (rule world_reserve [OF E w c(1)])
    then show ?thesis using c(2) Reserve by (intro actsI [of _ "[m']" h']) simp_all
  next
    case (Resize k b)
    then show ?thesis using s len world_resize [OF E w, of k b] by (simp split: if_split_asm)
  next
    case (SetAt i b)
    then show ?thesis using s len world_set [OF w, of i b] by (simp split: if_split_asm)
  next
    case CloneHandle
    then show ?thesis using s len world_clone_handle [OF E w] by (simp split: if_split_asm)
  next
    case DropHandle
    then show ?thesis using s world_drop [OF w, of E] by simp
  qed
qed

datatype world_op = NewFrom "u8 list" | On nat bm_op

primrec world_act :: "build \<Rightarrow> world_op \<Rightarrow> bytes_mut list \<Rightarrow> bytes_mut list act" where
  "world_act E (NewFrom bs) ms = bind (bm_from_slice E bs) (\<lambda>m. ret (m # ms))"
| "world_act E (On i opr) ms = bind (bm_run E opr (ms ! i)) (\<lambda>ns. ret (take i ms @ ns @ drop (Suc i) ms))"

primrec world_spec :: "world_op \<Rightarrow> u8 list list \<Rightarrow> u8 list list option" where
  "world_spec (NewFrom bs) vs = (if length bs \<le> isize_max then Some (bs # vs) else None)"
| "world_spec (On i opr) vs =
     (if i < length vs \<and> length vs \<le> isize_max
      then map_option (\<lambda>ns. take i vs @ ns @ drop (Suc i) vs) (bm_spec opr (vs ! i)) else None)"

primrec world_run :: "build \<Rightarrow> world_op list \<Rightarrow> bytes_mut list \<Rightarrow> bytes_mut list act" where
  "world_run E [] ms = ret ms"
| "world_run E (p # ps) ms = bind (world_act E p ms) (world_run E ps)"

primrec spec_run :: "world_op list \<Rightarrow> u8 list list \<Rightarrow> u8 list list option" where
  "spec_run [] vs = Some vs"
| "spec_run (p # ps) vs = Option.bind (world_spec p vs) (spec_run ps)"

lemma world_act_refines:
  assumes E: "good_build E" and w: "world h ms" and s: "world_spec p (map (bm_view h) ms) = Some vs"
  obtains ms' h' where "world_act E p ms h = Ok (ms', h')" "world h' ms'" "map (bm_view h') ms' = vs"
proof (cases p)
  case (NewFrom bs)
  then have l: "length bs \<le> isize_max" and vs: "vs = bs # map (bm_view h) ms" using s by (simp_all split: if_split_asm)
  obtain m h' where m: "bm_from_slice E bs h = Ok (m, h')" "bm_ok h' m" "bm_view h' m = bs" "same_except {} h h'"
    "prov (bm_data m) = None" "footprint m \<inter> {x. x < fresh h} = {}"
    by (rule bm_from_slice_ok [OF E l])
  show ?thesis
    using that [of "m # ms" h'] world_bm_new [OF w m(4,2,5,6)] m(1,3) vs NewFrom by simp
next
  case (On i opr)
  let ?xs = "take i ms" and ?m = "ms ! i" and ?ys = "drop (Suc i) ms"
  obtain ns' where i: "i < length ms" "length ms \<le> isize_max" and sp: "bm_spec opr (bm_view h ?m) = Some ns'"
    and vs: "vs = map (bm_view h) ?xs @ ns' @ map (bm_view h) ?ys"
    using s On by (auto simp: take_map drop_map split: if_split_asm)
  have "ms = ?xs @ [?m] @ ?ys" using id_take_nth_drop [OF i(1)] by simp
  then have w': "world h (?m # ?xs @ ?ys)" using w world_move [of h ?xs "[?m]" ?ys] by simp
  have "length (?xs @ ?ys) < isize_max" using i by simp
  from bm_run_acts [OF E w' this sp] obtain ns h' where a: "bm_run E opr ?m h = Ok (ns, h')"
    "world h' (ns @ ?xs @ ?ys)" "map (bm_view h') ns = ns'"
    "map (bm_view h') (?xs @ ?ys) = map (bm_view h) (?xs @ ?ys)"
    by (auto simp: acts_def)
  have "world h' (?xs @ ns @ ?ys)" using a(2) world_move by blast
  moreover have "map (bm_view h') ?xs = map (bm_view h) ?xs" "map (bm_view h') ?ys = map (bm_view h) ?ys"
    using a(4) by simp_all
  ultimately show ?thesis using that [of "?xs @ ns @ ?ys" h'] a(1,3) vs On by simp
qed

lemma world_run_refines:
  assumes "good_build E" "world h ms" "spec_run ps (map (bm_view h) ms) = Some vs"
  shows "\<exists>ms' h'. world_run E ps ms h = Ok (ms', h') \<and> world h' ms' \<and> map (bm_view h') ms' = vs"
  using assms(2,3)
proof (induction ps arbitrary: ms h)
  case (Cons p ps)
  then obtain us where u: "world_spec p (map (bm_view h) ms) = Some us" "spec_run ps us = Some vs"
    by (auto simp: bind_eq_Some_conv)
  obtain ms1 h1 where "world_act E p ms h = Ok (ms1, h1)" "world h1 ms1" "map (bm_view h1) ms1 = us"
    by (rule world_act_refines [OF assms(1) Cons.prems(1) u(1)])
  then show ?case using Cons.IH [of h1 ms1] u(2) by simp
qed simp

end
