(* ===== verification/Bytes_Mut_Unsplit.thy ===== *)
theory Bytes_Mut_Unsplit
  imports Bytes_Mut_World
begin

text \<open>
  Joining two handles (\<open>unsplit\<close> and \<open>try_unsplit\<close> of \<open>bytes_mut.rs\<close>) in a world of many: the joined handle
  shows the bytes of both, one after the other, whether they are adjacent stretches of one vector
  or the bytes of the second are copied.

  Whether two handles share a vector is decided by the address of their boxes. That different
  boxes have different addresses is what an allocator promises of live allocations.
\<close>

definition boxes_told_apart :: "bytes_mut \<Rightarrow> bytes_mut \<Rightarrow> bool" where
  "boxes_told_apart m k \<longleftrightarrow>
     prov (bm_data m) \<noteq> None \<and> prov (bm_data k) \<noteq> None \<and> addr (bm_data m) = addr (bm_data k)
     \<longrightarrow> bm_data m = bm_data k"

abbreviation joined :: "bytes_mut \<Rightarrow> bytes_mut \<Rightarrow> bytes_mut" where
  "joined m k \<equiv> m\<lparr>bm_len := bm_len m + bm_len k, bm_cap := bm_cap m + bm_cap k\<rparr>"

text \<open>Dropping the second handle of a world.\<close>

lemma world_drop_second:
  assumes "world h (m # k # rest)"
  obtains h' where "bm_drop E k h = Ok ((), h')" "world h' (m # rest)" "bm_view h' m = bm_view h m"
    "map (bm_view h') rest = map (bm_view h) rest"
proof -
  have "world h (k # m # rest)" using assms world_move [of h "[m]" "[k]" rest] by simp
  from world_drop [OF this, of E] show thesis
    using that by (cases "bm_drop E k h") (auto simp: acts_def)
qed

lemma world_drop_first:
  assumes "world h (m # rest)"
  obtains h' where "bm_drop E m h = Ok ((), h')" "world h' rest" "map (bm_view h') rest = map (bm_view h) rest"
  using world_drop [OF assms, of E] that by (cases "bm_drop E m h") (auto simp: acts_def)

text \<open>Adjacent stretches: the first one is full.\<close>

lemma adjacent_full:
  assumes "shares m k" "addr (bm_ptr k) = addr (bm_ptr m) + bm_len m" "bm_len m \<le> bm_cap m" "0 < bm_cap k" "0 < bm_len m"
  shows "bm_cap m = bm_len m"
  using assms by (auto simp: shares_def)

lemma joined_arc:
  assumes m: "bm_arc h m v off r n" and k: "bm_arc h k v (off + bm_len m) r n" and full: "bm_cap m = bm_len m"
  shows "bm_arc h (joined m k) v off r n" "bm_view h (joined m k) = bm_view h m @ bm_view h k"
proof -
  note i = bm_arc_in [OF m] bm_arc_in [OF k]
  have j: "take (bm_len m + bm_len k) (drop off (vcells h v))
      = take (bm_len m) (drop off (vcells h v)) @ take (bm_len k) (drop (off + bm_len m) (vcells h v))"
    by (simp add: take_add drop_drop add.commute [of off])
  have "bm_in h (joined m k) v off" using i full unfolding bm_in_def by (simp add: j)
  then show "bm_arc h (joined m k) v off r n" "bm_view h (joined m k) = bm_view h m @ bm_view h k"
    using m bm_view_in(1) [OF i(1)] bm_view_in(1) [OF i(2)] bm_view_in(1) [of h "joined m k" v off]
    by (simp_all add: bm_arc_def j)
qed

lemma apart_joined:
  assumes w: "world h (m # k # rest)" and sh: "shares m k" and x: "x \<in> set rest"
    and adj: "addr (bm_ptr k) = addr (bm_ptr m) + bm_cap m" and m: "bm_arc h m v off r n"
  shows "apart (joined m k) x"
proof (cases "shares m x")
  case True
  have d: "bm_data x = bm_data m" "bm_data k = bm_data m" using True sh by (simp_all add: shares_def)
  obtain o' where k: "bm_arc h k v o' r n" by (rule shares_in [OF sh m]) (use w in \<open>simp add: world_def\<close>)
  have "apart k x" using w x by (simp add: world_def)
  from same_box [OF this k] d have "shares k x" by simp
  with True sh adj have "shares (joined m k) x" by (auto simp: shares_def)
  then show ?thesis by (simp add: apart_def)
next
  case False
  have "apart m x" using w x by (simp add: world_def)
  then show ?thesis using False by (simp add: apart_def footprint_def)
qed

lemma world_joined:
  assumes w: "world h (m # k # rest)" and m: "bm_arc h m v off r n" and sh: "shares m k"
    and adj: "addr (bm_ptr k) = addr (bm_ptr m) + bm_len m" and full: "bm_cap m = bm_len m"
    and d: "world h' (m # rest)" "same_except (set_option (prov (bm_data m))) h h'"
    and s': "shared_at h' (bm_data m) v r n'"
  shows "world h' (joined m k # rest)" "bm_view h' (joined m k) = bm_view h m @ bm_view h k"
proof -
  obtain o' where k: "bm_arc h k v o' r n" by (rule shares_in [OF sh m]) (use w in \<open>simp add: world_def\<close>)
  have o: "o' = off + bm_len m" using m k adj by (auto simp: bm_arc_def bm_in_def)
  note j = joined_arc [OF m k [unfolded o] full]
  have v: "vec_ok h v" "shared_at h (bm_data m) v r n" using m by (simp_all add: bm_arc_def bm_in_def)
  note i = bm_in_frame [OF bm_arc_in [OF j(1)] d(2) shared_not_vec(2) [OF v]]
  show "bm_view h' (joined m k) = bm_view h m @ bm_view h k" using i(2) j(2) by simp
  have "bm_ok h' (joined m k)" by (rule bm_arc_ok [of _ _ v off r n']) (use i(1) s' in \<open>simp add: bm_arc_def\<close>)
  moreover have "counted h' (joined m k # rest) = counted h' (m # rest)" by (simp add: fun_eq_iff counted_def)
  moreover have "counted h' (m # rest) (joined m k)" using d(1) by (simp add: world_def counted_def)
  moreover have "apart (joined m k) x" if "x \<in> set rest" for x
    by (rule apart_joined [OF w sh that _ m]) (use adj full in simp)
  ultimately show "world h' (joined m k # rest)" using d(1) by (simp add: world_def)
qed

lemma world_merge:
  assumes w: "world h (m # k # rest)" and m: "bm_arc h m v off r n" and b: "bm_data k = bm_data m"
    and adj: "addr (bm_ptr k) = addr (bm_ptr m) + bm_len m" and c: "0 < bm_cap k" "0 < bm_len m"
  obtains h' where "bm_drop E k h = Ok ((), h')" "world h' (joined m k # rest)"
    "bm_view h' (joined m k) = bm_view h m @ bm_view h k" "map (bm_view h') rest = map (bm_view h) rest"
proof -
  have ap: "apart m k" and l: "bm_len m \<le> bm_cap m" using w bm_ok_len [of h m] by (simp_all add: world_def)
  have sh: "shares m k" by (rule same_box [OF ap m b])
  obtain o' where k: "bm_arc h k v o' r n" by (rule shares_in [OF sh m]) (use w in \<open>simp add: world_def\<close>)
  have s: "shared_at h (bm_data m) v r n" using m by (simp add: bm_arc_def)
  have "counted h (m # k # rest) m" using w by (simp add: world_def)
  then have n: "n \<noteq> 1" using counted_eq [OF _ s] b by simp
  obtain h' where r: "release_shared (bm_data m) h = Ok ((), h')" "shared_at h' (bm_data m) v r (n - 1)"
    "same_except (set_option (prov (bm_data m))) h h'"
    by (rule release_down [OF s n])
  have dr: "bm_drop E k h = Ok ((), h')"
    using r(1) b kind_arc [OF k] by (simp add: bm_drop_def KIND_VEC_def KIND_ARC_def)
  obtain h2 where h2: "bm_drop E k h = Ok ((), h2)" "world h2 (m # rest)" "map (bm_view h2) rest = map (bm_view h) rest"
    by (rule world_drop_second [OF w])
  have "h2 = h'" using h2(1) dr by simp
  with h2 have wm: "world h' (m # rest)" "map (bm_view h') rest = map (bm_view h) rest" by simp_all
  from world_joined [OF w m sh adj adjacent_full [OF sh adj l c] wm(1) r(3,2)]
  show thesis using that [OF dr] wm(2) by simp
qed

text \<open>The bytes of the second handle are copied.\<close>

lemma world_copy:
  assumes E: "good_build E" and w: "world h (m # k # rest)" and l: "bm_len m + bm_len k \<le> isize_max div 4"
  obtains m' h' where
    "bind (bm_as_slice k) (\<lambda>bs. bind (bm_extend_from_slice E m bs) (\<lambda>m. bind (bm_drop E k) (\<lambda>_. ret m))) h = Ok (m', h')"
    "world h' (m' # rest)" "bm_view h' m' = bm_view h m @ bm_view h k" "map (bm_view h') rest = map (bm_view h) rest"
proof -
  have k: "bm_ok h k" using w by (simp add: world_def)
  have "bm_len m + length (bm_view h k) \<le> isize_max div 4" using l length_bm_view [OF k] by simp
  from world_extend [OF E w this] obtain m1 h1 where e: "bm_extend_from_slice E m (bm_view h k) h = Ok (m1, h1)"
    "world h1 (m1 # k # rest)" "bm_view h1 m1 = bm_view h m @ bm_view h k" "map (bm_view h1) rest = map (bm_view h) rest"
    by (cases "bm_extend_from_slice E m (bm_view h k) h") (auto simp: acts_def)
  obtain h2 where d: "bm_drop E k h1 = Ok ((), h2)" "world h2 (m1 # rest)" "bm_view h2 m1 = bm_view h1 m1"
    "map (bm_view h2) rest = map (bm_view h1) rest"
    by (rule world_drop_second [OF e(2)])
  then show thesis using that [of m1 h2] e bm_as_slice_ok [OF k] by simp
qed

lemma world_unsplit:
  assumes E: "good_build E" and w: "world h (m # k # rest)" and b: "boxes_told_apart m k"
    and l: "bm_len m + bm_len k \<le> isize_max div 4"
  obtains m' h' where "bm_unsplit E m k h = Ok (m', h')" "world h' (m' # rest)"
    "bm_view h' m' = bm_view h m @ bm_view h k" "map (bm_view h') rest = map (bm_view h) rest"
proof -
  let ?done = "\<exists>m' h'. bm_unsplit E m k h = Ok (m', h') \<and> world h' (m' # rest)
    \<and> bm_view h' m' = bm_view h m @ bm_view h k \<and> map (bm_view h') rest = map (bm_view h) rest"
  have ok: "bm_ok h m" "bm_ok h k" using w by (simp_all add: world_def)
  note lv = length_bm_view [OF ok(1)] length_bm_view [OF ok(2)]
  let ?merge = "addr (bm_ptr k) = addr (bm_ptr m) + bm_len m \<and> kind m = KIND_ARC \<and> kind k = KIND_ARC
    \<and> addr (bm_data m) = addr (bm_data k)"
  consider "bm_len m = 0" | "0 < bm_len m" "bm_cap k = 0" | "0 < bm_len m" "0 < bm_cap k" ?merge
    | "0 < bm_len m" "0 < bm_cap k" "\<not> ?merge" by blast
  then have ?done
  proof cases
    case 1
    obtain h' where "bm_drop E m h = Ok ((), h')" "world h' (k # rest)" "map (bm_view h') (k # rest) = map (bm_view h) (k # rest)"
      by (rule world_drop_first [OF w])
    then show ?thesis using 1 lv(1) by (simp add: bm_unsplit_def bm_is_empty_def)
  next
    case 2
    obtain h' where "bm_drop E k h = Ok ((), h')" "world h' (m # rest)" "bm_view h' m = bm_view h m"
      "map (bm_view h') rest = map (bm_view h) rest" by (rule world_drop_second [OF w])
    then show ?thesis
      using 2 lv(2) bm_ok_len [OF ok(2)] by (simp add: bm_unsplit_def bm_is_empty_def bm_try_unsplit_def)
  next
    case 3
    from ok(1) obtain v off r n where m: "bm_arc h m v off r n"
      by (rule kind_cases) (use 3(3) in \<open>auto simp: KIND_VEC_def KIND_ARC_def\<close>)
    from ok(2) obtain v' o' r' n' where k: "bm_arc h k v' o' r' n'"
      by (rule kind_cases) (use 3(3) in \<open>auto simp: KIND_VEC_def KIND_ARC_def\<close>)
    have "prov (bm_data m) \<noteq> None" "prov (bm_data k) \<noteq> None" using m k by (auto simp: bm_arc_def shared_at_def)
    then have e: "bm_data k = bm_data m" using b 3(3) by (simp add: boxes_told_apart_def)
    have adj: "addr (bm_ptr k) = addr (bm_ptr m) + bm_len m" using 3(3) by simp
    obtain h' where "bm_drop E k h = Ok ((), h')" "world h' (joined m k # rest)"
      "bm_view h' (joined m k) = bm_view h m @ bm_view h k" "map (bm_view h') rest = map (bm_view h) rest"
      by (rule world_merge [OF w m e adj 3(2,1)])
    then show ?thesis using 3 by (simp add: bm_unsplit_def bm_is_empty_def bm_try_unsplit_def Let_def)
  next
    case 4
    have "bm_unsplit E m k h =
        bind (bm_as_slice k) (\<lambda>bs. bind (bm_extend_from_slice E m bs) (\<lambda>m. bind (bm_drop E k) (\<lambda>_. ret m))) h"
      using 4 by (auto simp: bm_unsplit_def bm_is_empty_def bm_try_unsplit_def Let_def)
    with world_copy [OF E w l] show ?thesis by metis
  qed
  then show thesis using that by blast
qed

text \<open>What was split off can be joined again.\<close>

lemma world_split_unsplit:
  assumes E: "good_build E" and w: "world h (m # rest)" and at: "at \<le> bm_cap m" and l: "length rest < isize_max"
    and s: "bm_len m \<le> isize_max div 4"
  shows "\<exists>m' h'. bind (bm_split_off E m at) (\<lambda>(other, self). bm_unsplit E self other) h = Ok (m', h')
    \<and> world h' (m' # rest) \<and> bm_view h' m' = bm_view h m \<and> map (bm_view h') rest = map (bm_view h) rest"
proof -
  obtain d h1 v off r n where c: "shallow_clone E m h = Ok ((m\<lparr>bm_data := d\<rparr>, m\<lparr>bm_data := d\<rparr>), h1)"
    "bm_arc h1 (m\<lparr>bm_data := d\<rparr>) v off r n" "bm_view h1 (m\<lparr>bm_data := d\<rparr>) = bm_view h m"
    "world h1 ([lower (m\<lparr>bm_data := d\<rparr>) at, advanced (m\<lparr>bm_data := d\<rparr>) at] @ rest)"
    "map (bm_view h1) rest = map (bm_view h) rest"
    by (rule world_clone [OF E w at l])
  let ?m = "m\<lparr>bm_data := d\<rparr>"
  have at': "at \<le> bm_cap ?m" using at by simp
  note hv = halves [OF c(2) at']
  have sp: "bm_split_off E m at h = Ok ((advanced ?m at, lower ?m at), h1)"
    using at c(1) advance_arc [OF c(2) at'] by (simp add: bm_split_off_def)
  have "boxes_told_apart (lower ?m at) (advanced ?m at)" by (simp add: boxes_told_apart_def)
  moreover have "bm_len (lower ?m at) + bm_len (advanced ?m at) \<le> isize_max div 4" using s by (simp add: min_def)
  moreover have "world h1 (lower ?m at # advanced ?m at # rest)" using c(4) by simp
  ultimately obtain m' h' where "bm_unsplit E (lower ?m at) (advanced ?m at) h1 = Ok (m', h')" "world h' (m' # rest)"
    "bm_view h' m' = bm_view h1 (lower ?m at) @ bm_view h1 (advanced ?m at)" "map (bm_view h') rest = map (bm_view h1) rest"
    using world_unsplit [OF E] by metis
  then show ?thesis using sp hv(2,4) c(3,5) by simp
qed

end
