(* ===== verification/Bytes_Handle.thy ===== *)
theory Bytes_Handle
  imports Bytes_Mut Read_Adapters
begin

text \<open>
  \<open>Bytes\<close> (\<open>bytes/src/bytes.rs\<close>): an immutable handle to a stretch of bytes, whose clones share it.
  What \<open>data\<close> points to is known to the functions of the handle's vtable only; a vtable is a
  constant of the datatype, and the operations of \<open>Bytes\<close> dispatch on it. The vtable of a frozen
  \<open>BytesMut\<close> is the one of \<open>bytes_mut.rs\<close>.

  The functions take \<open>data\<close>, \<open>ptr\<close> and \<open>len\<close> as the code's do. A clone may promote the buffer, which
  changes the \<open>data\<close> of the handle that is cloned, so it is returned with the clone. The atomic
  operations are those of one thread.
\<close>

section \<open>The handle and its vtables\<close>

datatype vtable =
    STATIC_VTABLE
  | OWNED_VTABLE
  | PROMOTABLE_EVEN_VTABLE
  | PROMOTABLE_ODD_VTABLE
  | SHARED_VTABLE
  | SHARED_V_VTABLE

record bytes =
  b_ptr :: ptr
  b_len :: usize
  b_data :: ptr
  b_vtable :: vtable

definition bytes_from_static :: "ptr \<Rightarrow> usize \<Rightarrow> bytes" where
  "bytes_from_static p len = \<lparr>b_ptr = p, b_len = len, b_data = null, b_vtable = STATIC_VTABLE\<rparr>"

definition bytes_new :: bytes where
  "bytes_new = bytes_from_static dangling 0"

definition new_empty_with_ptr :: "build \<Rightarrow> ptr \<Rightarrow> bytes act" where
  "new_empty_with_ptr E p =
     bind (debug_assert E (addr p \<noteq> 0)) (\<lambda>_.
       ret \<lparr>b_ptr = without_provenance (addr p), b_len = 0, b_data = null, b_vtable = STATIC_VTABLE\<rparr>)"

definition with_vtable :: "ptr \<Rightarrow> usize \<Rightarrow> ptr \<Rightarrow> vtable \<Rightarrow> bytes" where
  "with_vtable p len data vt = \<lparr>b_ptr = p, b_len = len, b_data = data, b_vtable = vt\<rparr>"

section \<open>Static data\<close>

definition static_clone :: "ptr \<Rightarrow> usize \<Rightarrow> bytes act" where
  "static_clone p len = bind (get_cells p len) (\<lambda>_. ret (bytes_from_static p len))"

definition static_to_vec :: "build \<Rightarrow> ptr \<Rightarrow> usize \<Rightarrow> raw_vec act" where
  "static_to_vec E p len = bind (read_slice p len) (\<lambda>bs. rv_of_list E bs)"

definition static_to_mut :: "build \<Rightarrow> ptr \<Rightarrow> usize \<Rightarrow> bytes_mut act" where
  "static_to_mut E p len = bind (read_slice p len) (\<lambda>bs. bm_from_slice E bs)"

section \<open>An owner\<close>

text \<open>The count of the box, and the blocks that the owner's destructor frees.\<close>

definition get_owned :: "ptr \<Rightarrow> (usize \<times> nat list) act" where
  "get_owned p = (\<lambda>h.
     case Option.bind (prov p) (blocks h) of
       Some (Owned base n frees) \<Rightarrow>
         if base = addr p then Ok ((n, frees), h) else Fault UndefinedBehaviour
     | _ \<Rightarrow> Fault UndefinedBehaviour)"

definition set_owned :: "ptr \<Rightarrow> usize \<times> nat list \<Rightarrow> unit act" where
  "set_owned p s = (\<lambda>h.
     case prov p of None \<Rightarrow> Fault UndefinedBehaviour
     | Some b \<Rightarrow> Ok ((), h\<lparr>blocks := (blocks h)(b := Some (Owned (addr p) (fst s) (snd s)))\<rparr>))"

text \<open>
  The type of the owner is a parameter of \<open>from_owner\<close>: its size, the slice its \<open>as_ref\<close> gives
  and the blocks its destructor frees.
\<close>

definition bytes_from_owner :: "build \<Rightarrow> usize \<Rightarrow> ptr \<times> usize \<Rightarrow> nat list \<Rightarrow> bytes act" where
  "bytes_from_owner E sz as_ref frees =
     bind (new_block E (16 + sz) 8 (\<lambda>base. Owned base 1 frees)) (\<lambda>owned.
       let r = \<lparr>b_ptr = dangling, b_len = 0, b_data = owned, b_vtable = OWNED_VTABLE\<rparr>
       in ret (r\<lparr>b_ptr := fst as_ref, b_len := snd as_ref\<rparr>))"

definition owned_box_and_drop :: "ptr \<Rightarrow> unit act" where
  "owned_box_and_drop p =
     bind (get_owned p) (\<lambda>(n, frees). \<lambda>h.
       Ok ((), h\<lparr>blocks := (\<lambda>b. if b \<in> set frees \<or> Some b = prov p then None else blocks h b)\<rparr>))"

definition owned_clone :: "ptr \<Rightarrow> ptr \<Rightarrow> usize \<Rightarrow> bytes act" where
  "owned_clone owned p len =
     bind (get_owned owned) (\<lambda>(old_cnt, frees).
     bind (set_owned owned ((old_cnt + 1) mod 2 ^ 64, frees)) (\<lambda>_.
     bind (require (old_cnt \<le> drop_bit 1 usize_max) AbortProcess) (\<lambda>_.
       ret \<lparr>b_ptr = p, b_len = len, b_data = owned, b_vtable = OWNED_VTABLE\<rparr>)))"

definition owned_to_vec :: "build \<Rightarrow> ptr \<Rightarrow> usize \<Rightarrow> raw_vec act" where
  "owned_to_vec E p len = bind (read_slice p len) (\<lambda>bs. rv_of_list E bs)"

definition owned_drop_impl :: "ptr \<Rightarrow> unit act" where
  "owned_drop_impl owned =
     bind (get_owned owned) (\<lambda>(old_cnt, frees).
     bind (set_owned owned ((old_cnt + 2 ^ 64 - 1) mod 2 ^ 64, frees)) (\<lambda>_.
       if old_cnt \<noteq> 1 then ret () else owned_box_and_drop owned))"

definition owned_to_mut :: "build \<Rightarrow> ptr \<Rightarrow> ptr \<Rightarrow> usize \<Rightarrow> bytes_mut act" where
  "owned_to_mut E owned p len =
     bind (owned_to_vec E p len) (\<lambda>v.
     bind (lift (bm_from_vec E v)) (\<lambda>m.
     bind (owned_drop_impl owned) (\<lambda>_. ret m)))"

section \<open>The shared box\<close>

text \<open>The buffer, the capacity and the count of \<open>Shared\<close> of \<open>bytes.rs\<close>.\<close>

definition get_arc :: "ptr \<Rightarrow> (ptr \<times> usize \<times> usize) act" where
  "get_arc p = (\<lambda>h.
     case Option.bind (prov p) (blocks h) of
       Some (ArcShared base buf cap n) \<Rightarrow>
         if base = addr p then Ok ((buf, cap, n), h) else Fault UndefinedBehaviour
     | _ \<Rightarrow> Fault UndefinedBehaviour)"

definition set_arc :: "ptr \<Rightarrow> ptr \<times> usize \<times> usize \<Rightarrow> unit act" where
  "set_arc p s = (\<lambda>h.
     case s of (buf, cap, n) \<Rightarrow>
       (case prov p of None \<Rightarrow> Fault UndefinedBehaviour
        | Some b \<Rightarrow> Ok ((), h\<lparr>blocks := (blocks h)(b := Some (ArcShared (addr p) buf cap n))\<rparr>)))"

text \<open>\<open>Drop for Shared\<close>, with the box.\<close>

definition drop_arc :: "ptr \<Rightarrow> unit act" where
  "drop_arc p =
     bind (get_arc p) (\<lambda>(buf, cap, n).
     bind (require (cap \<le> isize_max) PanicUnwrap) (\<lambda>_.
     bind (dealloc buf cap) (\<lambda>_. free_block (the (prov p)))))"

definition release_arc :: "ptr \<Rightarrow> unit act" where
  "release_arc p =
     bind (get_arc p) (\<lambda>(buf, cap, n).
     bind (set_arc p (buf, cap, (n + 2 ^ 64 - 1) mod 2 ^ 64)) (\<lambda>_.
       if n \<noteq> 1 then ret () else drop_arc p))"

definition shallow_clone_arc :: "ptr \<Rightarrow> ptr \<Rightarrow> usize \<Rightarrow> bytes act" where
  "shallow_clone_arc shared p len =
     bind (get_arc shared) (\<lambda>(buf, cap, old_size).
     bind (require (old_size \<le> drop_bit 1 usize_max) AbortProcess) (\<lambda>_.
       ret \<lparr>b_ptr = p, b_len = len, b_data = shared, b_vtable = SHARED_VTABLE\<rparr>))"

text \<open>The clone, and the value that \<open>atom\<close> has afterwards.\<close>

definition shallow_clone_vec ::
    "build \<Rightarrow> ptr \<Rightarrow> ptr \<Rightarrow> ptr \<Rightarrow> ptr \<Rightarrow> usize \<Rightarrow> (bytes \<times> ptr) act" where
  "shallow_clone_vec E atom p buf off len =
     bind (lift (offset_from E off buf)) (\<lambda>d.
     bind (lift (usize_add E d len)) (\<lambda>cap.
     bind (new_block E 24 8 (\<lambda>base. ArcShared base buf cap 2)) (\<lambda>shared.
     bind (debug_assert E (0 = addr shared AND KIND_MASK)) (\<lambda>_.
       if addr atom = addr p
       then ret (\<lparr>b_ptr = off, b_len = len, b_data = shared, b_vtable = SHARED_VTABLE\<rparr>, shared)
       else bind (free_block (the (prov shared))) (\<lambda>_.
            bind (shallow_clone_arc atom off len) (\<lambda>b. ret (b, atom)))))))"

definition shared_to_vec_impl :: "build \<Rightarrow> ptr \<Rightarrow> ptr \<Rightarrow> usize \<Rightarrow> raw_vec act" where
  "shared_to_vec_impl E shared p len =
     bind (get_arc shared) (\<lambda>(buf, cap, n).
       if n = 1
       then bind (free_block (the (prov shared))) (\<lambda>_.
            bind (ptr_copy p buf len) (\<lambda>_. rv_from_raw_parts buf len cap))
       else bind (read_slice p len) (\<lambda>bs.
            bind (rv_of_list E bs) (\<lambda>v.
            bind (release_arc shared) (\<lambda>_. ret v))))"

definition shared_to_mut_impl :: "build \<Rightarrow> ptr \<Rightarrow> ptr \<Rightarrow> usize \<Rightarrow> bytes_mut act" where
  "shared_to_mut_impl E shared p len =
     bind (get_arc shared) (\<lambda>(buf, cap, n).
       if n = 1
       then bind (free_block (the (prov shared))) (\<lambda>_.
            bind (lift (offset_from E p buf)) (\<lambda>off.
            bind (lift (usize_add E len off)) (\<lambda>l.
            bind (rv_from_raw_parts buf l cap) (\<lambda>v.
            bind (lift (bm_from_vec E v)) (\<lambda>b. advance_unchecked E b off)))))
       else bind (read_slice p len) (\<lambda>bs.
            bind (rv_of_list E bs) (\<lambda>v.
            bind (release_arc shared) (\<lambda>_. lift (bm_from_vec E v)))))"

definition shared_is_unique :: "ptr \<Rightarrow> bool act" where
  "shared_is_unique shared = bind (get_arc shared) (\<lambda>(buf, cap, n). ret (n = 1))"

section \<open>A boxed slice that a clone promotes\<close>

text \<open>\<open>f\<close> gives the buffer: the pointer without its tag, or as it is when it is odd.\<close>

definition even_buf :: "ptr \<Rightarrow> ptr" where
  "even_buf shared = ptr_map shared (\<lambda>a. a - (a AND KIND_MASK))"

definition odd_buf :: "ptr \<Rightarrow> ptr" where
  "odd_buf shared = shared"

definition free_boxed_slice :: "build \<Rightarrow> ptr \<Rightarrow> ptr \<Rightarrow> usize \<Rightarrow> unit act" where
  "free_boxed_slice E buf off len =
     bind (lift (offset_from E off buf)) (\<lambda>d.
     bind (lift (usize_add E d len)) (\<lambda>cap.
     bind (require (cap \<le> isize_max) PanicUnwrap) (\<lambda>_. dealloc buf cap)))"

definition promotable_clone ::
    "build \<Rightarrow> (ptr \<Rightarrow> ptr) \<Rightarrow> ptr \<Rightarrow> ptr \<Rightarrow> usize \<Rightarrow> (bytes \<times> ptr) act" where
  "promotable_clone E f shared p len =
     (let kd = addr shared AND KIND_MASK
      in if kd = KIND_ARC
         then bind (shallow_clone_arc shared p len) (\<lambda>b. ret (b, shared))
         else bind (debug_assert E (kd = KIND_VEC)) (\<lambda>_.
              shallow_clone_vec E shared shared (f shared) p len))"

definition promotable_even_clone :: "build \<Rightarrow> ptr \<Rightarrow> ptr \<Rightarrow> usize \<Rightarrow> (bytes \<times> ptr) act" where
  "promotable_even_clone E shared p len = promotable_clone E even_buf shared p len"

definition promotable_odd_clone :: "build \<Rightarrow> ptr \<Rightarrow> ptr \<Rightarrow> usize \<Rightarrow> (bytes \<times> ptr) act" where
  "promotable_odd_clone E shared p len = promotable_clone E odd_buf shared p len"

definition promotable_to_vec :: "build \<Rightarrow> ptr \<Rightarrow> ptr \<Rightarrow> usize \<Rightarrow> (ptr \<Rightarrow> ptr) \<Rightarrow> raw_vec act" where
  "promotable_to_vec E shared p len f =
     (let kd = addr shared AND KIND_MASK
      in if kd = KIND_ARC then shared_to_vec_impl E shared p len
         else bind (debug_assert E (kd = KIND_ARC)) (\<lambda>_.
              let buf = f shared
              in bind (lift (offset_from E p buf)) (\<lambda>d.
                 bind (lift (usize_add E d len)) (\<lambda>cap.
                 bind (ptr_copy p buf len) (\<lambda>_. rv_from_raw_parts buf len cap)))))"

definition promotable_to_mut :: "build \<Rightarrow> ptr \<Rightarrow> ptr \<Rightarrow> usize \<Rightarrow> (ptr \<Rightarrow> ptr) \<Rightarrow> bytes_mut act" where
  "promotable_to_mut E shared p len f =
     (let kd = addr shared * KIND_MASK
      in if kd = KIND_ARC then shared_to_mut_impl E shared p len
         else bind (debug_assert E (kd = KIND_VEC)) (\<lambda>_.
              let buf = f shared
              in bind (lift (offset_from E p buf)) (\<lambda>off.
                 bind (lift (usize_add E off len)) (\<lambda>cap.
                 bind (rv_from_raw_parts buf cap cap) (\<lambda>v.
                 bind (lift (bm_from_vec E v)) (\<lambda>b. advance_unchecked E b off))))))"

definition promotable_drop :: "build \<Rightarrow> (ptr \<Rightarrow> ptr) \<Rightarrow> ptr \<Rightarrow> ptr \<Rightarrow> usize \<Rightarrow> unit act" where
  "promotable_drop E f shared p len =
     (let kd = addr shared AND KIND_MASK
      in if kd = KIND_ARC then release_arc shared
         else bind (debug_assert E (kd = KIND_VEC)) (\<lambda>_. free_boxed_slice E (f shared) p len))"

definition promotable_is_unique :: "ptr \<Rightarrow> bool act" where
  "promotable_is_unique shared =
     (if addr shared AND KIND_MASK = KIND_ARC
      then bind (get_arc shared) (\<lambda>(buf, cap, n). ret (n = 1))
      else ret True)"

section \<open>A frozen \<open>BytesMut\<close>\<close>

definition shared_v_clone :: "ptr \<Rightarrow> ptr \<Rightarrow> usize \<Rightarrow> bytes act" where
  "shared_v_clone shared p len =
     bind (increment_shared shared) (\<lambda>_. ret (with_vtable p len shared SHARED_V_VTABLE))"

definition shared_v_to_vec :: "build \<Rightarrow> ptr \<Rightarrow> ptr \<Rightarrow> usize \<Rightarrow> raw_vec act" where
  "shared_v_to_vec E shared p len =
     bind (shared_unique shared) (\<lambda>unique.
       if unique
       then bind (get_shared shared) (\<lambda>(v, r, n).
            bind (set_shared shared (rv_new, r, n)) (\<lambda>_.
            bind (release_shared shared) (\<lambda>_.
            bind (ptr_copy p (rv_ptr v) len) (\<lambda>_. ret (v\<lparr>rv_len := len\<rparr>)))))
       else bind (read_slice p len) (\<lambda>bs.
            bind (rv_of_list E bs) (\<lambda>v.
            bind (release_shared shared) (\<lambda>_. ret v))))"

definition shared_v_to_mut :: "build \<Rightarrow> ptr \<Rightarrow> ptr \<Rightarrow> usize \<Rightarrow> bytes_mut act" where
  "shared_v_to_mut E shared p len =
     bind (shared_unique shared) (\<lambda>unique.
       if unique
       then bind (get_shared shared) (\<lambda>(v, r, n).
            bind (lift (offset_from E p (rv_ptr v))) (\<lambda>off.
            bind (lift (usize_sub E (rv_cap v) off)) (\<lambda>cap.
            bind (lift (vptr E p)) (\<lambda>q.
              ret \<lparr>bm_ptr = q, bm_len = len, bm_cap = cap, bm_data = shared\<rparr>))))
       else bind (read_slice p len) (\<lambda>bs.
            bind (rv_of_list E bs) (\<lambda>v.
            bind (release_shared shared) (\<lambda>_. lift (bm_from_vec E v)))))"

definition shared_v_is_unique :: "ptr \<Rightarrow> bool act" where
  "shared_v_is_unique shared = bind (get_shared shared) (\<lambda>(v, r, n). ret (n = 1))"

section \<open>The operations\<close>

text \<open>The clone with \<open>self\<close>.\<close>

definition bytes_clone :: "build \<Rightarrow> bytes \<Rightarrow> (bytes \<times> bytes) act" where
  "bytes_clone E self =
     (let p = b_ptr self; len = b_len self; data = b_data self;
          same = (\<lambda>b. ret (b, self));
          promoted = (\<lambda>(b, data'). ret (b, self\<lparr>b_data := data'\<rparr>))
      in case b_vtable self of
           STATIC_VTABLE \<Rightarrow> bind (static_clone p len) same
         | OWNED_VTABLE \<Rightarrow> bind (owned_clone data p len) same
         | PROMOTABLE_EVEN_VTABLE \<Rightarrow> bind (promotable_even_clone E data p len) promoted
         | PROMOTABLE_ODD_VTABLE \<Rightarrow> bind (promotable_odd_clone E data p len) promoted
         | SHARED_VTABLE \<Rightarrow> bind (shallow_clone_arc data p len) same
         | SHARED_V_VTABLE \<Rightarrow> bind (shared_v_clone data p len) same)"

definition bytes_drop :: "build \<Rightarrow> bytes \<Rightarrow> unit act" where
  "bytes_drop E self =
     (let p = b_ptr self; len = b_len self; data = b_data self
      in case b_vtable self of
           STATIC_VTABLE \<Rightarrow> ret ()
         | OWNED_VTABLE \<Rightarrow> owned_drop_impl data
         | PROMOTABLE_EVEN_VTABLE \<Rightarrow> promotable_drop E even_buf data p len
         | PROMOTABLE_ODD_VTABLE \<Rightarrow> promotable_drop E odd_buf data p len
         | SHARED_VTABLE \<Rightarrow> release_arc data
         | SHARED_V_VTABLE \<Rightarrow> release_shared data)"

definition bytes_is_unique :: "bytes \<Rightarrow> bool act" where
  "bytes_is_unique self =
     (case b_vtable self of
        STATIC_VTABLE \<Rightarrow> ret False
      | OWNED_VTABLE \<Rightarrow> ret False
      | PROMOTABLE_EVEN_VTABLE \<Rightarrow> promotable_is_unique (b_data self)
      | PROMOTABLE_ODD_VTABLE \<Rightarrow> promotable_is_unique (b_data self)
      | SHARED_VTABLE \<Rightarrow> shared_is_unique (b_data self)
      | SHARED_V_VTABLE \<Rightarrow> shared_v_is_unique (b_data self))"

text \<open>\<open>From<Bytes> for Vec<u8>\<close> and \<open>From<Bytes> for BytesMut\<close>.\<close>

definition vec_of_bytes :: "build \<Rightarrow> bytes \<Rightarrow> raw_vec act" where
  "vec_of_bytes E self =
     (let p = b_ptr self; len = b_len self; data = b_data self
      in case b_vtable self of
           STATIC_VTABLE \<Rightarrow> static_to_vec E p len
         | OWNED_VTABLE \<Rightarrow> owned_to_vec E p len
         | PROMOTABLE_EVEN_VTABLE \<Rightarrow> promotable_to_vec E data p len even_buf
         | PROMOTABLE_ODD_VTABLE \<Rightarrow> promotable_to_vec E data p len odd_buf
         | SHARED_VTABLE \<Rightarrow> shared_to_vec_impl E data p len
         | SHARED_V_VTABLE \<Rightarrow> shared_v_to_vec E data p len)"

definition mut_of_bytes :: "build \<Rightarrow> bytes \<Rightarrow> bytes_mut act" where
  "mut_of_bytes E self =
     (let p = b_ptr self; len = b_len self; data = b_data self
      in case b_vtable self of
           STATIC_VTABLE \<Rightarrow> static_to_mut E p len
         | OWNED_VTABLE \<Rightarrow> owned_to_mut E data p len
         | PROMOTABLE_EVEN_VTABLE \<Rightarrow> promotable_to_mut E data p len even_buf
         | PROMOTABLE_ODD_VTABLE \<Rightarrow> promotable_to_mut E data p len odd_buf
         | SHARED_VTABLE \<Rightarrow> shared_to_mut_impl E data p len
         | SHARED_V_VTABLE \<Rightarrow> shared_v_to_mut E data p len)"

definition bytes_is_empty :: "bytes \<Rightarrow> bool" where
  "bytes_is_empty self = (b_len self = 0)"

definition bytes_as_slice :: "bytes \<Rightarrow> u8 list act" where
  "bytes_as_slice self = read_slice (b_ptr self) (b_len self)"

definition inc_start :: "build \<Rightarrow> bytes \<Rightarrow> usize \<Rightarrow> bytes act" where
  "inc_start E self by =
     bind (debug_assert E (b_len self \<ge> by)) (\<lambda>_.
     bind (lift (usize_sub E (b_len self) by)) (\<lambda>len.
       ret (self\<lparr>b_len := len, b_ptr := ptr_add (b_ptr self) by\<rparr>)))"

definition bytes_advance :: "build \<Rightarrow> bytes \<Rightarrow> usize \<Rightarrow> bytes act" where
  "bytes_advance E self cnt =
     bind (require (cnt \<le> b_len self) PanicAssert) (\<lambda>_. inc_start E self cnt)"

text \<open>\<open>RangeBounds\<close>.\<close>

datatype bound = Included usize | Excluded usize | Unbounded

definition range_begin :: "bound \<Rightarrow> usize outcome" where
  "range_begin b =
     (case b of Included n \<Rightarrow> Ok n
      | Excluded n \<Rightarrow> (case checked_add n 1 of Some m \<Rightarrow> Ok m | None \<Rightarrow> Fault PanicExpect)
      | Unbounded \<Rightarrow> Ok 0)"

definition range_end :: "usize \<Rightarrow> bound \<Rightarrow> usize outcome" where
  "range_end len b =
     (case b of Included n \<Rightarrow> (case checked_add n 1 of Some m \<Rightarrow> Ok m | None \<Rightarrow> Fault PanicExpect)
      | Excluded n \<Rightarrow> Ok n
      | Unbounded \<Rightarrow> Ok len)"

definition bytes_slice :: "build \<Rightarrow> bytes \<Rightarrow> bound \<Rightarrow> bound \<Rightarrow> (bytes \<times> bytes) act" where
  "bytes_slice E self start_bound end_bound =
     (let len = b_len self
      in bind (lift (range_begin start_bound)) (\<lambda>lo.
         bind (lift (range_end len end_bound)) (\<lambda>hi.
         bind (require (lo \<le> hi) PanicAssert) (\<lambda>_.
         bind (require (hi \<le> len) PanicAssert) (\<lambda>_.
           if hi = lo then ret (bytes_new, self)
           else bind (bytes_clone E self) (\<lambda>(r, self).
                ret (r\<lparr>b_len := hi - lo, b_ptr := ptr_add (b_ptr r) lo\<rparr>, self)))))))"

definition bytes_slice_ref :: "build \<Rightarrow> bytes \<Rightarrow> ptr \<Rightarrow> usize \<Rightarrow> (bytes \<times> bytes) act" where
  "bytes_slice_ref E self sub subset_len =
     (if subset_len = 0 then ret (bytes_new, self)
      else let bytes_p = addr (b_ptr self); bytes_len = b_len self; subset_p = addr sub
      in bind (require (subset_p \<le> bytes_p) PanicAssert) (\<lambda>_.
         bind (lift (usize_add E subset_p subset_len)) (\<lambda>subset_stop.
         bind (lift (usize_add E bytes_p bytes_len)) (\<lambda>bytes_stop.
         bind (require (subset_stop \<le> bytes_stop) PanicAssert) (\<lambda>_.
         bind (lift (usize_sub E subset_p bytes_p)) (\<lambda>subset_offset.
         bind (lift (usize_add E subset_offset subset_len)) (\<lambda>hi.
           bytes_slice E self (Included subset_offset) (Excluded hi))))))))"

text \<open>Each returns the new handle with \<open>self\<close>.\<close>

definition bytes_split_off :: "build \<Rightarrow> bytes \<Rightarrow> usize \<Rightarrow> (bytes \<times> bytes) act" where
  "bytes_split_off E self at =
     (if at = b_len self
      then bind (new_empty_with_ptr E (wrapping_add (b_ptr self) at)) (\<lambda>r. ret (r, self))
      else if at = 0
      then bind (new_empty_with_ptr E (b_ptr self)) (\<lambda>e. ret (self, e))
      else bind (require (at \<le> b_len self) PanicAssert) (\<lambda>_.
           bind (bytes_clone E self) (\<lambda>(r, self).
           bind (inc_start E r at) (\<lambda>r. ret (r, self\<lparr>b_len := at\<rparr>)))))"

definition bytes_split_to :: "build \<Rightarrow> bytes \<Rightarrow> usize \<Rightarrow> (bytes \<times> bytes) act" where
  "bytes_split_to E self at =
     (if at = b_len self
      then bind (new_empty_with_ptr E (wrapping_add (b_ptr self) at)) (\<lambda>e. ret (self, e))
      else if at = 0
      then bind (new_empty_with_ptr E (b_ptr self)) (\<lambda>r. ret (r, self))
      else bind (require (at \<le> b_len self) PanicAssert) (\<lambda>_.
           bind (bytes_clone E self) (\<lambda>(r, self).
           bind (inc_start E self at) (\<lambda>self. ret (r\<lparr>b_len := at\<rparr>, self)))))"

definition bytes_truncate :: "build \<Rightarrow> bytes \<Rightarrow> usize \<Rightarrow> bytes act" where
  "bytes_truncate E self len =
     (if len < b_len self
      then if b_vtable self = PROMOTABLE_EVEN_VTABLE \<or> b_vtable self = PROMOTABLE_ODD_VTABLE
           then bind (bytes_split_off E self len) (\<lambda>(r, self).
                bind (bytes_drop E r) (\<lambda>_. ret self))
           else ret (self\<lparr>b_len := len\<rparr>)
      else ret self)"

definition bytes_clear :: "build \<Rightarrow> bytes \<Rightarrow> bytes act" where
  "bytes_clear E self = bytes_truncate E self 0"

text \<open>\<open>Ok\<close> is \<open>Inr\<close> and \<open>Err\<close> is \<open>Inl\<close>.\<close>

definition bytes_try_into_mut :: "build \<Rightarrow> bytes \<Rightarrow> (bytes + bytes_mut) act" where
  "bytes_try_into_mut E self =
     bind (bytes_is_unique self) (\<lambda>unique.
       if unique then bind (mut_of_bytes E self) (\<lambda>m. ret (Inr m)) else ret (Inl self))"

text \<open>\<open>From<Box<[u8]>>\<close>, for the slice of \<open>len\<close> bytes at \<open>p\<close>, and \<open>From<Vec<u8>>\<close>.\<close>

definition bytes_from_box :: "ptr \<Rightarrow> usize \<Rightarrow> bytes" where
  "bytes_from_box p len =
     (if len = 0 then bytes_new
      else if addr p AND 1 = 0
      then \<lparr>b_ptr = p, b_len = len, b_data = ptr_map p (\<lambda>a. a OR KIND_VEC),
            b_vtable = PROMOTABLE_EVEN_VTABLE\<rparr>
      else \<lparr>b_ptr = p, b_len = len, b_data = p, b_vtable = PROMOTABLE_ODD_VTABLE\<rparr>)"

definition bytes_from_vec :: "build \<Rightarrow> raw_vec \<Rightarrow> bytes act" where
  "bytes_from_vec E v =
     (let p = rv_ptr v; len = rv_len v; cap = rv_cap v
      in if len = cap then ret (bytes_from_box p len)
         else bind (new_block E 24 8 (\<lambda>base. ArcShared base p cap 1)) (\<lambda>shared.
              bind (debug_assert E (0 = addr shared AND KIND_MASK)) (\<lambda>_.
                ret \<lparr>b_ptr = p, b_len = len, b_data = shared, b_vtable = SHARED_VTABLE\<rparr>)))"

definition bytes_copy_from_slice :: "build \<Rightarrow> u8 list \<Rightarrow> bytes act" where
  "bytes_copy_from_slice E data = bind (rv_of_list E data) (\<lambda>v. bytes_from_vec E v)"

definition freeze :: "build \<Rightarrow> bytes_mut \<Rightarrow> bytes act" where
  "freeze E self =
     (if kind self = KIND_VEC
      then bind (get_vec_pos E self) (\<lambda>off.
           bind (rebuild_vec (bm_ptr self) (bm_len self) (bm_cap self) off) (\<lambda>v.
           bind (bytes_from_vec E v) (\<lambda>b. bytes_advance E b off)))
      else bind (debug_assert E (kind self = KIND_ARC)) (\<lambda>_.
             ret (with_vtable (bm_ptr self) (bm_len self) (bm_data self) SHARED_V_VTABLE)))"

section \<open>Taking bytes out of a buffer\<close>

text \<open>
  \<open>copy_to_bytes\<close> of \<open>Buf\<close>: the default, of \<open>Bytes\<close>, of \<open>BytesMut\<close>, and of the adapters. The bytes come
  with the buffer. In \<open>take_copy_to_bytes\<close> and \<open>chain_copy_to_bytes\<close> the functions \<open>ca\<close> and \<open>cb\<close> are the
  \<open>copy_to_bytes\<close> of the inner buffers.
\<close>

definition copy_to_bytes_default :: "build \<Rightarrow> 's buf_ops \<Rightarrow> 's \<Rightarrow> usize \<Rightarrow> (bytes \<times> 's) act" where
  "copy_to_bytes_default E S self len =
     bind (require (len \<le> remaining S self) (PanicAdvance len (remaining S self))) (\<lambda>_.
     bind (bm_with_capacity E len) (\<lambda>r.
     bind (bm_put E (take_buf S) r (take_new self len)) (\<lambda>(src, r).
     bind (freeze E r) (\<lambda>b. ret (b, take_inner src)))))"

definition bm_copy_to_bytes :: "build \<Rightarrow> bytes_mut \<Rightarrow> usize \<Rightarrow> (bytes \<times> bytes_mut) act" where
  "bm_copy_to_bytes E self len =
     bind (bm_split_to E self len) (\<lambda>(r, self).
     bind (freeze E r) (\<lambda>b. ret (b, self)))"

definition bytes_copy_to_bytes :: "build \<Rightarrow> bytes \<Rightarrow> usize \<Rightarrow> (bytes \<times> bytes) act" where
  "bytes_copy_to_bytes E self len = bytes_split_to E self len"

definition take_copy_to_bytes ::
    "'s buf_ops \<Rightarrow> ('s \<Rightarrow> usize \<Rightarrow> (bytes \<times> 's) act) \<Rightarrow> 's take_adapter \<Rightarrow> usize
     \<Rightarrow> (bytes \<times> 's take_adapter) act" where
  "take_copy_to_bytes S ca self len =
     bind (require (len \<le> take_remaining S self) PanicAssert) (\<lambda>_.
     bind (ca (take_inner self) len) (\<lambda>(r, inner).
       ret (r, self\<lparr>take_inner := inner, take_limit := take_limit self - len\<rparr>)))"

definition chain_copy_to_bytes ::
    "build \<Rightarrow> 'a buf_ops \<Rightarrow> 'b buf_ops \<Rightarrow> ('a \<Rightarrow> usize \<Rightarrow> (bytes \<times> 'a) act)
     \<Rightarrow> ('b \<Rightarrow> usize \<Rightarrow> (bytes \<times> 'b) act) \<Rightarrow> ('a, 'b) chain \<Rightarrow> usize
     \<Rightarrow> (bytes \<times> ('a, 'b) chain) act" where
  "chain_copy_to_bytes E A B ca cb self len =
     (let a_rem = remaining A (chain_a self)
      in if a_rem \<ge> len
         then bind (ca (chain_a self) len) (\<lambda>(r, a). ret (r, self\<lparr>chain_a := a\<rparr>))
         else if a_rem = 0
         then bind (cb (chain_b self) len) (\<lambda>(r, b). ret (r, self\<lparr>chain_b := b\<rparr>))
         else bind (require (len - a_rem \<le> remaining B (chain_b self)) PanicAssert) (\<lambda>_.
              bind (bm_with_capacity E len) (\<lambda>r.
              bind (bm_put E A r (chain_a self)) (\<lambda>(a, r).
              bind (bm_put E (take_buf B) r (take_new (chain_b self) (len - a_rem))) (\<lambda>(src, r).
              bind (freeze E r) (\<lambda>b.
                ret (b, self\<lparr>chain_a := a, chain_b := take_inner src\<rparr>)))))))"

text \<open>\<open>Buf for Bytes\<close>, for a handle with its heap.\<close>

definition bytes_chunk :: "bytes \<times> heap \<Rightarrow> u8 list" where
  "bytes_chunk s =
     (case s of (self, h) \<Rightarrow> (case bytes_as_slice self h of Ok (bs, _) \<Rightarrow> bs | Fault _ \<Rightarrow> []))"

definition bytes_required :: "build \<Rightarrow> (bytes \<times> heap) buf_required" where
  "bytes_required E =
     \<lparr>req_remaining = (\<lambda>(self, h). b_len self),
      req_chunk = bytes_chunk,
      req_advance = (\<lambda>(self, h) cnt. bytes_advance E self cnt h)\<rparr>"

end
