(* ===== verification/Bytes_Contract.thy ===== *)
theory Bytes_Contract
  imports Bytes_Handle Bytes_Mut_Contract
begin

text \<open>
  What \<open>Bytes\<close> keeps and computes. The invariant \<open>b_ok\<close> says that the bytes of a handle can be read and
  that its \<open>data\<close> is what its vtable takes it for. A handle that meets it is a buffer in the sense
  of \<open>Buf\<close>; cloning, slicing, splitting and freezing give handles that meet it and show the right
  bytes.
\<close>

section \<open>Readable bytes\<close>

definition readable :: "heap \<Rightarrow> ptr \<Rightarrow> usize \<Rightarrow> bool" where
  "readable h p n \<longleftrightarrow> (n = 0 \<or> (\<exists>b. prov p = Some b \<and> b < fresh h)) \<and> (\<exists>bs. read_slice p n h = Ok (bs, h))"

definition b_view :: "heap \<Rightarrow> bytes \<Rightarrow> u8 list" where
  "b_view h b = bytes_chunk (b, h)"

text \<open>Every block that holds bytes is kept.\<close>

definition bytes_kept :: "heap \<Rightarrow> heap \<Rightarrow> bool" where
  "bytes_kept h h' \<longleftrightarrow>
     fresh h \<le> fresh h' \<and>
     (\<forall>b blk. b < fresh h \<and> blocks h b = Some blk \<and> cells_of blk \<noteq> None \<longrightarrow> blocks h' b = Some blk)"

lemma bytes_kept_refl [simp]: "bytes_kept h h"
  by (simp add: bytes_kept_def)

lemma bytes_kept_same: "same_except {} h h' \<Longrightarrow> bytes_kept h h'"
  by (simp add: bytes_kept_def same_except_def)

lemma get_cells_state: "get_cells p n h = Ok (cs, h') \<Longrightarrow> h' = h \<and> length cs = n"
  by (auto simp: get_cells_def split: if_splits option.splits)

lemma read_sliceE:
  assumes "read_slice p n h = Ok (bs, h')"
  obtains cs where "get_cells p n h = Ok (cs, h)" "None \<notin> set cs" "bs = map the cs" "h' = h" "length bs = n"
proof (cases "get_cells p n h")
  case (Ok r)
  obtain cs h1 where "r = (cs, h1)" by (cases r)
  then show ?thesis
    using assms Ok get_cells_state [of p n h cs h1] that by (auto simp: read_slice_def split: if_splits)
qed (use assms in \<open>simp add: read_slice_def\<close>)

lemma read_slice_state: "read_slice p n h = Ok (bs, h') \<Longrightarrow> h' = h \<and> length bs = n"
  by (erule read_sliceE) simp

lemma get_cells_sub:
  assumes "get_cells p n h = Ok (cs, h)" "k + m \<le> n"
  shows "get_cells (ptr_add p k) m h = Ok (take m (drop k cs), h)"
proof (cases "m = 0")
  case False
  then show ?thesis
    using assms by (auto simp: get_cells_def drop_take add.commute min_def split: if_splits option.splits)
qed (simp add: get_cells_def)

lemma read_slice_sub:
  assumes "read_slice p n h = Ok (bs, h)" "k + m \<le> n"
  shows "read_slice (ptr_add p k) m h = Ok (take m (drop k bs), h)"
proof -
  obtain cs where cs: "get_cells p n h = Ok (cs, h)" "None \<notin> set cs" "bs = map the cs"
    using assms(1) by (rule read_sliceE)
  have "set (take m (drop k cs)) \<subseteq> set cs" by (meson order_trans set_drop_subset set_take_subset)
  then have "None \<notin> set (take m (drop k cs))" using cs(2) by auto
  then show ?thesis
    using get_cells_sub [OF cs(1) assms(2)] cs(3) by (simp add: read_slice_def take_map drop_map)
qed

lemma read_slice_kept:
  assumes "readable h p n" "bytes_kept h h'" "read_slice p n h = Ok (bs, h)"
  shows "read_slice p n h' = Ok (bs, h')"
proof (cases "n = 0")
  case False
  then obtain b where b: "prov p = Some b" "b < fresh h" using assms(1) by (auto simp: readable_def)
  obtain cs where cs: "get_cells p n h = Ok (cs, h)" "None \<notin> set cs" "bs = map the cs"
    using assms(3) by (rule read_sliceE)
  obtain blk where "blocks h b = Some blk" "cells_of blk \<noteq> None"
    using cs(1) b(1) False by (cases "blocks h b") (auto simp: get_cells_def split: option.splits)
  then have "blocks h' b = blocks h b" using assms(2) b(2) by (simp add: bytes_kept_def)
  then have "get_cells p n h' = Ok (cs, h')"
    using cs(1) b(1) False by (auto simp: get_cells_def split: option.splits if_splits)
  then show ?thesis using cs by (simp add: read_slice_def)
qed (use assms(3) in \<open>simp add: read_slice_def get_cells_def\<close>)

lemma readable_kept:
  assumes "readable h p n" "bytes_kept h h'"
  shows "readable h' p n"
proof -
  have "fresh h \<le> fresh h'" using assms(2) by (simp add: bytes_kept_def)
  moreover obtain bs where "read_slice p n h = Ok (bs, h)" using assms(1) by (auto simp: readable_def)
  ultimately show ?thesis
    using assms(1) read_slice_kept [OF assms] by (auto simp: readable_def)
qed

lemma readable_sub:
  assumes "readable h p n" "k + m \<le> n"
  shows "readable h (ptr_add p k) m"
proof -
  obtain bs where "read_slice p n h = Ok (bs, h)" using assms(1) by (auto simp: readable_def)
  then show ?thesis using read_slice_sub [OF _ assms(2)] assms by (auto simp: readable_def)
qed

lemma readable_view: "readable h (b_ptr b) (b_len b) \<Longrightarrow> bytes_as_slice b h = Ok (b_view h b, h)"
  by (auto simp: readable_def b_view_def bytes_chunk_def bytes_as_slice_def)

lemma view_length: "readable h (b_ptr b) (b_len b) \<Longrightarrow> length (b_view h b) = b_len b"
  using readable_view [of h b] read_slice_state by (auto simp: bytes_as_slice_def)

lemma view_kept: "readable h (b_ptr b) (b_len b) \<Longrightarrow> bytes_kept h h' \<Longrightarrow> b_view h' b = b_view h b"
  using read_slice_kept [of h "b_ptr b" "b_len b" h'] readable_view [of h b]
  by (simp add: b_view_def bytes_chunk_def bytes_as_slice_def)

lemma view_sub:
  assumes "readable h (b_ptr b) (b_len b)" "k + m \<le> b_len b" "b_ptr c = ptr_add (b_ptr b) k" "b_len c = m"
  shows "b_view h c = take m (drop k (b_view h b))"
  using read_slice_sub [OF _ assms(2)] readable_view [OF assms(1)] assms(3,4)
  by (simp add: b_view_def bytes_chunk_def bytes_as_slice_def)

section \<open>The invariant\<close>

definition arc_at :: "heap \<Rightarrow> ptr \<Rightarrow> ptr \<Rightarrow> usize \<Rightarrow> usize \<Rightarrow> bool" where
  "arc_at h p buf cap n \<longleftrightarrow>
     (\<exists>s. prov p = Some s \<and> s < fresh h \<and> blocks h s = Some (ArcShared (addr p) buf cap n)) \<and> even (addr p)
     \<and> 0 < n \<and> n \<le> isize_max + 1 \<and> 0 < cap \<and> vec_ok h \<lparr>rv_ptr = buf, rv_len = 0, rv_cap = cap\<rparr>"

definition owned_at :: "heap \<Rightarrow> ptr \<Rightarrow> usize \<Rightarrow> nat list \<Rightarrow> bool" where
  "owned_at h p n frees \<longleftrightarrow>
     (\<exists>s. prov p = Some s \<and> s < fresh h \<and> blocks h s = Some (Owned (addr p) n frees))
     \<and> 0 < n \<and> n \<le> isize_max + 1"

text \<open>A handle into a box that counts, and one into a boxed slice, whose end it shares.\<close>

definition b_arc :: "heap \<Rightarrow> bytes \<Rightarrow> bool" where
  "b_arc h b \<longleftrightarrow> (\<exists>buf cap n off. arc_at h (b_data b) buf cap n \<and> b_ptr b = ptr_add buf off \<and> off + b_len b \<le> cap)"

definition b_boxed :: "heap \<Rightarrow> bytes \<Rightarrow> ptr \<Rightarrow> usize \<Rightarrow> bool" where
  "b_boxed h b buf off \<longleftrightarrow>
     b_ptr b = ptr_add buf off \<and> 0 < off + b_len b
     \<and> vec_ok h \<lparr>rv_ptr = buf, rv_len = off + b_len b, rv_cap = off + b_len b\<rparr>"

definition b_ok :: "heap \<Rightarrow> bytes \<Rightarrow> bool" where
  "b_ok h b \<longleftrightarrow>
     readable h (b_ptr b) (b_len b) \<and> 0 < addr (b_ptr b) \<and> addr (b_ptr b) + b_len b < 2 ^ 64 \<and>
     (case b_vtable b of
        STATIC_VTABLE \<Rightarrow> True
      | OWNED_VTABLE \<Rightarrow> (\<exists>n frees. owned_at h (b_data b) n frees)
      | PROMOTABLE_EVEN_VTABLE \<Rightarrow>
          b_arc h b \<or> (\<exists>buf off. b_boxed h b buf off \<and> even (addr buf) \<and> b_data b = ptr_add buf 1)
      | PROMOTABLE_ODD_VTABLE \<Rightarrow>
          b_arc h b \<or> (\<exists>buf off. b_boxed h b buf off \<and> odd (addr buf) \<and> b_data b = buf)
      | SHARED_VTABLE \<Rightarrow> b_arc h b
      | SHARED_V_VTABLE \<Rightarrow>
          (\<exists>v r n off. shared_at h (b_data b) v r n \<and> vec_ok h v \<and> b_ptr b = ptr_add (rv_ptr v) off
             \<and> off + b_len b \<le> rv_cap v))"

lemma b_okD:
  assumes "b_ok h b"
  shows "readable h (b_ptr b) (b_len b)" "0 < addr (b_ptr b)" "addr (b_ptr b) + b_len b < 2 ^ 64"
  using assms by (simp_all add: b_ok_def)

text \<open>
  A handle on a later part of a good one is good; on an earlier part too, unless the handle is
  on a boxed slice.
\<close>

lemma b_arc_sub:
  "b_arc h b \<Longrightarrow> k + m \<le> b_len b \<Longrightarrow>
   b_arc h (b\<lparr>b_len := m, b_ptr := ptr_add (b_ptr b) k\<rparr>)"
proof -
  assume a: "b_arc h b" "k + m \<le> b_len b"
  from a(1) obtain buf cap n off where c: "arc_at h (b_data b) buf cap n" "b_ptr b = ptr_add buf off"
    "off + b_len b \<le> cap" by (auto simp: b_arc_def)
  show ?thesis
    unfolding b_arc_def using c a(2)
    by (intro exI [of _ buf] exI [of _ cap] exI [of _ n] exI [of _ "off + k"]) simp
qed

lemma b_ok_sub:
  assumes b: "b_ok h b" and k: "k + m \<le> b_len b"
    and e: "b_vtable b \<in> {PROMOTABLE_EVEN_VTABLE, PROMOTABLE_ODD_VTABLE} \<Longrightarrow> k + m = b_len b"
  shows "b_ok h (b\<lparr>b_len := m, b_ptr := ptr_add (b_ptr b) k\<rparr>)"
proof -
  let ?b = "b\<lparr>b_len := m, b_ptr := ptr_add (b_ptr b) k\<rparr>"
  have bx: "b_boxed h ?b buf (off + k)" if "b_boxed h b buf off" "k + m = b_len b" for buf off
    using that by (auto simp: b_boxed_def add.assoc)
  have "readable h (b_ptr ?b) (b_len ?b)" using readable_sub [OF b_okD(1) [OF b] k] by simp
  moreover have "0 < addr (b_ptr ?b)" "addr (b_ptr ?b) + b_len ?b < 2 ^ 64" using b_okD [OF b] k by simp_all
  moreover have "\<exists>v r n off. shared_at h (b_data b) v r n \<and> vec_ok h v \<and> b_ptr ?b = ptr_add (rv_ptr v) off
      \<and> off + b_len ?b \<le> rv_cap v" if "b_vtable b = SHARED_V_VTABLE"
  proof -
    from b that obtain v r n off where "shared_at h (b_data b) v r n" "vec_ok h v"
      "b_ptr b = ptr_add (rv_ptr v) off" "off + b_len b \<le> rv_cap v" by (auto simp: b_ok_def)
    then show ?thesis using k by (intro exI [of _ v] exI [of _ r] exI [of _ n] exI [of _ "off + k"]) simp
  qed
  ultimately show ?thesis
    using b bx e b_arc_sub [OF _ k] by (cases "b_vtable b") (auto simp: b_ok_def, blast+)
qed

lemma inc_start_ok:
  assumes b: "b_ok h b" and n: "n \<le> b_len b"
  obtains b' where "inc_start E b n h = Ok (b', h)" "b_ok h b'" "b_view h b' = drop n (b_view h b)"
    "b' = b\<lparr>b_len := b_len b - n, b_ptr := ptr_add (b_ptr b) n\<rparr>"
proof
  let ?b = "b\<lparr>b_len := b_len b - n, b_ptr := ptr_add (b_ptr b) n\<rparr>"
  show "inc_start E b n h = Ok (?b, h)" using n by (simp add: inc_start_def usize_sub_def)
  show "b_ok h ?b" using n by (intro b_ok_sub [OF b]) simp_all
  show "b_view h ?b = drop n (b_view h b)"
    using view_sub [OF b_okD(1) [OF b], of n "b_len b - n" ?b] view_length [OF b_okD(1) [OF b]] n by simp
qed simp

lemma bytes_meets_buf:
  "buf_required_contract (bytes_required E) (\<lambda>s. b_ok (snd s) (fst s)) (\<lambda>s. b_view (snd s) (fst s))"
proof (unfold_locales, goal_cases)
  case (4 s n)
  obtain b h where s: "s = (b, h)" by (cases s)
  with 4 have b: "b_ok h b" "n \<le> b_len b" using view_length [OF b_okD(1), of h b] by simp_all
  then obtain b' where "inc_start E b n h = Ok (b', h)" "b_ok h b'" "b_view h b' = drop n (b_view h b)"
    by (rule inc_start_ok [where E = E])
  then show ?case using b(2) by (simp add: s bytes_required_def bytes_advance_def)
next
  case (5 s n)
  then show ?case
    using view_length [OF b_okD(1), of "snd s" "fst s"]
    by (cases s) (simp add: bytes_required_def bytes_advance_def)
qed (auto simp: bytes_required_def b_view_def [symmetric] dest: b_okD(1) simp: view_length)

interpretation bytes_read: buf_required_contract
  "bytes_required plain_build" "\<lambda>s. b_ok (snd s) (fst s)" "\<lambda>s. b_view (snd s) (fst s)"
  by (rule bytes_meets_buf)

section \<open>Cloning\<close>

text \<open>
  A clone either aborts the process, when the count is at its limit, or gives a second good
  handle on the same bytes, and keeps the first.
\<close>

text \<open>The count that a handle shares has reached the limit at which a clone aborts.\<close>

definition at_limit :: "heap \<Rightarrow> bytes \<Rightarrow> bool" where
  "at_limit h b \<longleftrightarrow>
     (case Option.bind (prov (b_data b)) (blocks h) of
        Some (ArcShared _ _ _ n) \<Rightarrow> isize_max < n
      | Some (VecShared _ _ _ n) \<Rightarrow> isize_max < n
      | Some (Owned _ n _) \<Rightarrow> isize_max < n
      | _ \<Rightarrow> False)"

definition cloned :: "heap \<Rightarrow> bytes \<Rightarrow> ((bytes \<times> bytes) \<times> heap) outcome \<Rightarrow> bool" where
  "cloned h b r \<longleftrightarrow> r = Fault AbortProcess \<and> at_limit h b \<or>
     (\<exists>c b' h'. r = Ok ((c, b'), h') \<and> b_ok h' c \<and> b_ok h' b' \<and> bytes_kept h h'
        \<and> b_ptr c = b_ptr b \<and> b_len c = b_len b
        \<and> b_vtable c \<notin> {PROMOTABLE_EVEN_VTABLE, PROMOTABLE_ODD_VTABLE}
        \<and> (\<exists>d. b' = b\<lparr>b_data := d\<rparr>)
        \<and> (b_vtable b \<in> {PROMOTABLE_EVEN_VTABLE, PROMOTABLE_ODD_VTABLE} \<longrightarrow> b_arc h' b'))"

lemma b_ok_owned:
  assumes "readable h (b_ptr b) (b_len b)" "0 < addr (b_ptr b)" "addr (b_ptr b) + b_len b < 2 ^ 64"
    "b_vtable b = OWNED_VTABLE" "owned_at h (b_data b) n frees"
  shows "b_ok h b"
proof -
  have "\<exists>n frees. owned_at h (b_data b) n frees" using assms(5) by blast
  then show ?thesis using assms(1-4) by (simp add: b_ok_def)
qed

lemma b_ok_frozen:
  assumes "readable h (b_ptr b) (b_len b)" "0 < addr (b_ptr b)" "addr (b_ptr b) + b_len b < 2 ^ 64"
    "b_vtable b = SHARED_V_VTABLE" "shared_at h (b_data b) v r n" "vec_ok h v"
    "b_ptr b = ptr_add (rv_ptr v) off" "off + b_len b \<le> rv_cap v"
  shows "b_ok h b"
proof -
  have "\<exists>v r n off. shared_at h (b_data b) v r n \<and> vec_ok h v \<and> b_ptr b = ptr_add (rv_ptr v) off
      \<and> off + b_len b \<le> rv_cap v" using assms(5-8) by blast
  then show ?thesis unfolding b_ok_def using assms(1-4) by simp
qed

lemma clonedI:
  assumes "r = Ok ((c, b), h')" "b_ok h' c" "b_ok h' b" "bytes_kept h h'" "b_ptr c = b_ptr b" "b_len c = b_len b"
    "b_vtable c \<notin> {PROMOTABLE_EVEN_VTABLE, PROMOTABLE_ODD_VTABLE}"
    "b_vtable b \<in> {PROMOTABLE_EVEN_VTABLE, PROMOTABLE_ODD_VTABLE} \<Longrightarrow> b_arc h' b"
  shows "cloned h b r"
proof -
  have "b = b\<lparr>b_data := b_data b\<rparr>" by simp
  then show ?thesis unfolding cloned_def using assms by blast
qed

lemma bytes_kept_box:
  assumes "prov p = Some s" "blocks h s = Some blk" "cells_of blk = None" "same_except (set_option (prov p)) h h'"
  shows "bytes_kept h h'"
  unfolding bytes_kept_def
proof (intro conjI allI impI)
  show "fresh h \<le> fresh h'" using assms(4) by (rule same_except_fresh)
  fix b blk'
  assume b: "b < fresh h \<and> blocks h b = Some blk' \<and> cells_of blk' \<noteq> None"
  then have "b \<noteq> s" using assms(2,3) by auto
  then show "blocks h' b = Some blk'" using same_exceptD [OF assms(4), of b] assms(1) b by simp
qed

lemma half_max: "drop_bit 1 usize_max = isize_max" "drop_bit (Suc 0) usize_max = isize_max"
  by (simp_all add: usize_max_def isize_max_def drop_bit_eq_div)

lemma arc_at_get: "arc_at h p buf cap n \<Longrightarrow> get_arc p h = Ok ((buf, cap, n), h)"
  by (auto simp: arc_at_def get_arc_def)

lemma at_limit_arc: "arc_at h (b_data b) buf cap n \<Longrightarrow> \<not> n \<le> isize_max \<Longrightarrow> at_limit h b"
  by (auto simp: arc_at_def at_limit_def)

lemma cloned_arc:
  assumes b: "b_ok h b" "b_arc h b" "b_vtable b \<in> {PROMOTABLE_EVEN_VTABLE, PROMOTABLE_ODD_VTABLE, SHARED_VTABLE}"
  shows "cloned h b (bind (shallow_clone_arc (b_data b) (b_ptr b) (b_len b)) (\<lambda>c. ret (c, b)) h)"
proof -
  obtain buf cap n off where a: "arc_at h (b_data b) buf cap n" "b_ptr b = ptr_add buf off"
    "off + b_len b \<le> cap" using b(2) by (auto simp: b_arc_def)
  let ?c = "\<lparr>b_ptr = b_ptr b, b_len = b_len b, b_data = b_data b, b_vtable = SHARED_VTABLE\<rparr>"
  have "b_arc h ?c" using b(2) by (simp add: b_arc_def)
  then have "b_ok h ?c" using b(1) by (simp add: b_ok_def)
  then show ?thesis
    using b(1,2) arc_at_get [OF a(1)] at_limit_arc [OF a(1)]
    by (cases "n \<le> isize_max")
      (auto simp: shallow_clone_arc_def half_max cloned_def [of _ _ "Fault _"] intro: clonedI)
qed

lemma odd_kind: "odd a \<Longrightarrow> a AND KIND_MASK = KIND_VEC"
  by (simp add: KIND_MASK_def KIND_VEC_def and_one_eq odd_iff_mod_2_eq_one del: One_nat_def)

lemma even_buf_tag:
  assumes "even (addr p)" "addr p < 2 ^ 64"
  shows "even_buf (ptr_add p 1) = p"
proof -
  have "(addr p + 1) AND KIND_MASK = 1" using odd_kind [of "addr p + 1"] assms(1) by (simp add: KIND_VEC_def)
  then have e: "(addr p + 1) - ((addr p + 1) AND KIND_MASK) = addr p" by simp
  have "nat ((int (addr p) - int (addr p + 1)) mod 2 ^ 64) = 2 ^ 64 - 1" by simp
  then have "even_buf (ptr_add p 1) = p\<lparr>addr := (addr p + 1 + (2 ^ 64 - 1)) mod 2 ^ 64\<rparr>"
    by (simp add: even_buf_def ptr_map_def e Let_def wrapping_add_def ptr_add_def del: One_nat_def)
  also have "(addr p + 1 + (2 ^ 64 - 1)) mod 2 ^ 64 = addr p"
  proof -
    have "addr p + 1 + (2 ^ 64 - 1) = addr p + 2 ^ 64" by simp
    then show ?thesis using assms(2) by (simp only: mod_add_self2 mod_less)
  qed
  finally show ?thesis by simp
qed

lemma new_arc_ok:
  assumes E: "good_build E" and v: "vec_ok h \<lparr>rv_ptr = buf, rv_len = l, rv_cap = cap\<rparr>" "0 < cap"
    and n: "0 < n" "n \<le> isize_max + 1"
  obtains p h' where "new_block E 24 8 (\<lambda>base. ArcShared base buf cap n) h = Ok (p, h')"
    "arc_at h' p buf cap n" "same_except {} h h'" "0 = addr p AND KIND_MASK"
proof -
  let ?a = "place E h 24 8"
  let ?h = "h\<lparr>blocks := (blocks h)(fresh h := Some (ArcShared ?a buf cap n)), fresh := Suc (fresh h)\<rparr>"
  let ?p = "\<lparr>prov = Some (fresh h), addr = ?a\<rparr>"
  have "?a mod 8 = 0" using E by (simp add: good_build_def isize_max_def)
  then have ev: "even ?a" by (metis dvd_eq_mod_eq_0 dvd_trans even_numeral)
  have s: "same_except {} h ?h" by (simp add: same_except_def)
  have "vec_ok h \<lparr>rv_ptr = buf, rv_len = 0, rv_cap = cap\<rparr>"
    using vec_ok_len [OF v(1), of 0] by simp
  then have "vec_ok ?h \<lparr>rv_ptr = buf, rv_len = 0, rv_cap = cap\<rparr>" by (rule vec_ok_frame(1) [OF _ s]) simp
  then have "arc_at ?h ?p buf cap n" using ev v n by (simp add: arc_at_def)
  then show thesis using s even_kind [OF ev] by (intro that [of ?p ?h]) (simp_all add: new_block_def Let_def KIND_ARC_def)
qed

lemma cloned_boxed:
  assumes E: "good_build E" and b: "b_ok h b" "b_boxed h b buf off" "f (b_data b) = buf"
    and k: "addr (b_data b) AND KIND_MASK = KIND_VEC" "b_vtable b \<in> {PROMOTABLE_EVEN_VTABLE, PROMOTABLE_ODD_VTABLE}"
  shows "cloned h b (bind (promotable_clone E f (b_data b) (b_ptr b) (b_len b))
    (\<lambda>(c, data'). ret (c, b\<lparr>b_data := data'\<rparr>)) h)"
proof -
  let ?cap = "off + b_len b"
  have v: "vec_ok h \<lparr>rv_ptr = buf, rv_len = ?cap, rv_cap = ?cap\<rparr>" "0 < ?cap" "b_ptr b = ptr_add buf off"
    using b(2) by (simp_all add: b_boxed_def)
  have "?cap \<le> usize_max" using vec_ok_bounds(2) [OF v(1)] by simp
  then have c: "offset_from E (b_ptr b) buf = Ok off" "usize_add E off (b_len b) = Ok ?cap"
    using v(3) by (simp_all add: offset_from_def usize_sub_def usize_add_def)
  obtain p h' where p: "new_block E 24 8 (\<lambda>base. ArcShared base buf ?cap 2) h = Ok (p, h')"
    "arc_at h' p buf ?cap 2" "same_except {} h h'" "0 = addr p AND KIND_MASK"
    by (rule new_arc_ok [OF E v(1,2), of 2]) (simp_all add: isize_max_def)
  let ?c = "\<lparr>b_ptr = b_ptr b, b_len = b_len b, b_data = p, b_vtable = SHARED_VTABLE\<rparr>"
  let ?b = "b\<lparr>b_data := p\<rparr>"
  note kept = bytes_kept_same [OF p(3)]
  have "b_arc h' ?c" "b_arc h' ?b"
    using p(2) v(3) unfolding b_arc_def by (simp_all, blast+)
  moreover have "b_ok h' ?c" "b_ok h' ?b"
    using calculation k(2) b_okD [OF b(1)] readable_kept [OF b_okD(1) [OF b(1)] kept]
    by (auto simp: b_ok_def)
  moreover have "bind (promotable_clone E f (b_data b) (b_ptr b) (b_len b))
    (\<lambda>(c, data'). ret (c, b\<lparr>b_data := data'\<rparr>)) h = Ok ((?c, ?b), h')"
    using k(1) b(3) c p(1,4) by (simp add: promotable_clone_def shallow_clone_vec_def Let_def)
  ultimately show ?thesis using kept unfolding cloned_def by auto
qed

lemma count_up:
  assumes "n \<le> isize_max"
  shows "(n + 1) mod 2 ^ 64 = n + 1" "Suc n mod 2 ^ 64 = n + 1"
  using assms by (simp_all add: isize_max_def)

lemma cloned_owned:
  assumes b: "b_ok h b" "b_vtable b = OWNED_VTABLE"
  shows "cloned h b (bind (owned_clone (b_data b) (b_ptr b) (b_len b)) (\<lambda>c. ret (c, b)) h)"
proof -
  obtain n frees s where o: "prov (b_data b) = Some s" "s < fresh h"
    "blocks h s = Some (Owned (addr (b_data b)) n frees)" "0 < n" "n \<le> isize_max + 1"
    using b by (auto simp: b_ok_def owned_at_def)
  have g: "get_owned (b_data b) h = Ok ((n, frees), h)" using o by (simp add: get_owned_def)
  show ?thesis
  proof (cases "n \<le> isize_max")
    case True
    let ?h = "h\<lparr>blocks := (blocks h)(s := Some (Owned (addr (b_data b)) (n + 1) frees))\<rparr>"
    have kept: "bytes_kept h ?h" using o by (auto simp: bytes_kept_def)
    have "owned_at ?h (b_data b) (n + 1) frees" using o True by (simp add: owned_at_def)
    then have "b_ok ?h c"
      if "c \<in> {\<lparr>b_ptr = b_ptr b, b_len = b_len b, b_data = b_data b, b_vtable = OWNED_VTABLE\<rparr>, b}" for c
      using that b(2) b_okD [OF b(1)] readable_kept [OF b_okD(1) [OF b(1)] kept]
      by (intro b_ok_owned [of _ _ "n + 1" frees]) auto
    then show ?thesis
      using g o(1) True kept count_up [OF True] b(2)
      by (intro clonedI [of _ "\<lparr>b_ptr = b_ptr b, b_len = b_len b, b_data = b_data b, b_vtable = OWNED_VTABLE\<rparr>" b ?h])
        (simp_all add: owned_clone_def set_owned_def half_max)
  qed (use g o(1,3) in \<open>simp add: cloned_def owned_clone_def set_owned_def half_max at_limit_def\<close>)
qed

lemma cloned_frozen:
  assumes b: "b_ok h b" "b_vtable b = SHARED_V_VTABLE"
  shows "cloned h b (bind (shared_v_clone (b_data b) (b_ptr b) (b_len b)) (\<lambda>c. ret (c, b)) h)"
proof -
  obtain v r n off where s: "shared_at h (b_data b) v r n" "vec_ok h v"
    "b_ptr b = ptr_add (rv_ptr v) off" "off + b_len b \<le> rv_cap v"
    using b by (auto simp: b_ok_def)
  show ?thesis
  proof (cases "n \<le> isize_max")
    case True
    obtain h' where h': "set_shared (b_data b) (v, r, n + 1) h = Ok ((), h')" "shared_at h' (b_data b) v r (n + 1)"
      "same_except (set_option (prov (b_data b))) h h'"
      by (rule set_shared_ok [OF s(1), of r "n + 1" v]) (use s(1) True in \<open>auto simp: shared_at_def\<close>)
    have kept: "bytes_kept h h'"
      using s(1) h'(3) by (auto simp: shared_at_def intro: bytes_kept_box)
    have "vec_ok h' v" by (rule vec_ok_frame(1) [OF s(2) h'(3) shared_not_vec(2) [OF s(2,1)]])
    then have "b_ok h' c" if "c \<in> {with_vtable (b_ptr b) (b_len b) (b_data b) SHARED_V_VTABLE, b}" for c
      using that b(2) b_okD [OF b(1)] readable_kept [OF b_okD(1) [OF b(1)] kept] h'(2) s
      by (intro b_ok_frozen [of _ _ v r "n + 1" off]) (auto simp: with_vtable_def)
    moreover have "shared_v_clone (b_data b) (b_ptr b) (b_len b) h
        = Ok (with_vtable (b_ptr b) (b_len b) (b_data b) SHARED_V_VTABLE, h')"
      using h'(1) True count_up [OF True] by (simp add: shared_v_clone_def increment_shared_def get_shared_ok [OF s(1)])
    ultimately show ?thesis
      using kept b(2) by (intro clonedI [of _ "with_vtable (b_ptr b) (b_len b) (b_data b) SHARED_V_VTABLE" b h'])
        (simp_all add: with_vtable_def)
  next
    case False
    then show ?thesis
      using s(1) by (auto simp: cloned_def shared_v_clone_def increment_shared_def get_shared_ok [OF s(1)]
          set_shared_def shared_at_def at_limit_def)
  qed
qed

lemma bytes_clone_ok:
  assumes E: "good_build E" and b: "b_ok h b"
  shows "cloned h b (bytes_clone E b h)"
proof (cases "b_vtable b")
  case STATIC_VTABLE
  obtain cs where "get_cells (b_ptr b) (b_len b) h = Ok (cs, h)"
    using b_okD(1) [OF b] by (auto simp: readable_def elim!: read_sliceE)
  moreover have "b_ok h (bytes_from_static (b_ptr b) (b_len b))"
    using b_okD [OF b] by (simp add: b_ok_def bytes_from_static_def)
  ultimately show ?thesis
    using b STATIC_VTABLE
    by (intro clonedI [of _ "bytes_from_static (b_ptr b) (b_len b)" b h])
      (simp_all add: bytes_clone_def static_clone_def bytes_from_static_def Let_def)
next
  case OWNED_VTABLE
  then show ?thesis using cloned_owned [OF b OWNED_VTABLE] by (simp add: bytes_clone_def)
next
  case PROMOTABLE_EVEN_VTABLE
  consider (arc) "b_arc h b"
    | (boxed) buf off where "b_boxed h b buf off" "even (addr buf)" "b_data b = ptr_add buf 1"
    using b PROMOTABLE_EVEN_VTABLE by (auto simp: b_ok_def)
  then show ?thesis
  proof cases
    case arc
    then have "addr (b_data b) AND KIND_MASK = KIND_ARC" by (auto simp: b_arc_def arc_at_def even_kind)
    then show ?thesis
      using cloned_arc [OF b arc] PROMOTABLE_EVEN_VTABLE
      by (simp add: bytes_clone_def promotable_even_clone_def promotable_clone_def case_prod_unfold Let_def
          obind_assoc)
  next
    case boxed
    have "addr buf < 2 ^ 64" using b_okD(3) [OF b] boxed(1) by (simp add: b_boxed_def)
    then have "even_buf (b_data b) = buf" using even_buf_tag [OF boxed(2)] boxed(3) by simp
    moreover have "addr (b_data b) AND KIND_MASK = KIND_VEC" using odd_kind [of "addr buf + 1"] boxed by simp
    ultimately show ?thesis
      using cloned_boxed [OF E b boxed(1), of even_buf] PROMOTABLE_EVEN_VTABLE
      by (simp add: bytes_clone_def promotable_even_clone_def)
  qed
next
  case PROMOTABLE_ODD_VTABLE
  consider (arc) "b_arc h b" | (boxed) buf off where "b_boxed h b buf off" "odd (addr buf)" "b_data b = buf"
    using b PROMOTABLE_ODD_VTABLE by (auto simp: b_ok_def)
  then show ?thesis
  proof cases
    case arc
    then have "addr (b_data b) AND KIND_MASK = KIND_ARC" by (auto simp: b_arc_def arc_at_def even_kind)
    then show ?thesis
      using cloned_arc [OF b arc] PROMOTABLE_ODD_VTABLE
      by (simp add: bytes_clone_def promotable_odd_clone_def promotable_clone_def case_prod_unfold Let_def
          obind_assoc)
  next
    case boxed
    then show ?thesis
      using cloned_boxed [OF E b boxed(1), of odd_buf] odd_kind [of "addr buf"] PROMOTABLE_ODD_VTABLE
      by (simp add: bytes_clone_def promotable_odd_clone_def odd_buf_def)
  qed
next
  case SHARED_VTABLE
  then show ?thesis using cloned_arc [OF b] b by (simp add: bytes_clone_def b_ok_def)
next
  case SHARED_V_VTABLE
  then show ?thesis using cloned_frozen [OF b SHARED_V_VTABLE] by (simp add: bytes_clone_def)
qed

section \<open>Slicing and splitting\<close>

text \<open>A handle that shows the first bytes only.\<close>

lemma b_ok_prefix:
  assumes b: "b_ok h b" and m: "m \<le> b_len b"
    and e: "b_vtable b \<in> {PROMOTABLE_EVEN_VTABLE, PROMOTABLE_ODD_VTABLE} \<Longrightarrow> b_arc h b"
  shows "b_ok h (b\<lparr>b_len := m\<rparr>)" "b_view h (b\<lparr>b_len := m\<rparr>) = take m (b_view h b)"
proof -
  let ?b = "b\<lparr>b_len := m\<rparr>"
  have p: "b\<lparr>b_len := m, b_ptr := ptr_add (b_ptr b) 0\<rparr> = ?b" by simp
  show "b_ok h ?b"
  proof (cases "b_vtable b \<in> {PROMOTABLE_EVEN_VTABLE, PROMOTABLE_ODD_VTABLE}")
    case True
    have "readable h (b_ptr b) m" using readable_sub [OF b_okD(1) [OF b], of 0 m] m by simp
    moreover have "b_arc h ?b" using b_arc_sub [OF e [OF True], of 0 m] m p by simp
    ultimately show ?thesis using True b_okD [OF b] m by (auto simp: b_ok_def)
  qed (use b_ok_sub [OF b, of 0 m] m p in simp)
  show "b_view h ?b = take m (b_view h b)"
    using view_sub [OF b_okD(1) [OF b], of 0 m ?b] m by simp
qed

text \<open>
  Two handles made of one: \<open>r\<close> is the new one, with \<open>self\<close> as it is afterwards. The process may
  abort instead only when the count is at its limit.
\<close>

definition divides ::
    "heap \<Rightarrow> bytes \<Rightarrow> u8 list \<Rightarrow> u8 list \<Rightarrow> ((bytes \<times> bytes) \<times> heap) outcome \<Rightarrow> bool" where
  "divides h b xs ys res \<longleftrightarrow> res = Fault AbortProcess \<and> at_limit h b \<or>
     (\<exists>r b' h'. res = Ok ((r, b'), h') \<and> b_ok h' r \<and> b_ok h' b' \<and> b_view h' r = xs \<and> b_view h' b' = ys
        \<and> bytes_kept h h')"

lemma b_ok_new: "b_ok h bytes_new" "b_view h bytes_new = []"
  by (simp_all add: b_ok_def bytes_new_def bytes_from_static_def readable_def read_slice_def get_cells_def
      dangling_def without_provenance_def b_view_def bytes_chunk_def bytes_as_slice_def)

lemma new_empty_ok:
  assumes "0 < addr p" "addr p < 2 ^ 64"
  obtains b where "new_empty_with_ptr E p h = Ok (b, h)" "b_ok h b" "b_view h b = []"
  using assms
  by (intro that [of "\<lparr>b_ptr = without_provenance (addr p), b_len = 0, b_data = null, b_vtable = STATIC_VTABLE\<rparr>"])
    (simp_all add: new_empty_with_ptr_def b_ok_def readable_def read_slice_def get_cells_def
      without_provenance_def b_view_def bytes_chunk_def bytes_as_slice_def)

lemma end_empty_ok:
  assumes "b_ok h b"
  obtains e where "new_empty_with_ptr E (wrapping_add (b_ptr b) (b_len b)) h = Ok (e, h)" "b_ok h e" "b_view h e = []"
  by (rule new_empty_ok [of "wrapping_add (b_ptr b) (b_len b)" E h])
    (use b_okD [OF assms] in \<open>simp_all add: wrapping_add_def\<close>)

lemma view_parts: "b_ptr c = b_ptr b \<Longrightarrow> b_len c = b_len b \<Longrightarrow> b_view h c = b_view h b"
  by (simp add: b_view_def bytes_chunk_def bytes_as_slice_def)

lemma bytes_cloneE:
  assumes E: "good_build E" and b: "b_ok h b"
  obtains "bytes_clone E b h = Fault AbortProcess" "at_limit h b"
  | c d h' where "bytes_clone E b h = Ok ((c, b\<lparr>b_data := d\<rparr>), h')" "b_ok h' c" "b_ok h' (b\<lparr>b_data := d\<rparr>)"
      "bytes_kept h h'" "b_ptr c = b_ptr b" "b_len c = b_len b"
      "b_vtable c \<notin> {PROMOTABLE_EVEN_VTABLE, PROMOTABLE_ODD_VTABLE}"
      "b_vtable b \<in> {PROMOTABLE_EVEN_VTABLE, PROMOTABLE_ODD_VTABLE} \<Longrightarrow> b_arc h' (b\<lparr>b_data := d\<rparr>)"
      "b_view h' c = b_view h b" "b_view h' (b\<lparr>b_data := d\<rparr>) = b_view h b"
proof (cases "bytes_clone E b h = Fault AbortProcess \<and> at_limit h b")
  case False
  then obtain c d h' where c: "bytes_clone E b h = Ok ((c, b\<lparr>b_data := d\<rparr>), h')" "b_ok h' c"
    "b_ok h' (b\<lparr>b_data := d\<rparr>)" "bytes_kept h h'" "b_ptr c = b_ptr b" "b_len c = b_len b"
    "b_vtable c \<notin> {PROMOTABLE_EVEN_VTABLE, PROMOTABLE_ODD_VTABLE}"
    "b_vtable b \<in> {PROMOTABLE_EVEN_VTABLE, PROMOTABLE_ODD_VTABLE} \<longrightarrow> b_arc h' (b\<lparr>b_data := d\<rparr>)"
    using bytes_clone_ok [OF E b] unfolding cloned_def by blast
  have "b_view h' b = b_view h b" by (rule view_kept [OF b_okD(1) [OF b] c(4)])
  then show ?thesis
    using c view_parts [OF c(5,6), of h'] view_parts [of "b\<lparr>b_data := d\<rparr>" b h'] by (intro that(2) [OF c(1)]) auto
qed (use that(1) in simp)

lemma bytes_slice_ok:
  assumes E: "good_build E" and b: "b_ok h b"
    and r: "range_begin sb = Ok lo" "range_end (b_len b) eb = Ok hi" "lo \<le> hi" "hi \<le> b_len b"
  shows "divides h b (take (hi - lo) (drop lo (b_view h b))) (b_view h b) (bytes_slice E b sb eb h)"
proof (cases "hi = lo")
  case True
  then show ?thesis
    using r b b_ok_new [of h] by (auto simp: divides_def bytes_slice_def)
next
  case False
  show ?thesis
    using E b
  proof (cases rule: bytes_cloneE)
    case 1
    then show ?thesis using r False by (simp add: divides_def bytes_slice_def)
  next
    case (2 c d h')
    let ?c = "c\<lparr>b_len := hi - lo, b_ptr := ptr_add (b_ptr c) lo\<rparr>"
    have "b_ok h' ?c" using r 2(6,7) by (intro b_ok_sub [OF 2(2)]) auto
    moreover have "b_view h' ?c = take (hi - lo) (drop lo (b_view h b))"
      using view_sub [OF b_okD(1) [OF 2(2)], of lo "hi - lo" ?c] r 2(6,9) by simp
    ultimately show ?thesis using r False 2 by (simp add: divides_def bytes_slice_def)
  qed
qed

lemma bytes_split_to_ok:
  assumes E: "good_build E" and b: "b_ok h b" and at: "at \<le> b_len b"
  shows "divides h b (take at (b_view h b)) (drop at (b_view h b)) (bytes_split_to E b at h)"
proof -
  have len: "length (b_view h b) = b_len b" by (rule view_length [OF b_okD(1) [OF b]])
  consider (all) "at = b_len b" | (none) "at \<noteq> b_len b" "at = 0" | (part) "at < b_len b" "0 < at"
    using at by linarith
  then show ?thesis
  proof cases
    case all
    obtain e where "new_empty_with_ptr E (wrapping_add (b_ptr b) (b_len b)) h = Ok (e, h)" "b_ok h e" "b_view h e = []"
      by (rule end_empty_ok [OF b])
    then show ?thesis using all b len by (simp add: divides_def bytes_split_to_def)
  next
    case none
    obtain e where "new_empty_with_ptr E (b_ptr b) h = Ok (e, h)" "b_ok h e" "b_view h e = []"
      by (rule new_empty_ok [of "b_ptr b" E h]) (use b_okD [OF b] in auto)
    then show ?thesis using none b by (simp add: divides_def bytes_split_to_def)
  next
    case part
    show ?thesis
      using E b
    proof (cases rule: bytes_cloneE)
      case 1
      then show ?thesis using part by (simp add: divides_def bytes_split_to_def)
    next
      case (2 c d h')
      obtain b' where b': "inc_start E (b\<lparr>b_data := d\<rparr>) at h' = Ok (b', h')" "b_ok h' b'"
        "b_view h' b' = drop at (b_view h' (b\<lparr>b_data := d\<rparr>))"
        by (rule inc_start_ok [OF 2(3), of at E]) (use part in simp)
      have c: "b_ok h' (c\<lparr>b_len := at\<rparr>)" "b_view h' (c\<lparr>b_len := at\<rparr>) = take at (b_view h' c)"
        using b_ok_prefix [OF 2(2), of at] 2(6,7) part by simp_all
      show ?thesis using part 2(1,4,9,10) b' c by (simp add: divides_def bytes_split_to_def)
    qed
  qed
qed

lemma bytes_split_off_ok:
  assumes E: "good_build E" and b: "b_ok h b" and at: "at \<le> b_len b"
  shows "divides h b (drop at (b_view h b)) (take at (b_view h b)) (bytes_split_off E b at h)"
proof -
  have len: "length (b_view h b) = b_len b" by (rule view_length [OF b_okD(1) [OF b]])
  consider (all) "at = b_len b" | (none) "at \<noteq> b_len b" "at = 0" | (part) "at < b_len b" "0 < at"
    using at by linarith
  then show ?thesis
  proof cases
    case all
    obtain e where "new_empty_with_ptr E (wrapping_add (b_ptr b) (b_len b)) h = Ok (e, h)" "b_ok h e" "b_view h e = []"
      by (rule end_empty_ok [OF b])
    then show ?thesis using all b len by (simp add: divides_def bytes_split_off_def)
  next
    case none
    obtain e where "new_empty_with_ptr E (b_ptr b) h = Ok (e, h)" "b_ok h e" "b_view h e = []"
      by (rule new_empty_ok [of "b_ptr b" E h]) (use b_okD [OF b] in auto)
    then show ?thesis using none b by (simp add: divides_def bytes_split_off_def)
  next
    case part
    show ?thesis
      using E b
    proof (cases rule: bytes_cloneE)
      case 1
      then show ?thesis using part by (simp add: divides_def bytes_split_off_def)
    next
      case (2 c d h')
      obtain c' where c': "inc_start E c at h' = Ok (c', h')" "b_ok h' c'" "b_view h' c' = drop at (b_view h' c)"
        by (rule inc_start_ok [OF 2(2), of at E]) (use part 2(6) in simp)
      have s: "b_ok h' (b\<lparr>b_data := d, b_len := at\<rparr>)"
        "b_view h' (b\<lparr>b_data := d, b_len := at\<rparr>) = take at (b_view h' (b\<lparr>b_data := d\<rparr>))"
        using b_ok_prefix [OF 2(3), of at] 2(8) part by simp_all
      show ?thesis using part 2(1,4,9,10) c' s by (simp add: divides_def bytes_split_off_def)
    qed
  qed
qed

section \<open>Freezing and thawing\<close>

lemma bm_readable:
  assumes "bm_ok h m"
  shows "readable h (bm_ptr m) (bm_len m)" "0 < addr (bm_ptr m)" "addr (bm_ptr m) + bm_len m < 2 ^ 64"
proof -
  obtain v off where i: "bm_in h m v off" using assms by (rule bm_ok_in)
  have v: "vec_ok h v" "bm_ptr m = ptr_add (rv_ptr v) off" "off + bm_len m \<le> rv_cap v" using i by (auto simp: bm_in_def)
  show "0 < addr (bm_ptr m)" "addr (bm_ptr m) + bm_len m < 2 ^ 64"
    using vec_ok_bounds [OF v(1)] v(2,3) by (simp_all add: usize_max_def)
  have "bm_len m = 0 \<or> (\<exists>b. prov (bm_ptr m) = Some b \<and> b < fresh h)"
    using v(1) by (cases rule: vec_okE) (use v in auto)
  then show "readable h (bm_ptr m) (bm_len m)"
    using bm_as_slice_ok [OF assms] by (simp add: readable_def bm_as_slice_def)
qed

lemma same_bytes: "b_ptr b = bm_ptr m \<Longrightarrow> b_len b = bm_len m \<Longrightarrow> b_view h b = bm_view h m"
  by (simp add: b_view_def bytes_chunk_def bytes_as_slice_def bm_view_def bm_as_slice_def)

lemma or_one_even:
  assumes "even (addr p)" "addr p + 1 < 2 ^ 64"
  shows "ptr_map p (\<lambda>a. a OR KIND_VEC) = ptr_add p 1"
proof -
  have "addr p OR KIND_VEC = addr p + 1" using assms(1) by (simp add: KIND_VEC_def or_one_eq del: One_nat_def)
  then show ?thesis using assms(2) by (simp add: ptr_map_def Let_def wrapping_add_def ptr_add_def)
qed

lemma inc_start_eq:
  "off \<le> b_len b \<Longrightarrow> bytes_advance E b off h = Ok (b\<lparr>b_len := b_len b - off, b_ptr := ptr_add (b_ptr b) off\<rparr>, h)"
  by (simp add: bytes_advance_def inc_start_def usize_sub_def)

lemma b_ok_boxed:
  assumes "readable h (b_ptr b) (b_len b)" "0 < addr (b_ptr b)" "addr (b_ptr b) + b_len b < 2 ^ 64"
    "b_boxed h b buf off"
    "if even (addr buf) then b_vtable b = PROMOTABLE_EVEN_VTABLE \<and> b_data b = ptr_add buf 1
     else b_vtable b = PROMOTABLE_ODD_VTABLE \<and> b_data b = buf"
  shows "b_ok h b"
proof (cases "even (addr buf)")
  case True
  then have "\<exists>buf off. b_boxed h b buf off \<and> even (addr buf) \<and> b_data b = ptr_add buf 1"
    using assms(4,5) by auto
  then show ?thesis unfolding b_ok_def using True assms by simp
next
  case False
  then have "\<exists>buf off. b_boxed h b buf off \<and> odd (addr buf) \<and> b_data b = buf" using assms(4,5) by auto
  then show ?thesis unfolding b_ok_def using False assms by simp
qed

definition promoted :: "heap \<Rightarrow> bytes \<Rightarrow> bool" where
  "promoted h b \<longleftrightarrow> b_vtable b \<in> {PROMOTABLE_EVEN_VTABLE, PROMOTABLE_ODD_VTABLE} \<and> b_arc h b"

lemma odd_data:
  assumes "odd (addr (b_data b))" "b_vtable b \<in> {PROMOTABLE_EVEN_VTABLE, PROMOTABLE_ODD_VTABLE}"
  shows "bytes_is_unique b h = Ok (True, h)" "\<not> promoted h b"
  using assms odd_kind [OF assms(1)]
  by (auto simp: bytes_is_unique_def promotable_is_unique_def promoted_def b_arc_def arc_at_def)

lemma freeze_ok:
  assumes E: "good_build E" and m: "bm_ok h m"
  obtains b h' where "freeze E m h = Ok (b, h')" "b_ok h' b" "b_view h' b = bm_view h m" "same_except {} h h'"
    "b_len b = bm_len m" "bm_len m \<noteq> 0 \<Longrightarrow> b_ptr b = bm_ptr m"
    "sole h m \<Longrightarrow> bm_len m \<noteq> 0 \<Longrightarrow> bytes_is_unique b h' = Ok (True, h') \<and> \<not> promoted h' b"
  using m
proof (cases rule: bm_okE)
  case (2 v off r n)
  let ?b = "with_vtable (bm_ptr m) (bm_len m) (bm_data m) SHARED_V_VTABLE"
  have "b_ok h ?b"
    using bm_readable [OF m] 2
    by (intro b_ok_frozen [of _ _ v r n off]) (auto simp: with_vtable_def bm_arc_def bm_in_def)
  moreover have "bytes_is_unique ?b h = Ok (True, h) \<and> \<not> promoted h ?b" if "sole h m"
  proof -
    have "shared_at h (bm_data m) v r n" using 2 by (simp add: bm_arc_def)
    then have "get_shared (bm_data m) h = Ok ((v, r, 1), h)" using get_shared_ok that unfolding sole_def by blast
    then show ?thesis by (simp add: bytes_is_unique_def shared_v_is_unique_def with_vtable_def promoted_def)
  qed
  ultimately show ?thesis
    using same_bytes [of ?b m h] kind_arc [OF 2] by (intro that [of ?b h]) (simp_all add: freeze_def with_vtable_def)
next
  case (1 v off r)
  have v: "vec_ok h v" "bm_ptr m = ptr_add (rv_ptr v) off" "rv_len v = off + bm_len m" "rv_cap v = off + bm_cap m"
    using 1 by (auto simp: bm_vec_def bm_in_def)
  note bd = vec_ok_bounds [OF v(1)]
  have fz: "freeze E m h = obind (bytes_from_vec E v h) (\<lambda>(b, h'). bytes_advance E b off h')"
    using kind_vec [OF 1] by (simp add: freeze_def get_vec_pos_ok [OF 1] rebuild_vec_ok [OF 1])
  show ?thesis
  proof (cases "rv_len v = rv_cap v")
    case full: True
    show ?thesis
    proof (cases "rv_cap v = 0")
      case True
      then have "freeze E m h = Ok (bytes_new, h)"
        using v full
        by (simp add: fz bytes_from_vec_def bytes_from_box_def inc_start_eq bytes_new_def bytes_from_static_def)
      then show ?thesis
        using True v full length_bm_view [OF m] b_ok_new [of h]
        by (intro that [of bytes_new h]) (auto simp: bytes_new_def bytes_from_static_def)
    next
      case False
      let ?d = "if even (addr (rv_ptr v)) then ptr_add (rv_ptr v) 1 else rv_ptr v"
      let ?vt = "if even (addr (rv_ptr v)) then PROMOTABLE_EVEN_VTABLE else PROMOTABLE_ODD_VTABLE"
      let ?b = "\<lparr>b_ptr = bm_ptr m, b_len = bm_len m, b_data = ?d, b_vtable = ?vt\<rparr>"
      have "addr (rv_ptr v) + 1 < 2 ^ 64" using bd(2) False by (simp add: usize_max_def)
      then have "bytes_from_box (rv_ptr v) (rv_len v)
          = \<lparr>b_ptr = rv_ptr v, b_len = rv_len v, b_data = ?d, b_vtable = ?vt\<rparr>"
        using False full or_one_even [of "rv_ptr v"] by (simp add: bytes_from_box_def and_one_eq even_iff_mod_2_eq_zero)
      then have "freeze E m h = Ok (?b, h)" using full v by (simp add: fz bytes_from_vec_def inc_start_eq Let_def)
      moreover have "vec_ok h \<lparr>rv_ptr = rv_ptr v, rv_len = off + bm_len m, rv_cap = off + bm_len m\<rparr>"
        using v(1,3,4) full by (cases v) simp
      then have "b_boxed h ?b (rv_ptr v) off" using v False full by (simp add: b_boxed_def)
      then have "b_ok h ?b" by (rule b_ok_boxed [rotated 3]) (use bm_readable [OF m] in simp_all)
      moreover have "bytes_is_unique ?b h = Ok (True, h) \<and> \<not> promoted h ?b"
        using odd_data [of ?b h] by simp
      ultimately show ?thesis using same_bytes [of ?b m h] by (intro that [of ?b h]) simp_all
    qed
  next
    case False
    have "vec_ok h \<lparr>rv_ptr = rv_ptr v, rv_len = rv_len v, rv_cap = rv_cap v\<rparr>" using v(1) by (cases v) simp
    then obtain p h' where p: "new_block E 24 8 (\<lambda>base. ArcShared base (rv_ptr v) (rv_cap v) 1) h = Ok (p, h')"
      "arc_at h' p (rv_ptr v) (rv_cap v) 1" "same_except {} h h'" "0 = addr p AND KIND_MASK"
      by (rule new_arc_ok [OF E, where n = 1]) (use False bd(4) in simp_all)
    let ?b = "\<lparr>b_ptr = bm_ptr m, b_len = bm_len m, b_data = p, b_vtable = SHARED_VTABLE\<rparr>"
    have "freeze E m h = Ok (?b, h')" using False p(1,4) v by (simp add: fz bytes_from_vec_def inc_start_eq Let_def)
    moreover have "b_arc h' ?b"
      unfolding b_arc_def using p(2) v bd by (intro exI [of _ "rv_ptr v"] exI [of _ "rv_cap v"] exI [of _ 1] exI [of _ off]) simp
    then have "b_ok h' ?b"
      using bm_readable [OF m] readable_kept [OF bm_readable(1) [OF m] bytes_kept_same [OF p(3)]] by (simp add: b_ok_def)
    moreover have "b_view h' ?b = bm_view h m"
      using same_bytes [of ?b m h] view_kept [of h ?b h'] bm_readable(1) [OF m] bytes_kept_same [OF p(3)] by simp
    moreover have "bytes_is_unique ?b h' = Ok (True, h') \<and> \<not> promoted h' ?b"
      by (simp add: bytes_is_unique_def shared_is_unique_def arc_at_get [OF p(2)] promoted_def)
    ultimately show ?thesis using p(3) by (intro that [of ?b h']) simp_all
  qed
qed

lemma readable_vec:
  assumes "vec_ok h v" "off + n \<le> rv_cap v" "readable h (ptr_add (rv_ptr v) off) n"
  shows "None \<notin> set (take n (drop off (vcells h v)))"
  using assms(3) get_cells_vec [OF assms(1,2)] by (auto simp: readable_def elim!: read_sliceE)

text \<open>A vector becomes a handle that starts at \<open>off\<close>.\<close>

lemma from_vec_advance_ok:
  assumes v: "vec_ok h v" "rv_len v = off + n" "None \<notin> set (take n (drop off (vcells h v)))" "off \<le> MAX_VEC_POS"
  obtains m where "bind (lift (bm_from_vec E v)) (\<lambda>b. advance_unchecked E b off) h = Ok (m, h)" "bm_ok h m"
    "bm_ptr m = ptr_add (rv_ptr v) off" "bm_len m = n" "bm_cap m = rv_cap v - off"
proof -
  let ?r = "original_capacity_to_repr (rv_cap v)"
  let ?m = "\<lparr>bm_ptr = rv_ptr v, bm_len = rv_len v, bm_cap = rv_cap v, bm_data = without_provenance (vec_tag 0 ?r)\<rparr>"
  let ?n = "advanced (?m\<lparr>bm_data := without_provenance (vec_tag off ?r)\<rparr>) off"
  note bd = vec_ok_bounds [OF v(1)]
  have "bm_from_vec E v = Ok ?m"
    using vptr_vec(2) [OF v(1)] tag_make [OF repr_le] by (simp add: bm_from_vec_def Let_def invalid_ptr_def)
  moreover have "advance_unchecked E ?m off h = Ok (?n, h)"
  proof (cases "off = 0")
    case False
    have k: "kind ?m = KIND_VEC" by (simp add: kind_def tag_kind without_provenance_def)
    have p: "get_vec_pos E ?m h = Ok (0, h)"
      using k tag_pos [OF repr_le, of 0] by (simp add: get_vec_pos_def without_provenance_def)
    have s: "set_vec_pos E ?m off h = Ok (?m\<lparr>bm_data := without_provenance (vec_tag off ?r)\<rparr>, h)"
      by (rule set_vec_pos_ok [of ?m 0]) (simp_all add: repr_le v(4))
    have c: "off \<le> rv_cap v" using v(2) bd(4) by simp
    show ?thesis
      using False c k p s v(2,4) vptr_vec(1) [OF v(1)]
      by (simp add: advance_unchecked_def advanced_def checked_sub_def)
  qed (simp add: advance_unchecked_def)
  moreover have "bm_ok h ?n"
    using v bd by (intro bm_in_tag [of h _ v off ?r]) (auto simp: bm_in_def repr_le)
  ultimately show thesis using v(2) by (intro that [of ?n]) simp_all
qed

lemma from_raw_parts_at:
  "vec_ok h \<lparr>rv_ptr = buf, rv_len = l, rv_cap = cap\<rparr> \<Longrightarrow> l' \<le> cap \<Longrightarrow>
   rv_from_raw_parts buf l' cap h = Ok (\<lparr>rv_ptr = buf, rv_len = l', rv_cap = cap\<rparr>, h)"
  using vec_ok_len [of h "\<lparr>rv_ptr = buf, rv_len = l, rv_cap = cap\<rparr>" l'] by (intro rv_from_raw_parts_ok) simp

lemma thaw_boxed:
  assumes E: "\<not> debug E" and b: "b_ok h b" "b_boxed h b buf off" "f (b_data b) = buf" "odd (addr (b_data b))"
    and o: "off \<le> MAX_VEC_POS"
  obtains m where "promotable_to_mut E (b_data b) (b_ptr b) (b_len b) f h = Ok (m, h)" "bm_ok h m"
    "bm_ptr m = b_ptr b" "bm_len m = b_len b"
proof -
  let ?v = "\<lparr>rv_ptr = buf, rv_len = off + b_len b, rv_cap = off + b_len b\<rparr>"
  have v: "vec_ok h ?v" "b_ptr b = ptr_add buf off" using b(2) by (simp_all add: b_boxed_def)
  note bd = vec_ok_bounds [OF v(1)]
  have c: "offset_from E (b_ptr b) buf = Ok off" "usize_add E off (b_len b) = Ok (off + b_len b)"
    using v(2) bd(2) by (simp_all add: offset_from_def usize_sub_def usize_add_def)
  have i: "None \<notin> set (take (b_len b) (drop off (vcells h ?v)))"
    using readable_vec [OF v(1), of off "b_len b"] b_okD(1) [OF b(1)] v(2) by simp
  obtain m where m: "bind (lift (bm_from_vec E ?v)) (\<lambda>x. advance_unchecked E x off) h = Ok (m, h)" "bm_ok h m"
    "bm_ptr m = ptr_add (rv_ptr ?v) off" "bm_len m = b_len b"
    by (rule from_vec_advance_ok [OF v(1) _ i o]) simp
  have "addr (b_data b) \<noteq> 0" using b(4) by (metis even_zero)
  then have "promotable_to_mut E (b_data b) (b_ptr b) (b_len b) f h = Ok (m, h)"
    using E b(3) c from_raw_parts_at [OF v(1)] m(1)
    by (simp add: promotable_to_mut_def Let_def KIND_MASK_def KIND_ARC_def debug_assert_def)
  then show thesis using m v(2) by (intro that [of m]) simp_all
qed

lemma thaw_shared:
  assumes b: "b_ok h b" "arc_at h (b_data b) buf cap 1" "b_ptr b = ptr_add buf off" "off + b_len b \<le> cap"
    and o: "off \<le> MAX_VEC_POS"
  obtains m h' where "shared_to_mut_impl E (b_data b) (b_ptr b) (b_len b) h = Ok (m, h')" "bm_ok h' m"
    "bm_ptr m = b_ptr b" "bm_len m = b_len b" "bytes_kept h h'"
proof -
  obtain s where s: "prov (b_data b) = Some s" "s < fresh h" "blocks h s = Some (ArcShared (addr (b_data b)) buf cap 1)"
    using b(2) by (auto simp: arc_at_def)
  let ?h = "h\<lparr>blocks := (blocks h)(s := None)\<rparr>" and ?v = "\<lparr>rv_ptr = buf, rv_len = off + b_len b, rv_cap = cap\<rparr>"
  have v0: "vec_ok h \<lparr>rv_ptr = buf, rv_len = 0, rv_cap = cap\<rparr>" using b(2) by (simp add: arc_at_def)
  have v: "vec_ok h ?v" using vec_ok_len [OF v0, of "off + b_len b"] b(4) by simp
  have fr: "same_except {s} h ?h" by (simp add: same_except_def)
  have "vset ?v \<inter> {s} = {}" using v by (cases rule: vec_okE) (use s in auto)
  note v' = vec_ok_frame [OF v fr this]
  note bd = vec_ok_bounds [OF v]
  have c: "offset_from E (b_ptr b) buf = Ok off" "usize_add E (b_len b) off = Ok (off + b_len b)"
    using b(3,4) bd(2) by (simp_all add: offset_from_def usize_sub_def usize_add_def)
  have "None \<notin> set (take (b_len b) (drop off (vcells h ?v)))"
    using readable_vec [OF v, of off "b_len b"] b_okD(1) [OF b(1)] b(3,4) by simp
  then have i: "None \<notin> set (take (b_len b) (drop off (vcells ?h ?v)))" unfolding v'(2) .
  obtain m where m: "bind (lift (bm_from_vec E ?v)) (\<lambda>x. advance_unchecked E x off) ?h = Ok (m, ?h)" "bm_ok ?h m"
    "bm_ptr m = ptr_add (rv_ptr ?v) off" "bm_len m = b_len b"
    by (rule from_vec_advance_ok [OF v'(1) _ i o]) simp
  have "shared_to_mut_impl E (b_data b) (b_ptr b) (b_len b) h = Ok (m, ?h)"
    using arc_at_get [OF b(2)] s(1) c from_raw_parts_at [OF v'(1)] b(4) m(1)
    by (simp add: shared_to_mut_impl_def free_block_def)
  moreover have "bytes_kept h ?h" using s by (auto simp: bytes_kept_def)
  ultimately show thesis using m(2-4) b(3) by (intro that [of m ?h]) simp_all
qed

lemma thaw_frozen:
  assumes b: "b_ok h b" "b_vtable b = SHARED_V_VTABLE" "shared_v_is_unique (b_data b) h = Ok (True, h)"
  obtains m where "shared_v_to_mut E (b_data b) (b_ptr b) (b_len b) h = Ok (m, h)" "bm_ok h m"
    "bm_ptr m = b_ptr b" "bm_len m = b_len b"
proof -
  obtain v r n off where s: "shared_at h (b_data b) v r n" "vec_ok h v" "b_ptr b = ptr_add (rv_ptr v) off"
    "off + b_len b \<le> rv_cap v" using b(1,2) by (auto simp: b_ok_def)
  have n: "n = 1" using b(3) by (simp add: shared_v_is_unique_def get_shared_ok [OF s(1)])
  let ?m = "\<lparr>bm_ptr = b_ptr b, bm_len = b_len b, bm_cap = rv_cap v - off, bm_data = b_data b\<rparr>"
  have "None \<notin> set (take (b_len b) (drop off (vcells h v)))"
    using readable_vec [OF s(2), of off "b_len b"] b_okD(1) [OF b(1)] s(3,4) by simp
  then have "bm_arc h ?m v off r n" using s by (simp add: bm_arc_def bm_in_def)
  moreover have "shared_v_to_mut E (b_data b) (b_ptr b) (b_len b) h = Ok (?m, h)"
    using s n vptr_vec(1) [OF s(2), of E off]
    by (simp add: shared_v_to_mut_def shared_unique_def get_shared_ok [OF s(1)] offset_from_def usize_sub_def)
  ultimately show thesis by (intro that [of ?m]) (simp_all add: bm_arc_ok)
qed

lemma thaw_ok:
  assumes E: "\<not> debug E" and b: "b_ok h b" "bytes_is_unique b h = Ok (True, h)" "\<not> promoted h b"
    and low: "addr (b_ptr b) \<le> MAX_VEC_POS"
  obtains m h' where "bytes_try_into_mut E b h = Ok (Inr m, h')" "bm_ok h' m" "bm_view h' m = b_view h b"
proof -
  have view: "bm_view h' m = b_view h b" if "bytes_kept h h'" "bm_ptr m = b_ptr b" "bm_len m = b_len b" for m h'
    using same_bytes [of b m h'] that view_kept [OF b_okD(1) [OF b(1)] that(1)] by simp
  have small: "off \<le> MAX_VEC_POS" if "b_ptr b = ptr_add buf off" for buf off using low that by simp
  have "\<exists>m h'. mut_of_bytes E b h = Ok (m, h') \<and> bm_ok h' m \<and> bm_ptr m = b_ptr b \<and> bm_len m = b_len b \<and> bytes_kept h h'"
  proof (cases "b_vtable b")
    case PROMOTABLE_EVEN_VTABLE
    then obtain buf off where x: "b_boxed h b buf off" "even (addr buf)" "b_data b = ptr_add buf 1"
      using b(1,3) by (auto simp: b_ok_def promoted_def)
    have "addr buf < 2 ^ 64" using b_okD(3) [OF b(1)] x(1) by (simp add: b_boxed_def)
    then have f: "even_buf (b_data b) = buf" using even_buf_tag [OF x(2)] x(3) by simp
    have "odd (addr (b_data b))" "off \<le> MAX_VEC_POS" using x small by (simp_all add: b_boxed_def)
    then obtain m where "promotable_to_mut E (b_data b) (b_ptr b) (b_len b) even_buf h = Ok (m, h)" "bm_ok h m"
      "bm_ptr m = b_ptr b" "bm_len m = b_len b"
      by (rule thaw_boxed [OF E b(1) x(1), of even_buf, OF f])
    then show ?thesis using PROMOTABLE_EVEN_VTABLE by (simp add: mut_of_bytes_def)
  next
    case PROMOTABLE_ODD_VTABLE
    then obtain buf off where x: "b_boxed h b buf off" "odd (addr buf)" "b_data b = buf"
      using b(1,3) by (auto simp: b_ok_def promoted_def)
    have f: "odd_buf (b_data b) = buf" "odd (addr (b_data b))" "off \<le> MAX_VEC_POS"
      using x small by (simp_all add: odd_buf_def b_boxed_def)
    then obtain m where "promotable_to_mut E (b_data b) (b_ptr b) (b_len b) odd_buf h = Ok (m, h)" "bm_ok h m"
      "bm_ptr m = b_ptr b" "bm_len m = b_len b"
      by (rule thaw_boxed [OF E b(1) x(1), of odd_buf])
    then show ?thesis using PROMOTABLE_ODD_VTABLE by (simp add: mut_of_bytes_def)
  next
    case SHARED_VTABLE
    then obtain buf cap n off where a: "arc_at h (b_data b) buf cap n" "b_ptr b = ptr_add buf off" "off + b_len b \<le> cap"
      using b(1) by (auto simp: b_ok_def b_arc_def)
    have "n = 1" using b(2) SHARED_VTABLE by (simp add: bytes_is_unique_def shared_is_unique_def arc_at_get [OF a(1)])
    with a have a1: "arc_at h (b_data b) buf cap 1" by simp
    obtain m h' where "shared_to_mut_impl E (b_data b) (b_ptr b) (b_len b) h = Ok (m, h')" "bm_ok h' m"
      "bm_ptr m = b_ptr b" "bm_len m = b_len b" "bytes_kept h h'"
      by (rule thaw_shared [OF b(1) a1 a(2,3) small [OF a(2)], of E])
    then show ?thesis using SHARED_VTABLE by (auto simp: mut_of_bytes_def)
  next
    case SHARED_V_VTABLE
    with b(2) have "shared_v_is_unique (b_data b) h = Ok (True, h)" by (simp add: bytes_is_unique_def)
    then obtain m where "shared_v_to_mut E (b_data b) (b_ptr b) (b_len b) h = Ok (m, h)" "bm_ok h m"
      "bm_ptr m = b_ptr b" "bm_len m = b_len b"
      by (rule thaw_frozen [OF b(1) SHARED_V_VTABLE, of E])
    then show ?thesis using SHARED_V_VTABLE by (auto simp: mut_of_bytes_def)
  qed (use b(2) in \<open>simp_all add: bytes_is_unique_def\<close>)
  then obtain m h' where m: "mut_of_bytes E b h = Ok (m, h')" "bm_ok h' m" "bm_ptr m = b_ptr b" "bm_len m = b_len b"
    "bytes_kept h h'" by blast
  then show thesis using b(2) view [OF m(5,3,4)] by (intro that [of m h']) (simp_all add: bytes_try_into_mut_def)
qed

end
