(* ===== verification/Bytes_Copy.thy ===== *)
theory Bytes_Copy
  imports Bytes_Contract Bytes_Mut_World Read_Adapters
begin

text \<open>
  Taking bytes out of a buffer into a new \<open>Bytes\<close>: \<open>copy_to_bytes\<close> as \<open>Buf\<close> provides it and as \<open>Take\<close> and
  \<open>Chain\<close> and \<open>BytesMut\<close> override it. The contract \<open>copies_out\<close> says what a caller may rely on; it holds of the provided
  method for every buffer, and both adapters hand it on from the buffers inside.
\<close>

section \<open>Filling a new handle\<close>

lemma with_capacity_ok:
  assumes E: "good_build E" and n: "n \<le> isize_max"
  obtains m h' where "bm_with_capacity E n h = Ok (m, h')" "bm_ok h' m" "bm_view h' m = []" "bm_len m = 0"
    "same_except {} h h'" "footprint m \<subseteq> {x. fresh h \<le> x}"
proof -
  obtain v h' where v: "rv_with_capacity E n h = Ok (v, h')" "vec_ok h' v" "rv_cap v = n" "rv_len v = 0"
    "same_except {} h h'" "vset v \<inter> {x. x < fresh h} = {}"
    by (rule rv_with_capacity_ok [OF E n])
  let ?r = "original_capacity_to_repr n"
  let ?m = "\<lparr>bm_ptr = rv_ptr v, bm_len = 0, bm_cap = n, bm_data = without_provenance (vec_tag 0 ?r)\<rparr>"
  have "bm_from_vec E v = Ok ?m"
    using v(3,4) vptr_vec(2) [OF v(2)] tag_make [OF repr_le] by (simp add: bm_from_vec_def Let_def invalid_ptr_def)
  moreover have ok: "bm_ok h' ?m"
    using v by (intro bm_in_tag [of h' _ v 0 ?r]) (auto simp: bm_in_def repr_le)
  moreover have "bm_view h' ?m = []" using length_bm_view [OF ok] by simp
  moreover have "footprint ?m \<subseteq> {x. fresh h \<le> x}"
    using v(6) by (auto simp: footprint_def without_provenance_def not_less [symmetric])
  ultimately show thesis using v(1,5) by (intro that [of ?m h']) (simp_all add: bm_with_capacity_def)
qed

lemma put_ok:
  assumes E: "good_build E" and S: "buf_contract S I V"
    and "I s" "bm_ok h m" "length (V s) \<le> bm_room m"
  obtains s' m' h' where "bm_put E S m s h = Ok ((s', m'), h')" "I s'" "V s' = []" "bm_ok h' m'"
    "bm_view h' m' = bm_view h m @ V s" "same_except (footprint m) h h'"
    "footprint m' \<subseteq> footprint m \<union> {x. fresh h \<le> x}" "bm_room m' = bm_room m - length (V s)"
proof -
  let ?b = "\<lambda>(src, self :: bytes_mut, h :: heap). has_remaining S src"
  let ?c = "\<lambda>(src, self, h). let x = chunk S src; l = length x in
      obind (bm_extend_from_slice E self x h) (\<lambda>(self', h').
      obind (advance S src l) (\<lambda>src'. Ok (src', self', h')))"
  let ?I = "\<lambda>(src, m1, h1). I src \<and> bm_ok h1 m1 \<and> bm_view h1 m1 @ V src = bm_view h m @ V s
      \<and> same_except (footprint m) h h1 \<and> footprint m1 \<subseteq> footprint m \<union> {x. fresh h \<le> x}
      \<and> length (V src) \<le> bm_room m1 \<and> bm_room m1 - length (V src) = bm_room m - length (V s)"
  have "\<exists>t. loop ?b ?c (s, m, h) = Ok t \<and> ?I t \<and> \<not> ?b t"
  proof (rule loop_rule [where m = "\<lambda>(src, _). length (V src)"], goal_cases)
    case 1
    show ?case using assms by simp
  next
    case (2 t)
    obtain src m1 h1 where t: "t = (src, m1, h1)" by (cases t)
    let ?x = "chunk S src"
    have i: "I src" "bm_ok h1 m1" "bm_view h1 m1 @ V src = bm_view h m @ V s" "same_except (footprint m) h h1"
      "footprint m1 \<subseteq> footprint m \<union> {x. fresh h \<le> x}" "length (V src) \<le> bm_room m1"
      "bm_room m1 - length (V src) = bm_room m - length (V s)" and ne: "V src \<noteq> []"
      using 2 buf_contract.has_remaining_iff [OF S] by (auto simp: t)
    have pre: "prefix ?x (V src)" by (rule buf_contract.chunk_prefix [OF S i(1)])
    have x: "?x \<noteq> []" by (rule buf_contract.chunk_nonempty [OF S i(1) ne])
    have le: "length ?x \<le> length (V src)" by (rule prefix_length_le [OF pre])
    then have room: "length ?x \<le> bm_room m1" using i(6) by simp
    obtain m2 h2 where w: "bm_extend_from_slice E m1 ?x h1 = Ok (m2, h2)" "bm_ok h2 m2"
      "bm_view h2 m2 = bm_view h1 m1 @ ?x" "same_except (footprint m1) h1 h2"
      "footprint m2 \<subseteq> footprint m1 \<union> {x. fresh h1 \<le> x}" "bm_room m2 = bm_room m1 - length ?x"
      by (rule extend_from_slice_ok [OF E i(2) room])
    obtain src2 where a: "advance S src (length ?x) = Ok src2" "I src2" "V src2 = drop (length ?x) (V src)"
      using buf_contract.advance_ok [OF S i(1) le] by blast
    have "?x @ V src2 = V src" using pre a(3) by (auto elim: prefixE)
    then have "bm_view h2 m2 @ V src2 = bm_view h m @ V s" using w(3) i(3) by simp
    moreover have "same_except (footprint m) h h2" by (rule same_except_within [OF i(4) w(4) i(5)])
    moreover have "footprint m2 \<subseteq> footprint m \<union> {x. fresh h \<le> x}"
      using w(5) i(5) same_except_fresh [OF i(4)] by fastforce
    moreover have "length (V src2) < length (V src)" using a(3) x ne by simp
    ultimately show ?case using w a le i(6,7) by (simp add: t Let_def)
  qed
  then obtain s' m' h' where r: "loop ?b ?c (s, m, h) = Ok (s', m', h')" "?I (s', m', h')" "\<not> ?b (s', m', h')"
    by auto
  have "V s' = []" using r(2,3) buf_contract.has_remaining_iff [OF S] by auto
  then show thesis using r(1,2) by (intro that [of s' m' h']) (simp_all add: bm_put_def)
qed

section \<open>The contract\<close>

text \<open>The new handle shows \<open>bs\<close>, the buffer goes on as \<open>vs\<close>, and no block there was has changed.\<close>

definition copied :: "('s \<Rightarrow> bool) \<Rightarrow> ('s \<Rightarrow> u8 list) \<Rightarrow> heap \<Rightarrow> u8 list \<Rightarrow> u8 list \<Rightarrow> ((bytes \<times> 's) \<times> heap) outcome \<Rightarrow> bool" where
  "copied I V h bs vs res \<longleftrightarrow> (\<exists>b s h'. res = Ok ((b, s), h') \<and> b_ok h' b \<and> b_view h' b = bs \<and> I s \<and> V s = vs
     \<and> same_except {} h h')"

lemma copiedE:
  assumes "copied I V h bs vs res"
  obtains b s h' where "res = Ok ((b, s), h')" "b_ok h' b" "b_view h' b = bs" "I s" "V s = vs" "same_except {} h h'"
  using assms by (auto simp: copied_def)

abbreviation copy_max :: nat where
  "copy_max \<equiv> isize_max div 4 - 64"

locale copies_out = src: buf_contract B I V for B :: "'s buf_ops" and I V +
  fixes copy :: "build \<Rightarrow> 's \<Rightarrow> usize \<Rightarrow> (bytes \<times> 's) act"
  assumes copy_ok: "good_build E \<Longrightarrow> I s \<Longrightarrow> n \<le> length (V s) \<Longrightarrow> n \<le> copy_max \<Longrightarrow>
      copied I V h (take n (V s)) (drop n (V s)) (copy E s n h)"
    and copy_panics: "I s \<Longrightarrow> length (V s) < n \<Longrightarrow> panics (copy E s n h)"

lemma freeze_filled:
  assumes E: "good_build E" and "bm_ok h' m" "same_except {} h h'"
  obtains b h'' where "freeze E m h' = Ok (b, h'')" "b_ok h'' b" "b_view h'' b = bm_view h' m" "same_except {} h h''"
proof -
  obtain b h'' where "freeze E m h' = Ok (b, h'')" "b_ok h'' b" "b_view h'' b = bm_view h' m" "same_except {} h' h''"
    by (rule freeze_ok [OF E assms(2)])
  then show thesis using that same_except_trans [OF assms(3), of "{}" h''] by simp
qed

context take_contract
begin

text \<open>The first \<open>n\<close> bytes, through \<open>Take\<close>.\<close>

lemma take_exact:
  "buf_contract (take_buf B)
     (\<lambda>t. I (take_inner t) \<and> take_limit t \<le> length (V (take_inner t)) \<and> drop (take_limit t) (V (take_inner t)) = vs)
     (take_view V)"
  unfolding take_buf_def
proof (rule buf_required_contract.defaults_contract, unfold_locales, goal_cases)
  case (4 t n)
  then have le: "n \<le> take_limit t" "n \<le> length (V (take_inner t))" by (simp_all add: take_view_def)
  obtain t' where "take_advance B t n = Ok t'" "I (take_inner t')" "V (take_inner t') = drop n (V (take_inner t))"
    "take_limit t' = take_limit t - n"
    by (rule take_advance_ok [OF _ le]) (use 4 in simp)
  then show ?case using 4 le by (simp add: take_required_def take_view_def drop_take diff_le_mono)
qed (simp_all add: take_invar_def limited.req_remaining_view limited.req_chunk_prefix
    limited.req_chunk_nonempty limited.req_advance_panics)

lemma put_taken:
  assumes E: "good_build E" and s: "I s" "n \<le> length (V s)" and m: "bm_ok h m" "n \<le> bm_room m"
  obtains t m' h' where "bm_put E (take_buf B) m (take_new s n) h = Ok ((t, m'), h')" "I (take_inner t)"
    "V (take_inner t) = drop n (V s)" "bm_ok h' m'" "bm_view h' m' = bm_view h m @ take n (V s)"
    "same_except (footprint m) h h'"
proof -
  have v: "take_view V (take_new s n) = take n (V s)" by (simp add: take_view_def take_new_def)
  obtain t m' h' where p: "bm_put E (take_buf B) m (take_new s n) h = Ok ((t, m'), h')"
    "I (take_inner t) \<and> take_limit t \<le> length (V (take_inner t)) \<and> drop (take_limit t) (V (take_inner t)) = drop n (V s)"
    "take_view V t = []" "bm_ok h' m'" "bm_view h' m' = bm_view h m @ take_view V (take_new s n)"
    "same_except (footprint m) h h'"
    by (rule put_ok [OF E take_exact [of "drop n (V s)"], of "take_new s n"]) (use s m v in \<open>simp_all add: take_new_def\<close>)
  have "take_limit t = 0" using p(2,3) by (auto simp: take_view_def)
  then show thesis using p v by (intro that [of t m' h']) simp_all
qed

end

section \<open>The provided method\<close>

lemma default_copies_out:
  assumes B: "buf_contract B I V"
  shows "copies_out B I V (\<lambda>E. copy_to_bytes_default E B)"
proof (intro copies_out.intro copies_out_axioms.intro B, goal_cases)
  case (1 E s n h)
  have n: "n \<le> isize_max" using 1(4) by simp
  obtain m h1 where m: "bm_with_capacity E n h = Ok (m, h1)" "bm_ok h1 m" "bm_view h1 m = []" "bm_len m = 0"
    "same_except {} h h1" "footprint m \<subseteq> {x. fresh h \<le> x}"
    by (rule with_capacity_ok [OF 1(1) n])
  have room: "n \<le> bm_room m" using 1(4) m(4) by (simp add: bm_room_def)
  obtain t m2 h2 where p: "bm_put E (take_buf B) m (take_new s n) h1 = Ok ((t, m2), h2)" "I (take_inner t)"
    "V (take_inner t) = drop n (V s)" "bm_ok h2 m2" "bm_view h2 m2 = bm_view h1 m @ take n (V s)"
    "same_except (footprint m) h1 h2"
    by (rule take_contract.put_taken [OF take_contract.intro [OF B] 1(1-3) m(2) room])
  have f: "same_except {} h h2" by (rule same_except_within [OF m(5) p(6)]) (use m(6) in simp)
  obtain b h3 where "freeze E m2 h2 = Ok (b, h3)" "b_ok h3 b" "b_view h3 b = bm_view h2 m2" "same_except {} h h3"
    by (rule freeze_filled [OF 1(1) p(4) f])
  then show ?case
    using 1(3) m p buf_contract.remaining_view [OF B 1(2)] by (simp add: copied_def copy_to_bytes_default_def)
next
  case (2 s n E h)
  then show ?case using buf_contract.remaining_view [OF B] by (simp add: copy_to_bytes_default_def)
qed

section \<open>Take\<close>

context copies_out
begin

lemma take_copies_out: "copies_out (take_buf B) (take_invar I) (take_view V) (\<lambda>E. take_copy_to_bytes B (copy E))"
proof (intro copies_out.intro copies_out_axioms.intro, goal_cases)
  case 1
  show ?case by (rule take_contract.take_meets(2)) (unfold_locales)
next
  case (2 E t n h)
  then have i: "I (take_inner t)" and le: "n \<le> take_limit t" "n \<le> length (V (take_inner t))"
    by (simp_all add: take_invar_def take_view_def)
  obtain b s h' where "copy E (take_inner t) n h = Ok ((b, s), h')" "b_ok h' b" "b_view h' b = take n (V (take_inner t))"
    "I s" "V s = drop n (V (take_inner t))" "same_except {} h h'"
    by (rule copiedE [OF copy_ok [OF 2(1) i le(2) 2(4)]])
  then show ?case
    using le src.remaining_view [OF i]
    by (simp add: copied_def take_copy_to_bytes_def take_remaining_def take_invar_def take_view_def drop_take min_absorb1)
next
  case (3 t n E h)
  then have "\<not> n \<le> take_remaining B t"
    using src.remaining_view [of "take_inner t"] by (auto simp: take_remaining_def take_invar_def take_view_def)
  then show ?case by (simp add: take_copy_to_bytes_def)
qed

end

section \<open>Chain\<close>

text \<open>Bytes of both buffers: all of the first, then the start of the second, in one new handle.\<close>

lemma chain_copy_across:
  assumes E: "good_build E" and A: "buf_contract A IA VA" and B: "buf_contract B IB VB"
    and c: "IA (chain_a c)" "IB (chain_b c)" "VA (chain_a c) \<noteq> []" "length (VA (chain_a c)) < n"
      "n \<le> length (VA (chain_a c)) + length (VB (chain_b c))" "n \<le> copy_max"
  obtains b c' h' where "chain_copy_to_bytes E A B ca cb c n h = Ok ((b, c'), h')" "b_ok h' b"
    "b_view h' b = take n (chain_view VA VB c)" "IA (chain_a c')" "IB (chain_b c')"
    "VA (chain_a c') = []" "VB (chain_b c') = drop (n - length (VA (chain_a c))) (VB (chain_b c))" "same_except {} h h'"
proof -
  let ?k = "length (VA (chain_a c))"
  note rem = buf_contract.remaining_view [OF A c(1)] buf_contract.remaining_view [OF B c(2)]
  have n: "n \<le> isize_max" using c(6) by simp
  obtain m h1 where m: "bm_with_capacity E n h = Ok (m, h1)" "bm_ok h1 m" "bm_view h1 m = []" "bm_len m = 0"
    "same_except {} h h1" "footprint m \<subseteq> {x. fresh h \<le> x}"
    by (rule with_capacity_ok [OF E n])
  have room: "bm_room m = copy_max" using m(4) by (simp add: bm_room_def)
  have ra: "?k \<le> bm_room m" using c(4,6) room by simp
  obtain a m2 h2 where p: "bm_put E A m (chain_a c) h1 = Ok ((a, m2), h2)" "IA a" "VA a = []" "bm_ok h2 m2"
    "bm_view h2 m2 = bm_view h1 m @ VA (chain_a c)" "same_except (footprint m) h1 h2"
    "footprint m2 \<subseteq> footprint m \<union> {x. fresh h1 \<le> x}" "bm_room m2 = bm_room m - ?k"
    by (rule put_ok [OF E A c(1) m(2) ra])
  have rb: "n - ?k \<le> bm_room m2" "n - ?k \<le> length (VB (chain_b c))" using c(5,6) room p(8) by simp_all
  obtain t m3 h3 where q: "bm_put E (take_buf B) m2 (take_new (chain_b c) (n - ?k)) h2 = Ok ((t, m3), h3)"
    "IB (take_inner t)" "VB (take_inner t) = drop (n - ?k) (VB (chain_b c))" "bm_ok h3 m3"
    "bm_view h3 m3 = bm_view h2 m2 @ take (n - ?k) (VB (chain_b c))" "same_except (footprint m2) h2 h3"
    by (rule take_contract.put_taken [OF take_contract.intro [OF B] E c(2) rb(2) p(4) rb(1)])
  have f2: "same_except {} h h2" by (rule same_except_within [OF m(5) p(6)]) (use m(6) in simp)
  have "footprint m2 \<subseteq> {x. fresh h \<le> x}" using p(7) m(6) same_except_fresh [OF m(5)] by fastforce
  then have f3: "same_except {} h h3" by (intro same_except_within [OF f2 q(6)]) simp
  obtain b h4 where b: "freeze E m3 h3 = Ok (b, h4)" "b_ok h4 b" "b_view h4 b = bm_view h3 m3" "same_except {} h h4"
    by (rule freeze_filled [OF E q(4) f3])
  have v: "bm_view h3 m3 = take n (chain_view VA VB c)" using m(3) p(5) q(5) c(4) by (simp add: chain_view_def)
  have "chain_copy_to_bytes E A B ca cb c n h = Ok ((b, c\<lparr>chain_a := a, chain_b := take_inner t\<rparr>), h4)"
    using c(3,4) rb(2) m(1) p(1) q(1) b(1) by (simp add: chain_copy_to_bytes_def rem Let_def)
  then show thesis
    by (rule that) (use b v p(2,3) q(2,3) in simp_all)
qed

locale copies_chain =
  front: copies_out A IA VA ca + rear: copies_out B IB VB cb
  for A :: "'a buf_ops" and IA VA ca and B :: "'b buf_ops" and IB VB cb
begin

lemma chain_copies_ok:
  assumes E: "good_build E" and c: "chain_invar IA VA IB VB c" "n \<le> length (chain_view VA VB c)" "n \<le> copy_max"
  shows "copied (chain_invar IA VA IB VB) (chain_view VA VB) h (take n (chain_view VA VB c)) (drop n (chain_view VA VB c))
    (chain_copy_to_bytes E A B (ca E) (cb E) c n h)"
proof -
  have i: "IA (chain_a c)" "IB (chain_b c)" "length (VA (chain_a c)) + length (VB (chain_b c)) \<le> usize_max"
    and le: "n \<le> length (VA (chain_a c)) + length (VB (chain_b c))"
    using c by (simp_all add: chain_invar_def chain_view_def)
  note rem = front.src.remaining_view [OF i(1)]
  consider "n \<le> length (VA (chain_a c))" | "length (VA (chain_a c)) < n" "VA (chain_a c) = []"
    | "length (VA (chain_a c)) < n" "VA (chain_a c) \<noteq> []" by fastforce
  then show ?thesis
  proof cases
    case 1
    obtain b s h' where "ca E (chain_a c) n h = Ok ((b, s), h')" "b_ok h' b" "b_view h' b = take n (VA (chain_a c))"
      "IA s" "VA s = drop n (VA (chain_a c))" "same_except {} h h'"
      by (rule copiedE [OF front.copy_ok [OF E i(1) 1 c(3)]])
    then show ?thesis using 1 i rem by (simp add: copied_def chain_copy_to_bytes_def chain_invar_def chain_view_def)
  next
    case 2
    have "n \<le> length (VB (chain_b c))" using le 2(2) by simp
    note r = rear.copy_ok [OF E i(2) this c(3)]
    obtain b s h' where "cb E (chain_b c) n h = Ok ((b, s), h')" "b_ok h' b" "b_view h' b = take n (VB (chain_b c))"
      "IB s" "VB s = drop n (VB (chain_b c))" "same_except {} h h'"
      by (rule copiedE [OF r])
    then show ?thesis using 2 i rem by (simp add: copied_def chain_copy_to_bytes_def chain_invar_def chain_view_def)
  next
    case 3
    obtain b c' h' where "chain_copy_to_bytes E A B (ca E) (cb E) c n h = Ok ((b, c'), h')" "b_ok h' b"
      "b_view h' b = take n (chain_view VA VB c)" "IA (chain_a c')" "IB (chain_b c')"
      "VA (chain_a c') = []" "VB (chain_b c') = drop (n - length (VA (chain_a c))) (VB (chain_b c))" "same_except {} h h'"
      by (rule chain_copy_across [OF E front.src.buf_contract_axioms rear.src.buf_contract_axioms i(1,2) 3(2,1) le c(3)])
    then show ?thesis using 3 i by (simp add: copied_def chain_invar_def chain_view_def)
  qed
qed

lemma chain_copies_panics:
  assumes "chain_invar IA VA IB VB c" "length (chain_view VA VB c) < n"
  shows "panics (chain_copy_to_bytes E A B (ca E) (cb E) c n h)"
proof -
  have i: "IA (chain_a c)" "IB (chain_b c)" and l: "length (VA (chain_a c)) + length (VB (chain_b c)) < n"
    using assms by (simp_all add: chain_invar_def chain_view_def)
  have "panics (cb E (chain_b c) n h)" by (rule rear.copy_panics [OF i(2)]) (use l in simp)
  then show ?thesis
    using l front.src.remaining_view [OF i(1)] rear.src.remaining_view [OF i(2)]
    by (auto simp: chain_copy_to_bytes_def Let_def bind_def intro: panics_obind)
qed

end

sublocale copies_chain \<subseteq> both: copies_out "chain_buf A B" "chain_invar IA VA IB VB" "chain_view VA VB"
  "\<lambda>E. chain_copy_to_bytes E A B (ca E) (cb E)"
proof (intro copies_out.intro copies_out_axioms.intro, goal_cases)
  case 1
  have "chain_contract A IA VA B IB VB" by unfold_locales
  then show ?case by (rule chain_contract.chain_meets)
qed (fact chain_copies_ok chain_copies_panics)+

context copies_chain
begin

lemma chain_copies_out: "copies_out (chain_buf A B) (chain_invar IA VA IB VB) (chain_view VA VB)
    (\<lambda>E. chain_copy_to_bytes E A B (ca E) (cb E))"
  by (rule both.copies_out_axioms)

end

section \<open>BytesMut\<close>

text \<open>\<open>copy_to_bytes\<close> of one of many handles splits it and freezes the first part; nothing is copied.\<close>

lemma bm_copy_ok:
  assumes E: "good_build E" and w: "world h (m # rest)" and n: "n \<le> bm_len m" "length rest < isize_max"
  shows "\<exists>b m' h'. bm_copy_to_bytes E m n h = Ok ((b, m'), h') \<and> b_ok h' b \<and> b_view h' b = take n (bm_view h m)
    \<and> bm_ok h' m' \<and> bm_view h' m' = drop n (bm_view h m) \<and> map (bm_view h') rest = map (bm_view h) rest"
proof -
  obtain front m' h1 where s: "bm_split_to E m n h = Ok ((front, m'), h1)" "world h1 ([front, m'] @ rest)"
    "bm_view h1 front = take n (bm_view h m)" "bm_view h1 m' = drop n (bm_view h m)" "map (bm_view h1) rest = map (bm_view h) rest"
    using world_split_to [OF E w n] by (cases "bm_split_to E m n h") (auto simp: acts_def)
  have ok: "bm_ok h1 x" if "x \<in> set (front # m' # rest)" for x using s(2) that by (auto simp: world_def)
  obtain b h' where b: "freeze E front h1 = Ok (b, h')" "b_ok h' b" "b_view h' b = bm_view h1 front" "same_except {} h1 h'"
    by (rule freeze_ok [OF E ok [of front]]) simp_all
  note k = bm_ok_frame [OF ok b(4)]
  have "map (bm_view h') rest = map (bm_view h1) rest" using k(2) by simp
  moreover have "bm_ok h' m'" "bm_view h' m' = bm_view h1 m'" using k [of m'] by simp_all
  ultimately show ?thesis using s b by (simp add: bm_copy_to_bytes_def)
qed

text \<open>The instances: the provided method of slices, and the chain of two of them.\<close>

interpretation slice_copy: copies_out slice_buf "\<lambda>_. True" "\<lambda>s. s" "\<lambda>E. copy_to_bytes_default E slice_buf"
  by (rule default_copies_out) unfold_locales

interpretation slices_copy: copies_chain
  slice_buf "\<lambda>_. True" "\<lambda>s. s" "\<lambda>E. copy_to_bytes_default E slice_buf"
  slice_buf "\<lambda>_. True" "\<lambda>s. s" "\<lambda>E. copy_to_bytes_default E slice_buf"
  by unfold_locales

end
