(* ===== verification/Bytes_Iter.thy ===== *)
theory Bytes_Iter
  imports Bytes_Handle
begin

text \<open>
  The conversions of \<open>Bytes\<close> and \<open>BytesMut\<close> from and to iterators, and their hashes.
\<close>

section \<open>Extending\<close>

text \<open>
  \<open>Extend<u8>\<close>: the method reserves the lower bound of the size and calls itself with the same
  iterator, so its recursion is a loop that has no end.
\<close>

definition bm_extend_u8 :: "build \<Rightarrow> bytes_mut \<Rightarrow> usize \<Rightarrow> bytes_mut act" where
  "bm_extend_u8 E self lower = (\<lambda>h.
     loop (\<lambda>_. True) (\<lambda>(self, h). bm_reserve E self lower h) (self, h))"

text \<open>\<open>Extend<&u8>\<close>: \<open>copied\<close> keeps the bounds.\<close>

definition bm_extend_ref_u8 :: "build \<Rightarrow> bytes_mut \<Rightarrow> usize \<Rightarrow> bytes_mut act" where
  "bm_extend_ref_u8 E self lower = bm_extend_u8 E self lower"

text \<open>\<open>Extend<Bytes>\<close>: each handle is dropped when its bytes are appended.\<close>

primrec bm_extend_bytes :: "build \<Rightarrow> bytes_mut \<Rightarrow> bytes list \<Rightarrow> bytes_mut act" where
  "bm_extend_bytes E self [] = ret self"
| "bm_extend_bytes E self (b # bs) =
     bind (bytes_as_slice b) (\<lambda>s.
     bind (bm_extend_from_slice E self s) (\<lambda>self.
     bind (bytes_drop E b) (\<lambda>_. bm_extend_bytes E self bs)))"

section \<open>Collecting\<close>

text \<open>
  \<open>FromIterator\<close>. \<open>collect\<close> is \<open>Vec::from_iter\<close>, which chooses the capacity of the vector.
\<close>

definition bm_from_iter :: "build \<Rightarrow> (u8 list \<Rightarrow> raw_vec act) \<Rightarrow> u8 list \<Rightarrow> bytes_mut act" where
  "bm_from_iter E collect bs = bind (collect bs) (\<lambda>v. lift (bm_from_vec E v))"

definition bm_from_ref_iter :: "build \<Rightarrow> (u8 list \<Rightarrow> raw_vec act) \<Rightarrow> u8 list \<Rightarrow> bytes_mut act" where
  "bm_from_ref_iter E collect bs = bm_from_iter E collect bs"

definition bytes_from_iter :: "build \<Rightarrow> (u8 list \<Rightarrow> raw_vec act) \<Rightarrow> u8 list \<Rightarrow> bytes act" where
  "bytes_from_iter E collect bs = bind (collect bs) (\<lambda>v. bytes_from_vec E v)"

section \<open>Conversions\<close>

text \<open>From a string, whose bytes are taken over or copied, and from a \<open>BytesMut\<close>.\<close>

definition bytes_from_string :: "build \<Rightarrow> raw_vec \<Rightarrow> bytes act" where
  "bytes_from_string E s = bytes_from_vec E s"

definition bm_from_str :: "build \<Rightarrow> u8 list \<Rightarrow> bytes_mut act" where
  "bm_from_str E value = bm_from_slice E value"

definition bytes_of_mut :: "build \<Rightarrow> bytes_mut \<Rightarrow> bytes act" where
  "bytes_of_mut E value = freeze E value"

section \<open>Hashing\<close>

text \<open>\<open>H\<close> is the hash of a slice on the state of a hasher.\<close>

definition bytes_hash :: "(u8 list \<Rightarrow> 's \<Rightarrow> 's) \<Rightarrow> bytes \<Rightarrow> 's \<Rightarrow> 's act" where
  "bytes_hash H self st = bind (bytes_as_slice self) (\<lambda>s. ret (H s st))"

definition bm_hash :: "(u8 list \<Rightarrow> 's \<Rightarrow> 's) \<Rightarrow> bytes_mut \<Rightarrow> 's \<Rightarrow> 's act" where
  "bm_hash H self st = bind (bm_as_slice self) (\<lambda>s. ret (H s st))"

section \<open>Extending never returns\<close>

lemma loop_True: "loop (\<lambda>_. True) f x \<noteq> Ok y"
proof
  assume "loop (\<lambda>_. True) f x = Ok y"
  then have "while_option (\<lambda>st. case st of Ok s \<Rightarrow> True | Fault _ \<Rightarrow> False) (\<lambda>st. obind st f) (Ok x) = Some (Ok y)"
    by (simp add: loop_def split: option.splits)
  from while_option_stop [OF this] show False by simp
qed

lemma extend_never_returns: "bm_extend_u8 E self lower h \<noteq> Ok r"
  by (simp add: bm_extend_u8_def loop_True)

end
