(* ===== verification/Compare.thy ===== *)
theory Compare
  imports Bytes_Handle
begin

text \<open>
  The comparisons of \<open>bytes.rs\<close> and \<open>bytes_mut.rs\<close>: equality and order of the two handles with each
  other and with slices, strings, vectors and references to them, one definition per \<open>impl\<close>. A
  string, a vector or a slice is its bytes. \<open>eq\<close> and \<open>partial_cmp\<close> read the handles' bytes.
\<close>

text \<open>\<open>Ord for [u8]\<close>: the first difference decides, and a prefix is less.\<close>

fun slice_cmp :: "u8 list \<Rightarrow> u8 list \<Rightarrow> ordering" where
  "slice_cmp [] [] = Equal"
| "slice_cmp [] (y # ys) = Less"
| "slice_cmp (x # xs) [] = Greater"
| "slice_cmp (x # xs) (y # ys) = (if x < y then Less else if y < x then Greater else slice_cmp xs ys)"

section \<open>\<open>Bytes\<close>\<close>

definition bytes_eq :: "bytes \<Rightarrow> bytes \<Rightarrow> bool act" where
  "bytes_eq self other =
     bind (bytes_as_slice self) (\<lambda>x. bind (bytes_as_slice other) (\<lambda>y. ret (x = y)))"

definition bytes_partial_cmp :: "bytes \<Rightarrow> bytes \<Rightarrow> ordering option act" where
  "bytes_partial_cmp self other =
     bind (bytes_as_slice self) (\<lambda>x. bind (bytes_as_slice other) (\<lambda>y. ret (Some (slice_cmp x y))))"

definition bytes_cmp :: "bytes \<Rightarrow> bytes \<Rightarrow> ordering act" where
  "bytes_cmp self other =
     bind (bytes_as_slice self) (\<lambda>x. bind (bytes_as_slice other) (\<lambda>y. ret (slice_cmp x y)))"

definition bytes_eq_slice :: "bytes \<Rightarrow> u8 list \<Rightarrow> bool act" where
  "bytes_eq_slice self other =
     bind (bytes_as_slice self) (\<lambda>x. ret (x = other))"

definition bytes_partial_cmp_slice :: "bytes \<Rightarrow> u8 list \<Rightarrow> ordering option act" where
  "bytes_partial_cmp_slice self other =
     bind (bytes_as_slice self) (\<lambda>x. ret (Some (slice_cmp x other)))"

definition slice_eq_bytes :: "u8 list \<Rightarrow> bytes \<Rightarrow> bool act" where
  "slice_eq_bytes self other =
     bytes_eq_slice other self"

definition slice_partial_cmp_bytes :: "u8 list \<Rightarrow> bytes \<Rightarrow> ordering option act" where
  "slice_partial_cmp_bytes self other =
     bind (bytes_as_slice other) (\<lambda>y. ret (Some (slice_cmp self y)))"

definition bytes_eq_str :: "bytes \<Rightarrow> u8 list \<Rightarrow> bool act" where
  "bytes_eq_str self other =
     bind (bytes_as_slice self) (\<lambda>x. ret (x = other))"

definition bytes_partial_cmp_str :: "bytes \<Rightarrow> u8 list \<Rightarrow> ordering option act" where
  "bytes_partial_cmp_str self other =
     bind (bytes_as_slice self) (\<lambda>x. ret (Some (slice_cmp x other)))"

definition str_eq_bytes :: "u8 list \<Rightarrow> bytes \<Rightarrow> bool act" where
  "str_eq_bytes self other =
     bytes_eq_str other self"

definition str_partial_cmp_bytes :: "u8 list \<Rightarrow> bytes \<Rightarrow> ordering option act" where
  "str_partial_cmp_bytes self other =
     bind (bytes_as_slice other) (\<lambda>y. ret (Some (slice_cmp self y)))"

definition bytes_eq_vec :: "bytes \<Rightarrow> u8 list \<Rightarrow> bool act" where
  "bytes_eq_vec self other =
     bytes_eq_slice self other"

definition bytes_partial_cmp_vec :: "bytes \<Rightarrow> u8 list \<Rightarrow> ordering option act" where
  "bytes_partial_cmp_vec self other =
     bind (bytes_as_slice self) (\<lambda>x. ret (Some (slice_cmp x other)))"

definition vec_eq_bytes :: "u8 list \<Rightarrow> bytes \<Rightarrow> bool act" where
  "vec_eq_bytes self other =
     bytes_eq_vec other self"

definition vec_partial_cmp_bytes :: "u8 list \<Rightarrow> bytes \<Rightarrow> ordering option act" where
  "vec_partial_cmp_bytes self other =
     bind (bytes_as_slice other) (\<lambda>y. ret (Some (slice_cmp self y)))"

definition bytes_eq_string :: "bytes \<Rightarrow> u8 list \<Rightarrow> bool act" where
  "bytes_eq_string self other =
     bytes_eq_str self other"

definition bytes_partial_cmp_string :: "bytes \<Rightarrow> u8 list \<Rightarrow> ordering option act" where
  "bytes_partial_cmp_string self other =
     bind (bytes_as_slice self) (\<lambda>x. ret (Some (slice_cmp x other)))"

definition string_eq_bytes :: "u8 list \<Rightarrow> bytes \<Rightarrow> bool act" where
  "string_eq_bytes self other =
     bytes_eq_string other self"

definition string_partial_cmp_bytes :: "u8 list \<Rightarrow> bytes \<Rightarrow> ordering option act" where
  "string_partial_cmp_bytes self other =
     bind (bytes_as_slice other) (\<lambda>y. ret (Some (slice_cmp self y)))"

text \<open>The impls for a reference take the impl for what it refers to.\<close>

definition bytes_eq_ref :: "(bytes \<Rightarrow> 'a \<Rightarrow> bool act) \<Rightarrow> bytes \<Rightarrow> 'a \<Rightarrow> bool act" where
  "bytes_eq_ref eq self other =
     eq self other"

definition bytes_partial_cmp_ref :: "(bytes \<Rightarrow> 'a \<Rightarrow> ordering option act) \<Rightarrow> bytes \<Rightarrow> 'a \<Rightarrow> ordering option act" where
  "bytes_partial_cmp_ref cmp self other =
     cmp self other"

definition ref_slice_eq_bytes :: "u8 list \<Rightarrow> bytes \<Rightarrow> bool act" where
  "ref_slice_eq_bytes self other =
     bytes_eq_ref bytes_eq_slice other self"

definition ref_slice_partial_cmp_bytes :: "u8 list \<Rightarrow> bytes \<Rightarrow> ordering option act" where
  "ref_slice_partial_cmp_bytes self other =
     bind (bytes_as_slice other) (\<lambda>y. ret (Some (slice_cmp self y)))"

definition ref_str_eq_bytes :: "u8 list \<Rightarrow> bytes \<Rightarrow> bool act" where
  "ref_str_eq_bytes self other =
     bytes_eq_ref bytes_eq_str other self"

definition ref_str_partial_cmp_bytes :: "u8 list \<Rightarrow> bytes \<Rightarrow> ordering option act" where
  "ref_str_partial_cmp_bytes self other =
     bind (bytes_as_slice other) (\<lambda>y. ret (Some (slice_cmp self y)))"

section \<open>\<open>BytesMut\<close>\<close>

definition bm_eq :: "bytes_mut \<Rightarrow> bytes_mut \<Rightarrow> bool act" where
  "bm_eq self other =
     bind (bm_as_slice self) (\<lambda>x. bind (bm_as_slice other) (\<lambda>y. ret (x = y)))"

definition bm_partial_cmp :: "bytes_mut \<Rightarrow> bytes_mut \<Rightarrow> ordering option act" where
  "bm_partial_cmp self other =
     bind (bm_as_slice self) (\<lambda>x. bind (bm_as_slice other) (\<lambda>y. ret (Some (slice_cmp x y))))"

definition bm_cmp :: "bytes_mut \<Rightarrow> bytes_mut \<Rightarrow> ordering act" where
  "bm_cmp self other =
     bind (bm_as_slice self) (\<lambda>x. bind (bm_as_slice other) (\<lambda>y. ret (slice_cmp x y)))"

definition bm_eq_slice :: "bytes_mut \<Rightarrow> u8 list \<Rightarrow> bool act" where
  "bm_eq_slice self other =
     bind (bm_as_slice self) (\<lambda>x. ret (x = other))"

definition bm_partial_cmp_slice :: "bytes_mut \<Rightarrow> u8 list \<Rightarrow> ordering option act" where
  "bm_partial_cmp_slice self other =
     bind (bm_as_slice self) (\<lambda>x. ret (Some (slice_cmp x other)))"

definition slice_eq_bm :: "u8 list \<Rightarrow> bytes_mut \<Rightarrow> bool act" where
  "slice_eq_bm self other =
     bm_eq_slice other self"

definition slice_partial_cmp_bm :: "u8 list \<Rightarrow> bytes_mut \<Rightarrow> ordering option act" where
  "slice_partial_cmp_bm self other =
     bind (bm_as_slice other) (\<lambda>y. ret (Some (slice_cmp self y)))"

definition bm_eq_str :: "bytes_mut \<Rightarrow> u8 list \<Rightarrow> bool act" where
  "bm_eq_str self other =
     bind (bm_as_slice self) (\<lambda>x. ret (x = other))"

definition bm_partial_cmp_str :: "bytes_mut \<Rightarrow> u8 list \<Rightarrow> ordering option act" where
  "bm_partial_cmp_str self other =
     bind (bm_as_slice self) (\<lambda>x. ret (Some (slice_cmp x other)))"

definition str_eq_bm :: "u8 list \<Rightarrow> bytes_mut \<Rightarrow> bool act" where
  "str_eq_bm self other =
     bm_eq_str other self"

definition str_partial_cmp_bm :: "u8 list \<Rightarrow> bytes_mut \<Rightarrow> ordering option act" where
  "str_partial_cmp_bm self other =
     bind (bm_as_slice other) (\<lambda>y. ret (Some (slice_cmp self y)))"

definition bm_eq_vec :: "bytes_mut \<Rightarrow> u8 list \<Rightarrow> bool act" where
  "bm_eq_vec self other =
     bm_eq_slice self other"

definition bm_partial_cmp_vec :: "bytes_mut \<Rightarrow> u8 list \<Rightarrow> ordering option act" where
  "bm_partial_cmp_vec self other =
     bind (bm_as_slice self) (\<lambda>x. ret (Some (slice_cmp x other)))"

definition vec_eq_bm :: "u8 list \<Rightarrow> bytes_mut \<Rightarrow> bool act" where
  "vec_eq_bm self other =
     bm_eq_vec other self"

definition vec_partial_cmp_bm :: "u8 list \<Rightarrow> bytes_mut \<Rightarrow> ordering option act" where
  "vec_partial_cmp_bm self other =
     bm_partial_cmp_vec other self"

definition bm_eq_string :: "bytes_mut \<Rightarrow> u8 list \<Rightarrow> bool act" where
  "bm_eq_string self other =
     bm_eq_str self other"

definition bm_partial_cmp_string :: "bytes_mut \<Rightarrow> u8 list \<Rightarrow> ordering option act" where
  "bm_partial_cmp_string self other =
     bind (bm_as_slice self) (\<lambda>x. ret (Some (slice_cmp x other)))"

definition string_eq_bm :: "u8 list \<Rightarrow> bytes_mut \<Rightarrow> bool act" where
  "string_eq_bm self other =
     bm_eq_string other self"

definition string_partial_cmp_bm :: "u8 list \<Rightarrow> bytes_mut \<Rightarrow> ordering option act" where
  "string_partial_cmp_bm self other =
     bind (bm_as_slice other) (\<lambda>y. ret (Some (slice_cmp self y)))"

text \<open>The impls for a reference take the impl for what it refers to.\<close>

definition bm_eq_ref :: "(bytes_mut \<Rightarrow> 'a \<Rightarrow> bool act) \<Rightarrow> bytes_mut \<Rightarrow> 'a \<Rightarrow> bool act" where
  "bm_eq_ref eq self other =
     eq self other"

definition bm_partial_cmp_ref :: "(bytes_mut \<Rightarrow> 'a \<Rightarrow> ordering option act) \<Rightarrow> bytes_mut \<Rightarrow> 'a \<Rightarrow> ordering option act" where
  "bm_partial_cmp_ref cmp self other =
     cmp self other"

definition ref_slice_eq_bm :: "u8 list \<Rightarrow> bytes_mut \<Rightarrow> bool act" where
  "ref_slice_eq_bm self other =
     bm_eq_ref bm_eq_slice other self"

definition ref_slice_partial_cmp_bm :: "u8 list \<Rightarrow> bytes_mut \<Rightarrow> ordering option act" where
  "ref_slice_partial_cmp_bm self other =
     bind (bm_as_slice other) (\<lambda>y. ret (Some (slice_cmp self y)))"

definition ref_str_eq_bm :: "u8 list \<Rightarrow> bytes_mut \<Rightarrow> bool act" where
  "ref_str_eq_bm self other =
     bm_eq_ref bm_eq_str other self"

definition ref_str_partial_cmp_bm :: "u8 list \<Rightarrow> bytes_mut \<Rightarrow> ordering option act" where
  "ref_str_partial_cmp_bm self other =
     bm_partial_cmp_ref bm_partial_cmp_str other self"

definition bytes_eq_bm :: "bytes \<Rightarrow> bytes_mut \<Rightarrow> bool act" where
  "bytes_eq_bm self other =
     bind (bm_as_slice other) (\<lambda>y. bind (bytes_as_slice self) (\<lambda>x. ret (y = x)))"

definition bm_eq_bytes :: "bytes_mut \<Rightarrow> bytes \<Rightarrow> bool act" where
  "bm_eq_bytes self other =
     bind (bytes_as_slice other) (\<lambda>y. bind (bm_as_slice self) (\<lambda>x. ret (y = x)))"

end
