(* ===== verification/Fmt.thy ===== *)
theory Fmt
  imports Bytes_Handle
begin

text \<open>
  Formatting of byte strings (\<open>bytes/src/fmt\<close>): the hexadecimal forms and the \<open>Debug\<close> form, which shows
  printable ASCII as it is and escapes the rest. What is written to the formatter is a list of
  ASCII characters as bytes; the formatter itself does not fail.
\<close>

section \<open>Definitions\<close>

text \<open>\<open>{:02x}\<close> and \<open>{:02X}\<close> of a byte.\<close>

definition hex_digit :: "bool \<Rightarrow> nat \<Rightarrow> u8" where
  "hex_digit upper d = of_nat (if d < 10 then 48 + d else (if upper then 55 else 87) + d)"

definition hex_byte :: "bool \<Rightarrow> u8 \<Rightarrow> u8 list" where
  "hex_byte upper b = [hex_digit upper (unat b div 16), hex_digit upper (unat b mod 16)]"

primrec lower_hex_fmt :: "u8 list \<Rightarrow> u8 list" where
  "lower_hex_fmt [] = []"
| "lower_hex_fmt (b # bs) = hex_byte False b @ lower_hex_fmt bs"

primrec upper_hex_fmt :: "u8 list \<Rightarrow> u8 list" where
  "upper_hex_fmt [] = []"
| "upper_hex_fmt (b # bs) = hex_byte True b @ upper_hex_fmt bs"

text \<open>One byte of the loop of \<open>Debug\<close>; 92 is the backslash.\<close>

definition debug_byte :: "u8 \<Rightarrow> u8 list" where
  "debug_byte b =
     (if b = 10 then [92, 110]
      else if b = 13 then [92, 114]
      else if b = 9 then [92, 116]
      else if b = 92 \<or> b = 34 then [92, b]
      else if b = 0 then [92, 48]
      else if 0x20 \<le> b \<and> b < 0x7f then [b]
      else [92, 120] @ hex_byte False b)"

primrec debug_fmt :: "u8 list \<Rightarrow> u8 list" where
  "debug_fmt [] = []"
| "debug_fmt (b # bs) = debug_byte b @ debug_fmt bs"

text \<open>\<open>fmt_impl!\<close> for the two handles.\<close>

definition bytes_fmt :: "(u8 list \<Rightarrow> u8 list) \<Rightarrow> bytes \<Rightarrow> u8 list act" where
  "bytes_fmt tr self = bind (bytes_as_slice self) (\<lambda>s. ret (tr s))"

definition bm_fmt :: "(u8 list \<Rightarrow> u8 list) \<Rightarrow> bytes_mut \<Rightarrow> u8 list act" where
  "bm_fmt tr self = bind (bm_as_slice self) (\<lambda>s. ret (tr s))"

section \<open>Reading back\<close>

text \<open>What the written characters stand for.\<close>

definition hex_value :: "u8 \<Rightarrow> nat option" where
  "hex_value c =
     (let n = unat c in
      if 48 \<le> n \<and> n \<le> 57 then Some (n - 48)
      else if 97 \<le> n \<and> n \<le> 102 then Some (n - 87)
      else if 65 \<le> n \<and> n \<le> 70 then Some (n - 55)
      else None)"

definition hex_pair :: "u8 \<Rightarrow> u8 \<Rightarrow> u8 option" where
  "hex_pair a b =
     (case (hex_value a, hex_value b) of
        (Some x, Some y) \<Rightarrow> Some (of_nat (16 * x + y)) | _ \<Rightarrow> None)"

fun unhex :: "u8 list \<Rightarrow> u8 list option" where
  "unhex [] = Some []"
| "unhex [a] = None"
| "unhex (a # b # cs) =
     (case (hex_pair a b, unhex cs) of (Some x, Some xs) \<Rightarrow> Some (x # xs) | _ \<Rightarrow> None)"

definition unescape_char :: "u8 \<Rightarrow> u8" where
  "unescape_char c =
     (if c = 110 then 10 else if c = 114 then 13 else if c = 116 then 9 else if c = 48 then 0 else c)"

fun unescape :: "u8 list \<Rightarrow> u8 list option" where
  "unescape [] = Some []"
| "unescape (c # cs) =
     (if c \<noteq> 92 then map_option ((#) c) (unescape cs)
      else case cs of
             [] \<Rightarrow> None
           | d # ds \<Rightarrow>
               if d \<noteq> 120 then map_option ((#) (unescape_char d)) (unescape ds)
               else (case ds of
                       x # y # es \<Rightarrow>
                         (case (hex_pair x y, unescape es) of
                            (Some b, Some bs) \<Rightarrow> Some (b # bs) | _ \<Rightarrow> None)
                     | _ \<Rightarrow> None))"

lemma hex_value_digit: "d < 16 \<Longrightarrow> hex_value (hex_digit upper d) = Some d"
proof -
  assume d: "d < 16"
  have "unat (of_nat n :: u8) = n" if "n < 256" for n using that by (simp add: unat_of_nat)
  then show ?thesis using d by (auto simp: hex_value_def hex_digit_def Let_def)
qed

lemma hex_pair_byte: "hex_pair (hex_digit u (unat b div 16)) (hex_digit u (unat b mod 16)) = Some b"
proof -
  have "unat b < 256" using unsigned_less [of b] by simp
  then have "unat b div 16 < 16" by (simp add: less_mult_imp_div_less)
  then show ?thesis by (simp add: hex_pair_def hex_value_digit)
qed

lemma unhex_lower: "unhex (lower_hex_fmt bs) = Some bs"
  by (induction bs) (simp_all add: hex_byte_def hex_pair_byte)

lemma unhex_upper: "unhex (upper_hex_fmt bs) = Some bs"
  by (induction bs) (simp_all add: hex_byte_def hex_pair_byte)

lemma unescape_byte: "unescape (debug_byte b @ cs) = map_option ((#) b) (unescape cs)"
proof -
  have "unescape ([92, 120] @ hex_byte False b @ cs) = map_option ((#) b) (unescape cs)"
    by (simp add: hex_byte_def hex_pair_byte split: option.split)
  moreover have "unescape (92 # c # cs) = map_option ((#) b) (unescape cs)"
    if "c \<noteq> 120" "unescape_char c = b" for c
    using that by simp
  ultimately show ?thesis by (auto simp: debug_byte_def unescape_char_def)
qed

lemma unescape_debug: "unescape (debug_fmt bs) = Some bs"
  by (induction bs) (simp_all add: unescape_byte)

text \<open>Only printable ASCII is written.\<close>

definition is_graphic :: "u8 \<Rightarrow> bool" where
  "is_graphic c \<longleftrightarrow> 32 \<le> unat c \<and> unat c < 127"

lemma printable_hex: "d < 16 \<Longrightarrow> is_graphic (hex_digit u d)"
proof -
  assume d: "d < 16"
  have "unat (of_nat n :: u8) = n" if "n < 256" for n using that by (simp add: unat_of_nat)
  then show ?thesis using d by (auto simp: is_graphic_def hex_digit_def)
qed

lemma printable_debug_byte: "list_all is_graphic (debug_byte b)"
proof -
  have "unat b < 256" using unsigned_less [of b] by simp
  then have "unat b div 16 < 16" by (simp add: less_mult_imp_div_less)
  then have "list_all is_graphic (hex_byte False b)" by (simp add: hex_byte_def printable_hex)
  then show ?thesis by (auto simp: debug_byte_def is_graphic_def word_le_nat_alt word_less_nat_alt)
qed

lemma printable_debug: "list_all is_graphic (debug_fmt bs)"
  by (induction bs) (simp_all add: printable_debug_byte)

text \<open>
  C29. What the formats write can be read back, so two byte strings that differ are shown
  differently: decoding the hexadecimal forms and undoing the escapes of \<open>Debug\<close> give the bytes.
  \<open>Debug\<close> writes printable ASCII only.
\<close>

theorem formats_roundtrip:
  "unhex (lower_hex_fmt bs) = Some bs \<and> unhex (upper_hex_fmt bs) = Some bs
   \<and> unescape (debug_fmt bs) = Some bs \<and> list_all is_graphic (debug_fmt bs)"
  by (simp add: unhex_lower unhex_upper unescape_debug printable_debug)

end
