(* ===== verification/Bytes_Theorems.thy ===== *)
theory Bytes_Theorems
  imports Bytes_Mut_Unsplit Bytes_Copy Bytes_Iter Compare Fmt
begin

text \<open>
  Properties of \<open>Bytes\<close> and \<open>BytesMut\<close>: the handles behave as independent byte strings, meet the
  contracts of the buffer traits, divide, freeze and thaw without losing a byte, and compare as
  their bytes do; and where the code does not keep to this.
\<close>

section \<open>Handles as byte strings\<close>

text \<open>
  C1. Any number of \<open>BytesMut\<close> handles behave as independent byte strings, although they share
  vectors and count their references. Whatever sequence of creating, appending, advancing,
  truncating, resizing, assigning to a byte, splitting, reserving, cloning and dropping is applied
  to whichever handles, if the byte strings allow it, then no call panics, aborts or has undefined behaviour, the handles show
  exactly the byte strings that the operations give, and the handles are again such that none
  can reach the bytes of another and every shared box counts its handles.
\<close>

theorem handles_refine:
  assumes "good_build E" "world h ms" "spec_run ps (map (bm_view h) ms) = Some vs"
  shows "\<exists>ms' h'. world_run E ps ms h = Ok (ms', h') \<and> world h' ms' \<and> map (bm_view h') ms' = vs"
  by (rule world_run_refines [OF assms])

theorem handles_refine_witness:
  "\<exists>ms' h'. world_run plain_build
      [NewFrom [1, 2, 3, 4], On 0 (SplitTo 1), On 1 (ExtendFromSlice [9]), On 0 (ExtendFromSlice [7, 7]),
       On 1 (SplitOff 2), On 0 DropHandle, On 0 (SetAt 0 5), On 1 (Resize 3 6)] [] empty_heap = Ok (ms', h')
    \<and> map (bm_view h') ms' = [[5, 3], [4, 9, 6]]"
proof -
  have "world empty_heap []" by (simp add: world_def)
  from handles_refine [OF good_plain_build this,
      of "[NewFrom [1, 2, 3, 4], On 0 (SplitTo 1), On 1 (ExtendFromSlice [9]), On 0 (ExtendFromSlice [7, 7]),
       On 1 (SplitOff 2), On 0 DropHandle, On 0 (SetAt 0 5), On 1 (Resize 3 6)]" "[[5, 3], [4, 9, 6]]"]
  show ?thesis by (auto simp: isize_max_def)
qed

text \<open>
  C4. Joining is the inverse of splitting. \<open>unsplit\<close> of two of many handles gives a handle that shows
  the bytes of both, whether they are neighbours in one vector or the second must be copied, and
  leaves all other handles and counts right, provided that different boxes have different
  addresses. Splitting a handle anywhere up to its capacity and joining the halves again gives
  its bytes back, without that provision.
\<close>

theorem unsplit_joins:
  assumes "good_build E" "world h (m # k # rest)" "boxes_told_apart m k" "bm_len m + bm_len k \<le> isize_max div 4"
    and "at \<le> bm_cap m" "Suc (length rest) < isize_max"
  shows "(\<exists>m' h'. bm_unsplit E m k h = Ok (m', h') \<and> world h' (m' # rest)
        \<and> bm_view h' m' = bm_view h m @ bm_view h k \<and> map (bm_view h') rest = map (bm_view h) rest)
    \<and> (\<exists>m' h'. bind (bm_split_off E m at) (\<lambda>(other, self). bm_unsplit E self other) h = Ok (m', h')
        \<and> world h' (m' # k # rest) \<and> bm_view h' m' = bm_view h m
        \<and> map (bm_view h') (k # rest) = map (bm_view h) (k # rest))"
proof
  show "\<exists>m' h'. bm_unsplit E m k h = Ok (m', h') \<and> world h' (m' # rest)
        \<and> bm_view h' m' = bm_view h m @ bm_view h k \<and> map (bm_view h') rest = map (bm_view h) rest"
    by (rule world_unsplit [OF assms(1-4)]) blast
  show "\<exists>m' h'. bind (bm_split_off E m at) (\<lambda>(other, self). bm_unsplit E self other) h = Ok (m', h')
        \<and> world h' (m' # k # rest) \<and> bm_view h' m' = bm_view h m
        \<and> map (bm_view h') (k # rest) = map (bm_view h) (k # rest)"
    by (rule world_split_unsplit [OF assms(1,2,5)]) (use assms(4,6) in simp_all)
qed

lemma two_handles:
  obtains h m k where "world h [m, k]" "bm_view h m = [1, 2, 3]" "bm_view h k = [4 :: u8]" "boxes_told_apart m k"
    "bm_len m = 3" "bm_len k = 1"
proof -
  obtain k h1 where k: "bm_ok h1 k" "bm_view h1 k = [4 :: u8]" "same_except {} empty_heap h1" "prov (bm_data k) = None"
    "footprint k \<inter> {x. x < fresh empty_heap} = {}"
    by (rule bm_from_slice_ok [OF good_plain_build, of "[4]" empty_heap]) (simp_all add: isize_max_def)
  obtain m h2 where m: "bm_ok h2 m" "bm_view h2 m = [1, 2, 3]" "same_except {} h1 h2" "prov (bm_data m) = None"
    "footprint m \<inter> {x. x < fresh h1} = {}"
    by (rule bm_from_slice_ok [OF good_plain_build, of "[1, 2, 3]" h1]) (simp_all add: isize_max_def)
  have "world empty_heap []" by (simp add: world_def)
  from world_bm_new(1) [OF this k(3,1,4,5)] have w: "world h1 [k]" .
  have w2: "world h2 [m, k]" "bm_view h2 k = [4]" using world_bm_new [OF w m(3,1,4,5)] k(2) by simp_all
  then have "bm_len m = 3" "bm_len k = 1"
    using length_bm_view [OF m(1)] m(2) length_bm_view [of h2 k] by (simp_all add: world_def)
  then show thesis using that w2 m(2,4) by (simp add: boxes_told_apart_def)
qed

theorem unsplit_joins_witness:
  "\<exists>h m k m' h'. bm_view h m = [1, 2, 3] \<and> bm_view h k = [4] \<and> bm_unsplit plain_build m k h = Ok (m', h')
    \<and> bm_view h' m' = [1, 2, 3, 4]"
proof -
  obtain h m k where w: "world h [m, k]" "bm_view h m = [1, 2, 3]" "bm_view h k = [4 :: u8]" "boxes_told_apart m k"
    "bm_len m = 3" "bm_len k = 1"
    by (rule two_handles)
  then have "bm_len m + bm_len k \<le> isize_max div 4" by (simp add: isize_max_def)
  from unsplit_joins [OF good_plain_build w(1,4) this, of 0] w(2,3) show ?thesis by (force simp: isize_max_def)
qed

text \<open>
  C6. \<open>BytesMut\<close> and \<open>Bytes\<close> are buffers: the representation of a handle stays well formed under all
  operations of \<open>Buf\<close> and \<open>BufMut\<close>, \<open>remaining\<close> is the number of its bytes, \<open>chunk\<close> shows them, \<open>advance\<close>
  drops exactly the given number and panics beyond the end, and \<open>chunk_mut\<close> with \<open>advance_mut\<close>, \<open>put_slice\<close>
  and \<open>put_bytes\<close> append exactly what is written. So all that holds of every buffer holds of them.
\<close>

theorem handles_are_buffers:
  assumes "good_build E"
  shows "buf_required_contract (bm_required E) (\<lambda>s. bm_ok (snd s) (fst s)) (\<lambda>s. bm_view (snd s) (fst s))
    \<and> bufmut_contract (bm_bufmut E) (\<lambda>s. bm_ok (snd s) (fst s)) (\<lambda>s. bm_view (snd s) (fst s)) (\<lambda>s. bm_room (fst s))
    \<and> buf_required_contract (bytes_required E) (\<lambda>s. b_ok (snd s) (fst s)) (\<lambda>s. b_view (snd s) (fst s))"
  using bm_meets_buf [OF assms] bm_meets_bufmut [OF assms] bytes_meets_buf [of E] by simp

theorem handles_are_buffers_witness:
  "bufmut_contract (bm_bufmut plain_build) (\<lambda>s. bm_ok (snd s) (fst s)) (\<lambda>s. bm_view (snd s) (fst s)) (\<lambda>s. bm_room (fst s))"
  using handles_are_buffers [OF good_plain_build] by simp

section \<open>Dividing\<close>

text \<open>
  C8. Slicing and splitting a \<open>Bytes\<close> give handles to exactly the stretches asked for, whatever its
  vtable: \<open>split_to\<close> and \<open>split_off\<close> divide its bytes at the position, \<open>slice\<close> gives the range and leaves
  the handle its bytes, no byte in memory is changed and both handles are good again. The only
  other outcome is the abort, and only when the count of the handle is past \<open>isize::MAX\<close>; a position or a
  range outside panics.
\<close>

theorem bytes_divide:
  assumes "good_build E" "b_ok h b"
  shows "(at \<le> b_len b \<longrightarrow>
        divides h b (take at (b_view h b)) (drop at (b_view h b)) (bytes_split_to E b at h)
        \<and> divides h b (drop at (b_view h b)) (take at (b_view h b)) (bytes_split_off E b at h))
    \<and> (b_len b < at \<longrightarrow>
        bytes_split_to E b at h = Fault PanicAssert \<and> bytes_split_off E b at h = Fault PanicAssert)
    \<and> (lo \<le> hi \<and> hi \<le> b_len b \<longrightarrow>
        divides h b (take (hi - lo) (drop lo (b_view h b))) (b_view h b) (bytes_slice E b (Included lo) (Excluded hi) h))
    \<and> (hi < lo \<or> b_len b < hi \<longrightarrow> bytes_slice E b (Included lo) (Excluded hi) h = Fault PanicAssert)"
  using bytes_split_to_ok [OF assms] bytes_split_off_ok [OF assms] bytes_slice_ok [OF assms, of "Included lo" lo "Excluded hi" hi]
  by (auto simp: bytes_split_to_def bytes_split_off_def bytes_slice_def range_begin_def range_end_def require_def
      guard_def not_le)

text \<open>A heap with the static bytes 1, 2 and 3, and the handle to them.\<close>

definition static_heap :: heap where
  "static_heap = \<lparr>blocks = [0 \<mapsto> Static 64 [1, 2, 3]], fresh = 1\<rparr>"

definition static_bytes :: bytes where
  "static_bytes = bytes_from_static \<lparr>prov = Some 0, addr = 64\<rparr> 3"

lemma static_bytes_ok: "b_ok static_heap static_bytes" "b_view static_heap static_bytes = [1, 2, 3]" "b_len static_bytes = 3"
proof -
  have "read_slice \<lparr>prov = Some 0, addr = 64\<rparr> 3 static_heap = Ok ([1, 2, 3], static_heap)"
    by (simp add: read_slice_def get_cells_def static_heap_def)
  then show "b_ok static_heap static_bytes" "b_view static_heap static_bytes = [1, 2, 3]" "b_len static_bytes = 3"
    by (simp_all add: b_ok_def readable_def static_bytes_def bytes_from_static_def b_view_def bytes_chunk_def
        bytes_as_slice_def) (simp add: static_heap_def)
qed

theorem bytes_divide_witness:
  "divides static_heap static_bytes [1, 2] [3] (bytes_split_to plain_build static_bytes 2 static_heap)
   \<and> bytes_split_to plain_build static_bytes 4 static_heap = Fault PanicAssert
   \<and> divides static_heap static_bytes [2, 3] [1, 2, 3] (bytes_slice plain_build static_bytes (Included 1) (Excluded 3) static_heap)"
  using bytes_divide [OF good_plain_build static_bytes_ok(1), of 2 1 3] bytes_divide [OF good_plain_build static_bytes_ok(1), of 4 1 3]
  by (simp add: static_bytes_ok(2,3))

text \<open>
  C35. \<open>slice_ref\<close> accepts a non-empty part of the bytes only if it starts where the handle does: then it
  gives a handle to that part. Every later part, although it lies within the bytes, panics.
\<close>

theorem slice_ref_prefix_only:
  assumes "good_build E" "b_ok h b" "0 < n" "k + n \<le> b_len b"
  shows "if k = 0 then divides h b (take n (b_view h b)) (b_view h b) (bytes_slice_ref E b (ptr_add (b_ptr b) k) n h)
    else bytes_slice_ref E b (ptr_add (b_ptr b) k) n h = Fault PanicAssert"
proof (cases "k = 0")
  case True
  have "usize_add E (addr (b_ptr b)) n = Ok (addr (b_ptr b) + n)"
    "usize_add E (addr (b_ptr b)) (b_len b) = Ok (addr (b_ptr b) + b_len b)" "usize_add E 0 n = Ok n"
    using b_okD(3) [OF assms(2)] assms(4) by (simp_all add: usize_add_def usize_max_def)
  then have "bytes_slice_ref E b (ptr_add (b_ptr b) k) n h = bytes_slice E b (Included 0) (Excluded n) h"
    using True assms(3,4) by (simp add: bytes_slice_ref_def Let_def usize_sub_def)
  then show ?thesis
    using True assms(4) bytes_slice_ok [OF assms(1,2), of "Included 0" 0 "Excluded n" n]
    by (simp add: range_begin_def range_end_def)
next
  case False
  then show ?thesis using assms(3) by (simp add: bytes_slice_ref_def Let_def)
qed

theorem slice_ref_prefix_only_witness:
  "divides static_heap static_bytes [1, 2] [1, 2, 3] (bytes_slice_ref plain_build static_bytes (b_ptr static_bytes) 2 static_heap)
   \<and> bytes_slice_ref plain_build static_bytes (ptr_add (b_ptr static_bytes) 1) 2 static_heap = Fault PanicAssert"
  using slice_ref_prefix_only [OF good_plain_build static_bytes_ok(1), of 2 0]
    slice_ref_prefix_only [OF good_plain_build static_bytes_ok(1), of 2 1]
  by (simp add: static_bytes_ok(2,3))

section \<open>Copying out\<close>

text \<open>
  C17. \<open>copy_to_bytes\<close> of at most \<open>isize_max div 4 - 64\<close> bytes. The provided method meets the contract \<open>copies_out\<close>
  for every buffer. Through \<open>Take\<close> and \<open>Chain\<close>, over any two buffers whose own \<open>copy_to_bytes\<close> meets it, the new
  \<open>Bytes\<close> shows exactly the next bytes, also across the boundary of the two buffers, the adapter goes
  on behind them, and no allocation there was has changed; asking for more than there is panics. The
  \<open>copy_to_bytes\<close> of \<open>BytesMut\<close>, of one of many handles, and that of \<open>Bytes\<close> share the bytes instead: the new
  handle shows the next ones and the old handle the rest.
\<close>

theorem copy_to_bytes_copies:
  assumes "good_build E" "buf_contract S IS VS" "copies_out A IA VA ca" "copies_out B IB VB cb"
    "chain_invar IA VA IB VB (take_inner t)" "n \<le> isize_max div 4 - 64"
  shows "copies_out S IS VS (\<lambda>E. copy_to_bytes_default E S)
    \<and> (let view = take_view (chain_view VA VB);
          res = take_copy_to_bytes (chain_buf A B) (chain_copy_to_bytes E A B (ca E) (cb E)) t n h
       in if n \<le> length (view t)
          then \<exists>b t' h'. res = Ok ((b, t'), h') \<and> b_ok h' b \<and> b_view h' b = take n (view t)
                 \<and> chain_invar IA VA IB VB (take_inner t') \<and> view t' = drop n (view t) \<and> same_except {} h h'
          else panics res)
    \<and> (world h (m # rest) \<and> n \<le> bm_len m \<and> length rest < isize_max \<longrightarrow>
        (\<exists>b m' h'. bm_copy_to_bytes E m n h = Ok ((b, m'), h') \<and> b_ok h' b \<and> b_view h' b = take n (bm_view h m)
           \<and> bm_ok h' m' \<and> bm_view h' m' = drop n (bm_view h m) \<and> map (bm_view h') rest = map (bm_view h) rest))
    \<and> (b_ok h x \<and> n \<le> b_len x \<longrightarrow>
        divides h x (take n (b_view h x)) (drop n (b_view h x)) (bytes_copy_to_bytes E x n h))"
proof (intro conjI impI)
  note c = copies_out.take_copies_out [OF copies_chain.chain_copies_out [OF copies_chain.intro [OF assms(3,4)]]]
  show "let view = take_view (chain_view VA VB);
          res = take_copy_to_bytes (chain_buf A B) (chain_copy_to_bytes E A B (ca E) (cb E)) t n h
       in if n \<le> length (view t)
          then \<exists>b t' h'. res = Ok ((b, t'), h') \<and> b_ok h' b \<and> b_view h' b = take n (view t)
                 \<and> chain_invar IA VA IB VB (take_inner t') \<and> view t' = drop n (view t) \<and> same_except {} h h'
          else panics res"
    using copies_out.copy_ok [OF c assms(1), of t n h] copies_out.copy_panics [OF c, of t n E h] assms(5,6)
    by (simp add: take_invar_def copied_def Let_def not_le)
  show "divides h x (take n (b_view h x)) (drop n (b_view h x)) (bytes_copy_to_bytes E x n h)" if "b_ok h x \<and> n \<le> b_len x"
    using bytes_split_to_ok [OF assms(1)] that by (simp add: bytes_copy_to_bytes_def)
qed (use bm_copy_ok [OF assms(1)] default_copies_out [OF assms(2)] in blast)+

theorem copy_to_bytes_copies_witness:
  "(\<exists>b t' h'. take_copy_to_bytes (chain_buf slice_buf slice_buf)
      (chain_copy_to_bytes plain_build slice_buf slice_buf (copy_to_bytes_default plain_build slice_buf)
        (copy_to_bytes_default plain_build slice_buf)) (take_new (chain_new [1, 2] [3, 4]) 4) 3 static_heap = Ok ((b, t'), h')
    \<and> b_view h' b = [1, 2, 3])
   \<and> divides static_heap static_bytes [1, 2, 3] [] (bytes_copy_to_bytes plain_build static_bytes 3 static_heap)"
proof -
  let ?t = "take_new (chain_new [1, 2] [3, 4]) 4"
  have i: "chain_invar (\<lambda>_. True) (\<lambda>s. s) (\<lambda>_. True) (\<lambda>s. s) (take_inner ?t)"
    by (simp add: take_new_def chain_new_def chain_invar_def usize_max_def)
  have v: "take_view (chain_view (\<lambda>s. s) (\<lambda>s. s)) ?t = [1, 2, 3, 4]"
    by (simp add: take_new_def chain_new_def chain_view_def take_view_def)
  have n: "(3 :: nat) \<le> isize_max div 4 - 64" by (simp add: isize_max_def)
  note c = copy_to_bytes_copies [OF good_plain_build slice_b.buf_contract_axioms slice_copy.copies_out_axioms
      slice_copy.copies_out_axioms i n, of static_heap _ _ static_bytes, unfolded Let_def v]
  from conjunct1 [OF conjunct2 [OF c]] conjunct2 [OF conjunct2 [OF conjunct2 [OF c]]] static_bytes_ok
  show ?thesis by auto
qed

section \<open>Freezing and thawing\<close>

text \<open>
  C10. Freezing keeps the bytes and thawing gives them back: \<open>freeze\<close> of a \<open>BytesMut\<close> shows the same
  bytes as a \<open>Bytes\<close>, and in a build without debug assertions \<open>try_into_mut\<close> of the result gives a
  \<open>BytesMut\<close> with the same bytes, if no other handle shares the vector, there is at least one byte and
  the address fits the position field.
\<close>

theorem freeze_thaw:
  assumes "good_build E" "bm_ok h m"
  shows "\<exists>b h'. freeze E m h = Ok (b, h') \<and> b_ok h' b \<and> b_view h' b = bm_view h m
    \<and> (\<not> debug E \<and> sole h m \<and> bm_len m \<noteq> 0 \<and> addr (bm_ptr m) \<le> MAX_VEC_POS \<longrightarrow>
        (\<exists>m' h''. bytes_try_into_mut E b h' = Ok (Inr m', h'') \<and> bm_ok h'' m' \<and> bm_view h'' m' = bm_view h m))"
proof -
  obtain b h' where b: "freeze E m h = Ok (b, h')" "b_ok h' b" "b_view h' b = bm_view h m"
    "bm_len m \<noteq> 0 \<Longrightarrow> b_ptr b = bm_ptr m"
    "sole h m \<Longrightarrow> bm_len m \<noteq> 0 \<Longrightarrow> bytes_is_unique b h' = Ok (True, h') \<and> \<not> promoted h' b"
    using freeze_ok [OF assms] by metis
  moreover have "\<exists>m' h''. bytes_try_into_mut E b h' = Ok (Inr m', h'') \<and> bm_ok h'' m' \<and> bm_view h'' m' = bm_view h m"
    if "\<not> debug E" "sole h m" "bm_len m \<noteq> 0" "addr (bm_ptr m) \<le> MAX_VEC_POS"
  proof -
    have "addr (b_ptr b) \<le> MAX_VEC_POS" using b(4) that by simp
    then show ?thesis using b(3,5) that by (metis thaw_ok [OF that(1) b(2)])
  qed
  ultimately show ?thesis by blast
qed

definition release_build :: build where
  "release_build = plain_build\<lparr>debug := False\<rparr>"

lemma good_release_build: "good_build release_build"
  using good_plain_build by (simp add: good_build_def release_build_def)

lemma release_from_slice:
  obtains m h where "bm_from_slice release_build [1, 2, 3] empty_heap = Ok (m, h)" "bm_ok h m"
    "bm_view h m = [1, 2, 3]" "sole h m" "bm_len m = 3" "addr (bm_ptr m) = 64"
proof -
  obtain m h where m: "bm_from_slice release_build [1, 2, 3] empty_heap = Ok (m, h)" "bm_ok h m"
    "bm_view h m = [1, 2, 3]" "prov (bm_data m) = None"
    by (rule bm_from_slice_ok [OF good_release_build, of "[1, 2, 3]" empty_heap]) (simp_all add: isize_max_def)
  have "addr (bm_ptr m) = 64"
    using m(1) by (auto simp: bm_from_slice_def rv_of_list_def rv_with_capacity_def new_block_def Let_def empty_heap_def
        release_build_def plain_build_def put_cells_def bm_from_vec_def vptr_def isize_max_def require_def guard_def
        split: if_split_asm)
  moreover have "bm_len m = 3" using length_bm_view [OF m(2)] m(3) by simp
  ultimately show thesis using that m sole_noprov [OF m(4)] by blast
qed

theorem freeze_thaw_witness:
  "\<exists>m h b h' m' h''. bm_from_slice release_build [1, 2, 3] empty_heap = Ok (m, h) \<and> freeze release_build m h = Ok (b, h')
    \<and> b_view h' b = [1, 2, 3] \<and> bytes_try_into_mut release_build b h' = Ok (Inr m', h'') \<and> bm_view h'' m' = [1, 2, 3]"
proof -
  obtain m h where m: "bm_from_slice release_build [1, 2, 3] empty_heap = Ok (m, h)" "bm_ok h m"
    "bm_view h m = [1, 2, 3]" "sole h m" "bm_len m = 3" "addr (bm_ptr m) = 64"
    by (rule release_from_slice)
  have "\<not> debug release_build" "addr (bm_ptr m) \<le> MAX_VEC_POS" using m(6) by (simp_all add: release_build_def MAX_VEC_POS_val)
  with freeze_thaw [OF good_release_build m(2)] m show ?thesis by force
qed

text \<open>In a build with debug assertions, thawing a boxed slice panics.\<close>

lemma thaw_debug_panics:
  assumes "debug E" "b_vtable b \<in> {PROMOTABLE_EVEN_VTABLE, PROMOTABLE_ODD_VTABLE}" "odd (addr (b_data b))" "1 < addr (b_data b)"
  shows "bytes_try_into_mut E b h = Fault PanicAssert"
  using assms odd_data(1) [OF assms(3,2)]
  by (auto simp: bytes_try_into_mut_def mut_of_bytes_def promotable_to_mut_def KIND_MASK_def KIND_ARC_def KIND_VEC_def
      debug_assert_def require_def guard_def)

section \<open>Comparing\<close>

text \<open>The lexicographic order of byte strings.\<close>

definition lex_cmp :: "u8 list \<Rightarrow> u8 list \<Rightarrow> ordering" where
  "lex_cmp xs ys =
     (if (xs, ys) \<in> lexord {(a, b). a < b} then Less else if xs = ys then Equal else Greater)"

lemma slice_cmp_lex: "slice_cmp xs ys = lex_cmp xs ys"
  by (induction xs ys rule: slice_cmp.induct) (auto simp: lex_cmp_def)

lemmas bytes_compare_defs = bytes_eq_def bytes_partial_cmp_def bytes_cmp_def bytes_eq_slice_def
  bytes_partial_cmp_slice_def slice_eq_bytes_def slice_partial_cmp_bytes_def bytes_eq_str_def
  bytes_partial_cmp_str_def str_eq_bytes_def str_partial_cmp_bytes_def bytes_eq_vec_def
  bytes_partial_cmp_vec_def vec_eq_bytes_def vec_partial_cmp_bytes_def bytes_eq_string_def
  bytes_partial_cmp_string_def string_eq_bytes_def string_partial_cmp_bytes_def bytes_eq_ref_def
  bytes_partial_cmp_ref_def ref_slice_eq_bytes_def ref_slice_partial_cmp_bytes_def ref_str_eq_bytes_def
  ref_str_partial_cmp_bytes_def

lemmas bm_compare_defs = bm_eq_def bm_partial_cmp_def bm_cmp_def bm_eq_slice_def bm_partial_cmp_slice_def
  slice_eq_bm_def slice_partial_cmp_bm_def bm_eq_str_def bm_partial_cmp_str_def str_eq_bm_def
  str_partial_cmp_bm_def bm_eq_vec_def bm_partial_cmp_vec_def vec_eq_bm_def vec_partial_cmp_bm_def
  bm_eq_string_def bm_partial_cmp_string_def string_eq_bm_def string_partial_cmp_bm_def bm_eq_ref_def
  bm_partial_cmp_ref_def ref_slice_eq_bm_def ref_slice_partial_cmp_bm_def ref_str_eq_bm_def
  ref_str_partial_cmp_bm_def

text \<open>
  C14. All 52 comparisons of handles with each other and with slices, strings, vectors and
  references are the comparison of the bytes: equality is equality of the byte strings, and the
  order is lexicographic, with two exceptions. The order of a vector and a \<open>BytesMut\<close>, and of a \<open>&str\<close>
  and a \<open>BytesMut\<close>, is that of the operands exchanged.
\<close>

theorem comparisons_agree:
  assumes "b_ok h b" "b_ok h c" "bm_ok h m" "bm_ok h k"
  shows "bytes_eq b c h = Ok (b_view h b = b_view h c, h)
    \<and> bytes_partial_cmp b c h = Ok (Some (lex_cmp (b_view h b) (b_view h c)), h)
    \<and> bytes_cmp b c h = Ok (lex_cmp (b_view h b) (b_view h c), h)
    \<and> (\<forall>f \<in> {bytes_eq_slice, bytes_eq_str, bytes_eq_vec, bytes_eq_string, bytes_eq_ref bytes_eq_slice}.
         f b xs h = Ok (b_view h b = xs, h))
    \<and> (\<forall>f \<in> {slice_eq_bytes, str_eq_bytes, vec_eq_bytes, string_eq_bytes, ref_slice_eq_bytes, ref_str_eq_bytes}.
         f xs b h = Ok (xs = b_view h b, h))
    \<and> (\<forall>f \<in> {bytes_partial_cmp_slice, bytes_partial_cmp_str, bytes_partial_cmp_vec, bytes_partial_cmp_string,
              bytes_partial_cmp_ref bytes_partial_cmp_slice}.
         f b xs h = Ok (Some (lex_cmp (b_view h b) xs), h))
    \<and> (\<forall>f \<in> {slice_partial_cmp_bytes, str_partial_cmp_bytes, vec_partial_cmp_bytes, string_partial_cmp_bytes,
              ref_slice_partial_cmp_bytes, ref_str_partial_cmp_bytes}.
         f xs b h = Ok (Some (lex_cmp xs (b_view h b)), h))
    \<and> bm_eq m k h = Ok (bm_view h m = bm_view h k, h)
    \<and> bm_partial_cmp m k h = Ok (Some (lex_cmp (bm_view h m) (bm_view h k)), h)
    \<and> bm_cmp m k h = Ok (lex_cmp (bm_view h m) (bm_view h k), h)
    \<and> (\<forall>f \<in> {bm_eq_slice, bm_eq_str, bm_eq_vec, bm_eq_string, bm_eq_ref bm_eq_slice}.
         f m xs h = Ok (bm_view h m = xs, h))
    \<and> (\<forall>f \<in> {slice_eq_bm, str_eq_bm, vec_eq_bm, string_eq_bm, ref_slice_eq_bm, ref_str_eq_bm}.
         f xs m h = Ok (xs = bm_view h m, h))
    \<and> (\<forall>f \<in> {bm_partial_cmp_slice, bm_partial_cmp_str, bm_partial_cmp_vec, bm_partial_cmp_string,
              bm_partial_cmp_ref bm_partial_cmp_slice}.
         f m xs h = Ok (Some (lex_cmp (bm_view h m) xs), h))
    \<and> (\<forall>f \<in> {slice_partial_cmp_bm, str_partial_cmp_bm, string_partial_cmp_bm, ref_slice_partial_cmp_bm}.
         f xs m h = Ok (Some (lex_cmp xs (bm_view h m)), h))
    \<and> (\<forall>f \<in> {vec_partial_cmp_bm, ref_str_partial_cmp_bm}.
         f xs m h = Ok (Some (lex_cmp (bm_view h m) xs), h))
    \<and> bytes_eq_bm b m h = Ok (b_view h b = bm_view h m, h) \<and> bm_eq_bytes m b h = Ok (bm_view h m = b_view h b, h)"
  using readable_view [OF b_okD(1) [OF assms(1)]] readable_view [OF b_okD(1) [OF assms(2)]]
    bm_as_slice_ok [OF assms(3)] bm_as_slice_ok [OF assms(4)]
  by (simp add: bytes_compare_defs bm_compare_defs bytes_eq_bm_def bm_eq_bytes_def slice_cmp_lex eq_commute)

theorem comparisons_agree_witness:
  "\<exists>m h. bm_from_slice release_build [1, 2, 3] empty_heap = Ok (m, h)
    \<and> bytes_cmp bytes_new bytes_new h = Ok (Equal, h) \<and> bm_partial_cmp_vec m [1, 3] h = Ok (Some Less, h)
    \<and> vec_partial_cmp_bm [1, 3] m h = Ok (Some Less, h)"
proof -
  obtain m h where m: "bm_from_slice release_build [1, 2, 3] empty_heap = Ok (m, h)" "bm_ok h m" "bm_view h m = [1, 2, 3]"
    by (rule release_from_slice)
  from comparisons_agree [OF b_ok_new(1) b_ok_new(1) m(2) m(2), of "[1, 3]"] m
  show ?thesis by (simp add: b_ok_new(2) lex_cmp_def)
qed

section \<open>Where memory is not safe\<close>

text \<open>
  C20. In a build without overflow checks, \<open>reserve\<close> can hand out capacity that does not exist. The
  only handle of a shared vector, \<open>off\<close> bytes into it, compares the capacity of the vector with
  \<open>new_cap + off\<close>; when that sum wraps, the request is taken to fit, and the handle claims a capacity
  far beyond the end of the allocation, although no memory was allocated.
\<close>

theorem reserve_wraps:
  assumes "\<not> debug E" "bm_arc h m v off r 1" "bm_cap m - bm_len m < add" "bm_len m + add \<le> usize_max"
    and "usize_max < bm_len m + add + off"
  shows "bm_reserve E m add h = Ok (m\<lparr>bm_cap := bm_len m + add\<rparr>, h) \<and> rv_cap v < off + (bm_len m + add)"
proof -
  have s: "shared_at h (bm_data m) v r 1" and i: "bm_in h m v off" using assms(2) by (simp_all add: bm_arc_def)
  have v: "vec_ok h v" "off + bm_cap m \<le> rv_cap v" using i by (simp_all add: bm_in_def)
  have cap: "rv_cap v \<le> isize_max" by (rule vec_ok_bounds(3) [OF v(1)])
  have w: "(bm_len m + add + off) mod 2 ^ 64 = bm_len m + add + off - 2 ^ 64"
  proof -
    have "bm_len m + add + off < 2 * 2 ^ 64" using assms(4) v(2) cap by (simp add: usize_max_def isize_max_def)
    moreover have "2 ^ 64 \<le> bm_len m + add + off" using assms(5) by (simp add: usize_max_def)
    ultimately show ?thesis by (simp add: mod_if)
  qed
  then have "usize_add E (bm_len m + add) off = Ok (bm_len m + add + off - 2 ^ 64)"
    using assms(1,5) by (simp add: usize_add_def)
  moreover have "bm_len m + add + off - 2 ^ 64 \<le> rv_cap v" using assms(4) v(2) by (simp add: usize_max_def)
  ultimately have "reserve_unique E m (bm_len m + add) True h = Ok ((True, m\<lparr>bm_cap := bm_len m + add\<rparr>), h)"
    by (simp add: reserve_unique_def get_shared_ok [OF s] offset_from_in [OF i])
  moreover have "checked_add (bm_len m) add = Some (bm_len m + add)" using assms(4) by (simp add: checked_add_def)
  ultimately have "bm_reserve E m add h = Ok (m\<lparr>bm_cap := bm_len m + add\<rparr>, h)"
    using assms(3) by (simp add: bm_reserve_def reserve_inner_def kind_arc [OF assms(2)] shared_unique_def get_shared_ok [OF s])
  then show ?thesis using assms(5) cap by (simp add: usize_max_def isize_max_def)
qed

text \<open>A handle to the last three of four bytes of a vector, in a box that only it uses.\<close>

definition wrap_heap :: heap where
  "wrap_heap = \<lparr>blocks = [0 \<mapsto> Buffer 64 [Some 1, Some 2, Some 3, Some 4],
      1 \<mapsto> VecShared 128 \<lparr>rv_ptr = \<lparr>prov = Some 0, addr = 64\<rparr>, rv_len = 4, rv_cap = 4\<rparr> 0 1], fresh = 2\<rparr>"

definition wrap_handle :: bytes_mut where
  "wrap_handle = \<lparr>bm_ptr = \<lparr>prov = Some 0, addr = 65\<rparr>, bm_len = 3, bm_cap = 3, bm_data = \<lparr>prov = Some 1, addr = 128\<rparr>\<rparr>"

lemma wrap_arc:
  "bm_arc wrap_heap wrap_handle \<lparr>rv_ptr = \<lparr>prov = Some 0, addr = 64\<rparr>, rv_len = 4, rv_cap = 4\<rparr> 1 0 1"
  by (simp add: bm_arc_def bm_in_def vec_ok_def vcells_def shared_at_def wrap_heap_def wrap_handle_def ptr_add_def
      usize_max_def isize_max_def)

theorem reserve_wraps_witness:
  "\<exists>m'. bm_reserve release_build wrap_handle (usize_max - 3) wrap_heap = Ok (m', wrap_heap) \<and> bm_cap m' = usize_max"
  using reserve_wraps [OF _ wrap_arc, of release_build "usize_max - 3"]
  by (simp add: release_build_def wrap_handle_def usize_max_def)

text \<open>
  C19. A clone of a shared \<open>Bytes\<close> is not counted. \<open>shallow_clone_arc\<close> reads the count and does not raise
  it, so when the clone of the only handle is dropped, the bytes are freed under the original:
  reading it and dropping it are then undefined behaviour.
\<close>

theorem clone_not_counted:
  assumes "b_ok h b" "b_vtable b = SHARED_VTABLE" "arc_at h (b_data b) buf cap 1" "0 < b_len b"
  shows "\<exists>c h'. bytes_clone E b h = Ok ((c, b), h) \<and> bytes_drop E c h = Ok ((), h')
    \<and> bytes_as_slice b h' = Fault UndefinedBehaviour \<and> bytes_drop E b h' = Fault UndefinedBehaviour"
proof -
  let ?v = "\<lparr>rv_ptr = buf, rv_len = 0, rv_cap = cap\<rparr>"
  obtain s where s: "prov (b_data b) = Some s" "s < fresh h" "blocks h s = Some (ArcShared (addr (b_data b)) buf cap 1)"
    and cap: "0 < cap" and v: "vec_ok h ?v" using assms(3) by (auto simp: arc_at_def)
  obtain k where k: "prov buf = Some k" "blocks h k = Some (Buffer (addr buf) (vcells h ?v))" "length (vcells h ?v) = cap"
    using v cap vec_ok_bounds(5) [OF v] by (auto elim!: vec_okE)
  have ne: "k \<noteq> s" using k(2) s(3) by auto
  obtain buf' cap' n' off where a: "arc_at h (b_data b) buf' cap' n'" "b_ptr b = ptr_add buf' off"
    using assms(1,2) by (auto simp: b_ok_def b_arc_def)
  have "buf' = buf" using a(1) assms(3) by (auto simp: arc_at_def)
  then have p: "prov (b_ptr b) = Some k" using a(2) k(1) by simp
  let ?h1 = "h\<lparr>blocks := (blocks h)(s := Some (ArcShared (addr (b_data b)) buf cap 0))\<rparr>"
  let ?h2 = "h\<lparr>blocks := (blocks h)(s := None, k := None)\<rparr>"
  have "cap \<le> isize_max" using vec_ok_bounds(3) [OF v] by simp
  then have "drop_arc (b_data b) ?h1 = Ok ((), ?h2)"
    using s k ne cap by (simp add: drop_arc_def get_arc_def dealloc_def free_block_def fun_upd_twist)
  then have "release_arc (b_data b) h = Ok ((), ?h2)"
    using s by (simp add: release_arc_def arc_at_get [OF assms(3)] set_arc_def)
  moreover have "bytes_clone E b h = Ok ((b, b), h)"
    using assms(2) arc_at_get [OF assms(3)] by (cases b) (simp add: bytes_clone_def shallow_clone_arc_def half_max isize_max_def)
  moreover have "bytes_as_slice b ?h2 = Fault UndefinedBehaviour"
    using p assms(4) by (simp add: bytes_as_slice_def read_slice_def get_cells_def)
  moreover have "release_arc (b_data b) ?h2 = Fault UndefinedBehaviour"
    using s ne by (simp add: release_arc_def get_arc_def)
  ultimately show ?thesis using assms(2) by (intro exI [of _ b] exI [of _ ?h2]) (simp add: bytes_drop_def)
qed

text \<open>The only handle to two bytes, whose box counts it.\<close>

definition arc_heap :: heap where
  "arc_heap = \<lparr>blocks = [0 \<mapsto> Buffer 64 [Some 1, Some 2], 1 \<mapsto> ArcShared 128 \<lparr>prov = Some 0, addr = 64\<rparr> 2 1], fresh = 2\<rparr>"

definition arc_handle :: bytes where
  "arc_handle = \<lparr>b_ptr = \<lparr>prov = Some 0, addr = 64\<rparr>, b_len = 2, b_data = \<lparr>prov = Some 1, addr = 128\<rparr>, b_vtable = SHARED_VTABLE\<rparr>"

lemma arc_handle_ok:
  "arc_at arc_heap (b_data arc_handle) \<lparr>prov = Some 0, addr = 64\<rparr> 2 1" "b_ok arc_heap arc_handle"
proof -
  show a: "arc_at arc_heap (b_data arc_handle) \<lparr>prov = Some 0, addr = 64\<rparr> 2 1"
    by (simp add: arc_at_def vec_ok_def vcells_def arc_heap_def arc_handle_def isize_max_def usize_max_def)
  have "b_arc arc_heap arc_handle"
    unfolding b_arc_def using a by (intro exI conjI, assumption) (simp_all add: arc_handle_def ptr_add_def)
  then show "b_ok arc_heap arc_handle"
    by (simp add: b_ok_def readable_def arc_heap_def arc_handle_def read_slice_def get_cells_def)
qed

theorem clone_not_counted_witness:
  "\<exists>c h'. bytes_clone release_build arc_handle arc_heap = Ok ((c, arc_handle), arc_heap)
    \<and> bytes_drop release_build c arc_heap = Ok ((), h') \<and> bytes_as_slice arc_handle h' = Fault UndefinedBehaviour"
  using clone_not_counted [OF arc_handle_ok(2) _ arc_handle_ok(1), of release_build] by (auto simp: arc_handle_def)

end
