(* ===== verification/Coroutine_Sync.thy ===== *)
theory Coroutine_Sync
  imports Prelude
begin

text \<open>
  The synchronisation primitives of the coroutine crate (\<open>coroutine/src/sync\<close>): the exponential
  \<open>Backoff\<close>, the stamped lock \<open>SeqLock\<close>, and \<open>AtomicCell\<close>, whose operations are an atomic instruction
  when the layout of the type allows it and a critical section of a global \<open>SeqLock\<close> otherwise.

  The operations of one thread are functions of the cell and of its lock, for a thread that no
  other one disturbs. The lock is also a step relation in which the atomic accesses of any number
  of threads interleave, and so are the critical sections of a cell; memory is sequentially
  consistent.
\<close>

section \<open>Backoff\<close>

definition SPIN_LIMIT :: u32 where "SPIN_LIMIT = 6"

definition YIELD_LIMIT :: u32 where "YIELD_LIMIT = 10"

record backoff =
  step :: u32

definition backoff_new :: backoff where
  "backoff_new = \<lparr>step = 0\<rparr>"

definition backoff_reset :: "backoff \<Rightarrow> backoff" where
  "backoff_reset self = self\<lparr>step := 0\<rparr>"

text \<open>\<open>spin\<close>, with the number of times it calls \<open>spin_loop\<close>.\<close>

definition backoff_spin :: "backoff \<Rightarrow> nat \<times> backoff" where
  "backoff_spin self =
     (2 ^ unat (min (step self) SPIN_LIMIT),
      if step self \<le> SPIN_LIMIT then self\<lparr>step := step self + 1\<rparr> else self)"

text \<open>\<open>snooze\<close>, with whether it yields the thread.\<close>

definition backoff_snooze :: "backoff \<Rightarrow> bool \<times> backoff" where
  "backoff_snooze self =
     (\<not> step self \<le> SPIN_LIMIT,
      if step self < YIELD_LIMIT then self\<lparr>step := step self + 1\<rparr> else self)"

definition is_completed :: "backoff \<Rightarrow> bool" where
  "is_completed self = (step self > YIELD_LIMIT)"

section \<open>The stamped lock\<close>

text \<open>The lock is its state, a guard the state it holds.\<close>

definition seq_new :: usize where
  "seq_new = 0"

definition optimistic_read :: "usize \<Rightarrow> usize option" where
  "optimistic_read state = (if state = 1 then None else Some state)"

definition validate_read :: "usize \<Rightarrow> usize \<Rightarrow> bool" where
  "validate_read state stamp = (state = stamp)"

text \<open>One turn of the loop of \<open>write\<close>: the guard when it returns, and the lock.\<close>

definition seq_swap :: "usize \<Rightarrow> usize option \<times> usize" where
  "seq_swap state = (let previous = state in (if previous = 1 then Some previous else None, 1))"

function seq_write :: "usize \<Rightarrow> backoff \<Rightarrow> usize \<times> usize" where
  "seq_write state b =
     (case seq_swap state of
        (Some g, state') \<Rightarrow> (g, state')
      | (None, state') \<Rightarrow> seq_write state' (snd (backoff_snooze b)))"
  by auto
termination
  by (relation "measure (\<lambda>(state, b). if state = 1 then 0 else 1)")
    (auto simp: seq_swap_def Let_def split: if_splits)

declare seq_write.simps [simp del]

definition seq_abort :: "usize \<Rightarrow> usize" where
  "seq_abort g = g"

definition seq_drop :: "usize \<Rightarrow> usize" where
  "seq_drop g = (g + 2) mod 2 ^ 64"

section \<open>The layout of a type\<close>

record layout =
  size_of :: nat
  align_of :: nat

definition can_transmute :: "layout \<Rightarrow> layout \<Rightarrow> bool" where
  "can_transmute A B = ((size_of A = size_of B) \<and> (size_of A \<ge> size_of B))"

text \<open>The atomic types that \<open>atomic!\<close> tries: \<open>AtomicUnit\<close>, \<open>AtomicU8\<close>, \<open>AtomicU16\<close>, \<open>AtomicU32\<close>, \<open>AtomicU64\<close>.\<close>

definition atomic_types :: "layout list" where
  "atomic_types = map (\<lambda>(s, a). \<lparr>size_of = s, align_of = a\<rparr>) [(0, 1), (1, 1), (2, 2), (4, 4), (8, 8)]"

definition atomic_is_lock_free :: "layout \<Rightarrow> bool" where
  "atomic_is_lock_free T = list_ex (can_transmute T) atomic_types"

definition atomic :: "layout \<Rightarrow> 'r \<Rightarrow> 'r \<Rightarrow> 'r" where
  "atomic T atomic_op fallback_op = (if atomic_is_lock_free T then atomic_op else fallback_op)"

text \<open>The index of the global lock of an address.\<close>

definition lock_index :: "usize \<Rightarrow> usize" where
  "lock_index a = a mod 67"

section \<open>AtomicCell\<close>

text \<open>A cell with the state of the lock of its address.\<close>

record 'a atomic_cell =
  ac_value :: 'a
  ac_lock :: usize

definition cell_new :: "'a \<Rightarrow> usize \<Rightarrow> 'a atomic_cell" where
  "cell_new v l = \<lparr>ac_value = v, ac_lock = l\<rparr>"

definition cell_into_inner :: "'a atomic_cell \<Rightarrow> 'a" where
  "cell_into_inner self = ac_value self"

text \<open>
  A critical section that reads the old value, stores \<open>f\<close> of it and returns it, as the fallback
  of every operation that modifies does: \<open>let _guard = lock(..).write(); ..\<close>.
\<close>

definition locked_update :: "('a \<Rightarrow> 'a) \<Rightarrow> 'a atomic_cell \<Rightarrow> 'a \<times> 'a atomic_cell" where
  "locked_update f self =
     (let g = fst (seq_write (ac_lock self) backoff_new);
          old = ac_value self
      in (old, self\<lparr>ac_value := f old, ac_lock := seq_drop g\<rparr>))"

text \<open>The instruction: \<open>f\<close> of the old value in one step.\<close>

definition instr_update :: "('a \<Rightarrow> 'a) \<Rightarrow> 'a atomic_cell \<Rightarrow> 'a \<times> 'a atomic_cell" where
  "instr_update f self = (ac_value self, self\<lparr>ac_value := f (ac_value self)\<rparr>)"

definition atomic_load :: "layout \<Rightarrow> ('a, 'z) atomic_cell_scheme \<Rightarrow> 'a \<times> ('a, 'z) atomic_cell_scheme" where
  "atomic_load T self =
     atomic T (ac_value self, self)
       (let fallback = (let g = fst (seq_write (ac_lock self) backoff_new);
                            val = ac_value self
                        in (val, self\<lparr>ac_lock := seq_abort g\<rparr>))
        in case optimistic_read (ac_lock self) of
             Some stamp \<Rightarrow>
               (let val = ac_value self
                in if validate_read (ac_lock self) stamp then (val, self) else fallback)
           | None \<Rightarrow> fallback)"

definition atomic_store :: "layout \<Rightarrow> 'a \<Rightarrow> 'a atomic_cell \<Rightarrow> 'a atomic_cell" where
  "atomic_store T v self =
     atomic T (self\<lparr>ac_value := v\<rparr>)
       (let g = fst (seq_write (ac_lock self) backoff_new)
        in self\<lparr>ac_value := v, ac_lock := seq_drop g\<rparr>)"

text \<open>
  \<open>atomic_swap\<close> and \<open>atomic_compare_exchange_weak\<close> are not defined in the crate: they are the
  parameters \<open>sw\<close> and \<open>cx\<close> of the operations that use them.
\<close>

definition cell_swap :: "('a \<Rightarrow> 'a atomic_cell \<Rightarrow> 'a \<times> 'a atomic_cell) \<Rightarrow> 'a \<Rightarrow> 'a atomic_cell \<Rightarrow> 'a \<times> 'a atomic_cell" where
  "cell_swap sw v self = sw v self"

definition cell_store ::
    "('a \<Rightarrow> 'a atomic_cell \<Rightarrow> 'a \<times> 'a atomic_cell) \<Rightarrow> bool \<Rightarrow> layout \<Rightarrow> 'a \<Rightarrow> 'a atomic_cell \<Rightarrow> 'a atomic_cell" where
  "cell_store sw needs_drop T v self =
     (if needs_drop then snd (cell_swap sw v self) else atomic_store T v self)"

definition cell_take ::
    "('a \<Rightarrow> 'a atomic_cell \<Rightarrow> 'a \<times> 'a atomic_cell) \<Rightarrow> 'a \<Rightarrow> 'a atomic_cell \<Rightarrow> 'a \<times> 'a atomic_cell" where
  "cell_take sw dflt self = cell_swap sw dflt self"

definition cell_load :: "layout \<Rightarrow> ('a, 'z) atomic_cell_scheme \<Rightarrow> 'a \<times> ('a, 'z) atomic_cell_scheme" where
  "cell_load T self = atomic_load T self"

text \<open>
  \<open>Ok\<close> is \<open>Inr\<close> and \<open>Err\<close> is \<open>Inl\<close>. The cell of an exchange may have further fields, for what other threads
  do to it meanwhile.
\<close>

type_synonym ('a, 'z) cas =
  "'a \<Rightarrow> 'a \<Rightarrow> ('a, 'z) atomic_cell_scheme \<Rightarrow> ('a + 'a) \<times> ('a, 'z) atomic_cell_scheme"

definition cell_compare_exchange :: "('a, 'z) cas \<Rightarrow> ('a, 'z) cas" where
  "cell_compare_exchange cx current new self = cx current new self"

text \<open>
  The loop of \<open>fetch_update\<close> over the previous value, the result when it has one and the cell; it
  need not end, when the exchange keeps failing.
\<close>

definition fetch_update ::
    "('a, 'z) cas \<Rightarrow> layout \<Rightarrow> ('a \<Rightarrow> 'a option) \<Rightarrow> ('a, 'z) atomic_cell_scheme
     \<Rightarrow> (('a + 'a) \<times> ('a, 'z) atomic_cell_scheme) outcome" where
  "fetch_update cx T f self =
     (case cell_load T self of (previous, self) \<Rightarrow>
        omap (\<lambda>(previous, res, self). (case res of None \<Rightarrow> Inl previous | Some r \<Rightarrow> r, self))
          (loop (\<lambda>(previous, res, self). res = None \<and> f previous \<noteq> None)
             (\<lambda>(previous, res, self).
                case cell_compare_exchange cx previous (the (f previous)) self of
                  (Inr x, self) \<Rightarrow> Ok (previous, Some (Inr x), self)
                | (Inl next_previous, self) \<Rightarrow> Ok (next_previous, None, self))
             (previous, None, self)))"

subsection \<open>Booleans\<close>

definition bool_layout :: layout where
  "bool_layout = \<lparr>size_of = 1, align_of = 1\<rparr>"

definition bool_fetch_and :: "bool \<Rightarrow> bool atomic_cell \<Rightarrow> bool \<times> bool atomic_cell" where
  "bool_fetch_and value self =
     atomic bool_layout (instr_update (\<lambda>old. old \<and> value) self) (locked_update (\<lambda>old. old \<and> value) self)"

definition bool_fetch_nand :: "bool \<Rightarrow> bool atomic_cell \<Rightarrow> bool \<times> bool atomic_cell" where
  "bool_fetch_nand value self =
     atomic bool_layout (instr_update (\<lambda>old. \<not> (old \<and> value)) self) (locked_update (\<lambda>old. \<not> (old \<and> value)) self)"

definition bool_fetch_or :: "bool \<Rightarrow> bool atomic_cell \<Rightarrow> bool \<times> bool atomic_cell" where
  "bool_fetch_or value self =
     atomic bool_layout (instr_update (\<lambda>old. old \<or> value) self) (locked_update (\<lambda>old. old \<or> value) self)"

definition bool_fetch_xor :: "bool \<Rightarrow> bool atomic_cell \<Rightarrow> bool \<times> bool atomic_cell" where
  "bool_fetch_xor value self =
     atomic bool_layout (instr_update (\<lambda>old. old \<noteq> value) self) (locked_update (\<lambda>old. old \<noteq> value) self)"

subsection \<open>Integers\<close>

text \<open>
  The two arms of \<open>impl_arithmetic!\<close>, for a word of any length: \<open>fallback_\<close> is the arm for the types
  with no atomic instruction. \<open>le\<close> is the order of the type, unsigned or signed.
\<close>

type_synonym 'n word_rmw = "'n word \<Rightarrow> 'n word atomic_cell \<Rightarrow> 'n word \<times> 'n word atomic_cell"

definition fallback_fetch_add :: "'n::len word_rmw" where
  "fallback_fetch_add val self = locked_update (\<lambda>old. old + val) self"

definition fallback_fetch_sub :: "'n::len word_rmw" where
  "fallback_fetch_sub val self = locked_update (\<lambda>old. old - val) self"

definition fallback_fetch_and :: "'n::len word_rmw" where
  "fallback_fetch_and val self = locked_update (\<lambda>old. and old val) self"

definition fallback_fetch_nand :: "'n::len word_rmw" where
  "fallback_fetch_nand val self = locked_update (\<lambda>old. not (and old val)) self"

definition fallback_fetch_or :: "'n::len word_rmw" where
  "fallback_fetch_or val self = locked_update (\<lambda>old. or old val) self"

definition fallback_fetch_xor :: "'n::len word_rmw" where
  "fallback_fetch_xor val self = locked_update (\<lambda>old. xor old val) self"

definition fallback_fetch_max :: "('n word \<Rightarrow> 'n word \<Rightarrow> bool) \<Rightarrow> 'n::len word_rmw" where
  "fallback_fetch_max le val self = locked_update (\<lambda>old. if le old val then val else old) self"

definition fallback_fetch_min :: "('n word \<Rightarrow> 'n word \<Rightarrow> bool) \<Rightarrow> 'n::len word_rmw" where
  "fallback_fetch_min le val self = locked_update (\<lambda>old. if le old val then old else val) self"

definition fetch_add :: "layout \<Rightarrow> 'n::len word_rmw" where
  "fetch_add T val self =
     atomic T (instr_update (\<lambda>old. old + val) self) (locked_update (\<lambda>old. old + val) self)"

definition fetch_sub :: "layout \<Rightarrow> 'n::len word_rmw" where
  "fetch_sub T val self =
     atomic T (instr_update (\<lambda>old. old - val) self) (locked_update (\<lambda>old. old - val) self)"

definition fetch_and :: "layout \<Rightarrow> 'n::len word_rmw" where
  "fetch_and T val self =
     atomic T (instr_update (\<lambda>old. and old val) self) (locked_update (\<lambda>old. and old val) self)"

definition fetch_nand :: "layout \<Rightarrow> 'n::len word_rmw" where
  "fetch_nand T val self =
     atomic T (instr_update (\<lambda>old. not (and old val)) self) (locked_update (\<lambda>old. not (and old val)) self)"

definition fetch_or :: "layout \<Rightarrow> 'n::len word_rmw" where
  "fetch_or T val self =
     atomic T (instr_update (\<lambda>old. or old val) self) (locked_update (\<lambda>old. or old val) self)"

definition fetch_xor :: "layout \<Rightarrow> 'n::len word_rmw" where
  "fetch_xor T val self =
     atomic T (instr_update (\<lambda>old. xor old val) self) (locked_update (\<lambda>old. xor old val) self)"

definition fetch_max :: "('n word \<Rightarrow> 'n word \<Rightarrow> bool) \<Rightarrow> layout \<Rightarrow> 'n::len word_rmw" where
  "fetch_max le T val self =
     atomic T (instr_update (\<lambda>old. if le old val then val else old) self)
       (locked_update (\<lambda>old. if le old val then val else old) self)"

definition fetch_min :: "('n word \<Rightarrow> 'n word \<Rightarrow> bool) \<Rightarrow> layout \<Rightarrow> 'n::len word_rmw" where
  "fetch_min le T val self =
     atomic T (instr_update (\<lambda>old. if le old val then old else val) self)
       (locked_update (\<lambda>old. if le old val then old else val) self)"

section \<open>Many threads at one lock\<close>

text \<open>
  Where a thread is: it holds no guard, it turns in the loop of \<open>write\<close>, or it has a guard.
\<close>

datatype thread = Idle | Spinning | Holding usize

record lock_world =
  state :: usize
  threads :: "nat \<Rightarrow> thread"

definition world_new :: lock_world where
  "world_new = \<lparr>state = seq_new, threads = (\<lambda>_. Idle)\<rparr>"

inductive lock_step :: "lock_world \<Rightarrow> lock_world \<Rightarrow> bool" where
  call: "threads w t = Idle \<Longrightarrow> lock_step w (w\<lparr>threads := (threads w)(t := Spinning)\<rparr>)"
| acquire: "threads w t = Spinning \<Longrightarrow> seq_swap (state w) = (Some g, s) \<Longrightarrow>
    lock_step w (w\<lparr>state := s, threads := (threads w)(t := Holding g)\<rparr>)"
| again: "threads w t = Spinning \<Longrightarrow> seq_swap (state w) = (None, s) \<Longrightarrow> lock_step w (w\<lparr>state := s\<rparr>)"
| abort: "threads w t = Holding g \<Longrightarrow>
    lock_step w (w\<lparr>state := seq_abort g, threads := (threads w)(t := Idle)\<rparr>)"
| release: "threads w t = Holding g \<Longrightarrow>
    lock_step w (w\<lparr>state := seq_drop g, threads := (threads w)(t := Idle)\<rparr>)"

definition lock_reach :: "lock_world \<Rightarrow> bool" where
  "lock_reach w \<longleftrightarrow> lock_step\<^sup>*\<^sup>* world_new w"

end
