(* ===== verification/Coroutine_Cells.thy ===== *)
theory Coroutine_Cells
  imports Coroutine_Sync
begin

text \<open>
  The fallback of \<open>AtomicCell\<close> (\<open>sync/mod.rs\<close>, \<open>sync/atomic_macro.rs\<close>), for types without an atomic
  instruction, with any number of threads at one cell. The value is a list of machine words that
  are read and written one at a time; every access to a word or to the lock is a step. The
  operations are those of \<open>Coroutine_Sync\<close>, which a thread that runs undisturbed computes.
\<close>

section \<open>Threads at one cell\<close>

text \<open>\<open>OUpdate f\<close> is any of the operations \<open>fetch_\<close>, which store \<open>f\<close> of the old value.\<close>

datatype 'a cell_op = OLoad | OStore "'a list" | OUpdate "'a list \<Rightarrow> 'a list"

text \<open>
  Where a thread is: before \<open>optimistic_read\<close>; reading with a stamp; in the loop of \<open>write\<close>; reading with
  the guard; writing the words of the new value, from a position on; or it has returned a value.
\<close>

datatype 'a phase =
    CIdle
  | COptimistic
  | CRead usize "'a list"
  | CSpin "'a cell_op"
  | CHold usize "'a cell_op" "'a list"
  | CWrite usize "'a list" "'a list" nat
  | CRet "'a list"

record 'a cell_world =
  cw_lock :: usize
  cw_mem :: "'a list"
  cw_phase :: "nat \<Rightarrow> 'a phase"

definition cell_world_new :: "'a list \<Rightarrow> 'a cell_world" where
  "cell_world_new v = \<lparr>cw_lock = seq_new, cw_mem = v, cw_phase = (\<lambda>_. CIdle)\<rparr>"

abbreviation goto :: "nat \<Rightarrow> 'a phase \<Rightarrow> 'a cell_world \<Rightarrow> 'a cell_world" where
  "goto t p w \<equiv> w\<lparr>cw_phase := (cw_phase w)(t := p)\<rparr>"

text \<open>\<open>ops\<close> are the modifications that the threads make. A store does not read the old value.\<close>

inductive cell_step :: "'a cell_op set \<Rightarrow> 'a cell_world \<Rightarrow> 'a cell_world \<Rightarrow> bool"
  for ops where
  c_load: "cw_phase w t = CIdle \<Longrightarrow> cell_step ops w (goto t COptimistic w)"
| c_modify: "cw_phase w t = CIdle \<Longrightarrow> op \<in> ops \<Longrightarrow> cell_step ops w (goto t (CSpin op) w)"
| c_optimistic: "cw_phase w t = COptimistic \<Longrightarrow>
    cell_step ops w (goto t (case optimistic_read (cw_lock w) of Some stamp \<Rightarrow> CRead stamp [] | None \<Rightarrow> CSpin OLoad) w)"
| c_read: "cw_phase w t = CRead stamp val \<Longrightarrow> length val < length (cw_mem w) \<Longrightarrow>
    cell_step ops w (goto t (CRead stamp (val @ [cw_mem w ! length val])) w)"
| c_validate: "cw_phase w t = CRead stamp val \<Longrightarrow> length val = length (cw_mem w) \<Longrightarrow>
    cell_step ops w (goto t (if validate_read (cw_lock w) stamp then CRet val else CSpin OLoad) w)"
| c_acquire: "cw_phase w t = CSpin op \<Longrightarrow> seq_swap (cw_lock w) = (Some g, s) \<Longrightarrow>
    cell_step ops w (goto t (case op of OStore v \<Rightarrow> CWrite g [] v 0 | _ \<Rightarrow> CHold g op []) (w\<lparr>cw_lock := s\<rparr>))"
| c_again: "cw_phase w t = CSpin op \<Longrightarrow> seq_swap (cw_lock w) = (None, s) \<Longrightarrow> cell_step ops w (w\<lparr>cw_lock := s\<rparr>)"
| c_hold: "cw_phase w t = CHold g op val \<Longrightarrow> length val < length (cw_mem w) \<Longrightarrow>
    cell_step ops w (goto t (CHold g op (val @ [cw_mem w ! length val])) w)"
| c_abort: "cw_phase w t = CHold g OLoad val \<Longrightarrow> length val = length (cw_mem w) \<Longrightarrow>
    cell_step ops w (goto t (CRet val) (w\<lparr>cw_lock := seq_abort g\<rparr>))"
| c_compute: "cw_phase w t = CHold g (OUpdate f) val \<Longrightarrow> length val = length (cw_mem w) \<Longrightarrow>
    cell_step ops w (goto t (CWrite g val (f val) 0) w)"
| c_write: "cw_phase w t = CWrite g old v i \<Longrightarrow> i < length (cw_mem w) \<Longrightarrow>
    cell_step ops w (goto t (CWrite g old v (Suc i)) (w\<lparr>cw_mem := (cw_mem w)[i := v ! i]\<rparr>))"
| c_release: "cw_phase w t = CWrite g old v i \<Longrightarrow> i = length (cw_mem w) \<Longrightarrow>
    cell_step ops w (goto t (CRet old) (w\<lparr>cw_lock := seq_drop g\<rparr>))"
| c_next: "cw_phase w t = CRet val \<Longrightarrow> cell_step ops w (goto t CIdle w)"

definition cell_reach :: "'a cell_op set \<Rightarrow> 'a list \<Rightarrow> 'a cell_world \<Rightarrow> bool" where
  "cell_reach ops v w \<longleftrightarrow> (cell_step ops)\<^sup>*\<^sup>* (cell_world_new v) w"

abbreviation cell_steps :: "'a cell_op set \<Rightarrow> 'a cell_world \<Rightarrow> 'a cell_world \<Rightarrow> bool" where
  "cell_steps ops \<equiv> (cell_step ops)\<^sup>*\<^sup>*"

lemma reach_steps: "cell_reach ops v w \<Longrightarrow> cell_steps ops w w' \<Longrightarrow> cell_reach ops v w'"
  by (simp add: cell_reach_def)

lemma step_length: "cell_step ops w w' \<Longrightarrow> length (cw_mem w') = length (cw_mem w)"
  by (induction rule: cell_step.induct) simp_all

lemma reach_length: "cell_reach ops v w \<Longrightarrow> length (cw_mem w) = length v"
proof -
  have "cell_steps ops w w' \<Longrightarrow> length (cw_mem w') = length (cw_mem w)" for w w' :: "'a cell_world"
    by (induction rule: rtranclp_induct) (simp_all add: step_length)
  then show "cell_reach ops v w \<Longrightarrow> ?thesis" by (fastforce simp: cell_reach_def cell_world_new_def)
qed

section \<open>Stretches of a run\<close>

text \<open>One thread moves, from a phase that is known, and the world is written out.\<close>

lemma spin_acquires:
  assumes "P t = CSpin op"
  shows "cell_steps ops \<lparr>cw_lock = l, cw_mem = m, cw_phase = P\<rparr>
    \<lparr>cw_lock = 1, cw_mem = m, cw_phase = P(t := case op of OStore v \<Rightarrow> CWrite 1 [] v 0 | _ \<Rightarrow> CHold 1 op [])\<rparr>"
    (is "cell_steps ops ?w ?w2")
proof -
  let ?w1 = "\<lparr>cw_lock = 1, cw_mem = m, cw_phase = P\<rparr>"
  have "cell_steps ops ?w ?w1"
  proof (cases "l = 1")
    case False
    have "cell_step ops ?w (?w\<lparr>cw_lock := 1\<rparr>)" by (rule c_again [of _ t op]) (use assms False in \<open>simp_all add: seq_swap_def\<close>)
    then show ?thesis by simp
  qed simp
  moreover have "cell_step ops ?w1 ?w2"
    using c_acquire [of ?w1 t op 1 1 ops] assms by (simp add: seq_swap_def)
  ultimately show ?thesis by (rule rtranclp.rtrancl_into_rtrancl)
qed

lemma hold_reads:
  assumes "P t = CHold g op (take k m)" "k \<le> length m"
  shows "cell_steps ops \<lparr>cw_lock = l, cw_mem = m, cw_phase = P\<rparr>
    \<lparr>cw_lock = l, cw_mem = m, cw_phase = P(t := CHold g op m)\<rparr>"
  using assms
proof (induction "length m - k" arbitrary: k P)
  case 0
  then have "P(t := CHold g op m) = P" by (auto simp: fun_eq_iff)
  then show ?case by simp
next
  case (Suc n)
  let ?P = "P(t := CHold g op (take (Suc k) m))"
  have k: "k < length m" using Suc.hyps(2) by simp
  then have "cell_step ops \<lparr>cw_lock = l, cw_mem = m, cw_phase = P\<rparr> \<lparr>cw_lock = l, cw_mem = m, cw_phase = ?P\<rparr>"
    using c_hold [of "\<lparr>cw_lock = l, cw_mem = m, cw_phase = P\<rparr>" t g op "take k m" ops] Suc.prems
    by (simp add: take_Suc_conv_app_nth)
  moreover have "cell_steps ops \<lparr>cw_lock = l, cw_mem = m, cw_phase = ?P\<rparr>
      \<lparr>cw_lock = l, cw_mem = m, cw_phase = ?P(t := CHold g op m)\<rparr>"
    by (rule Suc.hyps(1)) (use Suc.hyps(2) k in auto)
  ultimately show ?case by (simp add: converse_rtranclp_into_rtranclp)
qed

lemma write_ends:
  assumes "P t = CWrite g old v i" "i \<le> length m" "length v = length m"
  shows "cell_steps ops \<lparr>cw_lock = l, cw_mem = m, cw_phase = P\<rparr>
    \<lparr>cw_lock = seq_drop g, cw_mem = take i m @ drop i v, cw_phase = P(t := CRet old)\<rparr>"
  using assms
proof (induction "length m - i" arbitrary: i m P)
  case 0
  then have i: "i = length m" by simp
  have "cell_step ops \<lparr>cw_lock = l, cw_mem = m, cw_phase = P\<rparr>
      (goto t (CRet old) (\<lparr>cw_lock = l, cw_mem = m, cw_phase = P\<rparr>\<lparr>cw_lock := seq_drop g\<rparr>))"
    by (rule c_release [of _ _ _ _ v i]) (simp_all add: 0(2) i)
  then have "cell_step ops \<lparr>cw_lock = l, cw_mem = m, cw_phase = P\<rparr>
      \<lparr>cw_lock = seq_drop g, cw_mem = take i m @ drop i v, cw_phase = P(t := CRet old)\<rparr>" using i 0(4) by simp
  then show ?case by (rule r_into_rtranclp)
next
  case (Suc n)
  let ?P = "P(t := CWrite g old v (Suc i))" and ?m = "m[i := v ! i]"
  have i: "i < length m" using Suc.hyps(2) by simp
  have "cell_step ops \<lparr>cw_lock = l, cw_mem = m, cw_phase = P\<rparr>
      (goto t (CWrite g old v (Suc i)) (\<lparr>cw_lock = l, cw_mem = m, cw_phase = P\<rparr>\<lparr>cw_mem := (cw_mem \<lparr>cw_lock = l, cw_mem = m, cw_phase = P\<rparr>)[i := v ! i]\<rparr>))"
    by (rule c_write) (simp_all add: Suc.prems(1) i)
  then have 1: "cell_step ops \<lparr>cw_lock = l, cw_mem = m, cw_phase = P\<rparr> \<lparr>cw_lock = l, cw_mem = ?m, cw_phase = ?P\<rparr>" by simp
  have n: "n = length ?m - Suc i" "Suc i \<le> length ?m" "length v = length ?m" using Suc.hyps(2) i Suc.prems(3) by simp_all
  have "?P t = CWrite g old v (Suc i)" by simp
  from Suc.hyps(1) [where m = ?m and i = "Suc i" and P = ?P, OF n(1) this n(2,3)]
  have 2: "cell_steps ops \<lparr>cw_lock = l, cw_mem = ?m, cw_phase = ?P\<rparr>
      \<lparr>cw_lock = seq_drop g, cw_mem = take (Suc i) ?m @ drop (Suc i) v, cw_phase = ?P(t := CRet old)\<rparr>" .
  have "take (Suc i) ?m = take i m @ [v ! i]" using i by (simp add: take_Suc_conv_app_nth)
  moreover have "v ! i # drop (Suc i) v = drop i v" using i Suc.prems(3) by (intro Cons_nth_drop_Suc) simp
  ultimately have 3: "take (Suc i) ?m @ drop (Suc i) v = take i m @ drop i v" by simp
  from converse_rtranclp_into_rtranclp [of "cell_step ops", OF 1 2] show ?case unfolding 3 by simp
qed

text \<open>The first half of an update, up to the old value, and the second half.\<close>

lemma update_begins:
  assumes "P t = CIdle" "OUpdate f \<in> ops"
  shows "cell_steps ops \<lparr>cw_lock = l, cw_mem = m, cw_phase = P\<rparr>
    \<lparr>cw_lock = 1, cw_mem = m, cw_phase = P(t := CHold 1 (OUpdate f) m)\<rparr>"
proof -
  have "cell_step ops \<lparr>cw_lock = l, cw_mem = m, cw_phase = P\<rparr> \<lparr>cw_lock = l, cw_mem = m, cw_phase = P(t := CSpin (OUpdate f))\<rparr>"
    using c_modify [of "\<lparr>cw_lock = l, cw_mem = m, cw_phase = P\<rparr>" t "OUpdate f" ops] assms by simp
  also have "cell_steps ops \<dots> \<lparr>cw_lock = 1, cw_mem = m, cw_phase = P(t := CHold 1 (OUpdate f) [])\<rparr>"
    using spin_acquires [of "P(t := CSpin (OUpdate f))" t "OUpdate f" ops l m] by simp
  also have "cell_steps ops \<dots> \<lparr>cw_lock = 1, cw_mem = m, cw_phase = P(t := CHold 1 (OUpdate f) m)\<rparr>"
    using hold_reads [of "P(t := CHold 1 (OUpdate f) [])" t 1 "OUpdate f" 0 m ops 1] by simp
  finally show ?thesis .
qed

lemma update_ends:
  assumes "P t = CHold g (OUpdate f) old" "length old = length m" "length (f old) = length m"
  shows "cell_steps ops \<lparr>cw_lock = l, cw_mem = m, cw_phase = P\<rparr>
    \<lparr>cw_lock = seq_drop g, cw_mem = f old, cw_phase = P(t := CRet old)\<rparr>"
proof -
  have "cell_step ops \<lparr>cw_lock = l, cw_mem = m, cw_phase = P\<rparr> \<lparr>cw_lock = l, cw_mem = m, cw_phase = P(t := CWrite g old (f old) 0)\<rparr>"
    using c_compute [of "\<lparr>cw_lock = l, cw_mem = m, cw_phase = P\<rparr>" t g f old ops] assms by simp
  also have "cell_steps ops \<dots> \<lparr>cw_lock = seq_drop g, cw_mem = f old, cw_phase = P(t := CRet old)\<rparr>"
    using write_ends [of "P(t := CWrite g old (f old) 0)" t g old "f old" 0 m ops l] assms(3) by simp
  finally show ?thesis .
qed

lemma store_runs:
  assumes "P t = CIdle" "OStore v \<in> ops" "length v = length m"
  shows "cell_steps ops \<lparr>cw_lock = l, cw_mem = m, cw_phase = P\<rparr> \<lparr>cw_lock = seq_drop 1, cw_mem = v, cw_phase = P(t := CRet [])\<rparr>"
proof -
  have "cell_step ops \<lparr>cw_lock = l, cw_mem = m, cw_phase = P\<rparr> \<lparr>cw_lock = l, cw_mem = m, cw_phase = P(t := CSpin (OStore v))\<rparr>"
    using c_modify [of "\<lparr>cw_lock = l, cw_mem = m, cw_phase = P\<rparr>" t "OStore v" ops] assms by simp
  also have "cell_steps ops \<dots> \<lparr>cw_lock = 1, cw_mem = m, cw_phase = P(t := CWrite 1 [] v 0)\<rparr>"
    using spin_acquires [of "P(t := CSpin (OStore v))" t "OStore v" ops l m] by simp
  also have "cell_steps ops \<dots> \<lparr>cw_lock = seq_drop 1, cw_mem = v, cw_phase = P(t := CRet [])\<rparr>"
    using write_ends [of "P(t := CWrite 1 [] v 0)" t 1 "[]" v 0 m ops 1] assms(3) by simp
  finally show ?thesis .
qed

section \<open>What the lock does not prevent\<close>

text \<open>Two updates that overlap: both read the same old value.\<close>

lemma update_lost:
  assumes l: "length (f v) = length v"
  shows "\<exists>w. cell_reach {OUpdate f} v w \<and> cw_phase w 0 = CRet v \<and> cw_phase w 1 = CRet v \<and> cw_mem w = f v"
proof -
  let ?ops = "{OUpdate f}" and ?h = "CHold 1 (OUpdate f) v"
  define P where "P = (\<lambda>_ :: nat. CIdle)(0 := ?h, 1 := ?h)"
  have p: "P 0 = ?h" "P 1 = ?h" by (simp_all add: P_def)
  let ?w = "\<lparr>cw_lock = seq_drop 1, cw_mem = f v, cw_phase = P(0 := CRet v, 1 := CRet v)\<rparr>"
  have 1: "cell_steps ?ops (cell_world_new v) \<lparr>cw_lock = 1, cw_mem = v, cw_phase = (\<lambda>_. CIdle)(0 := ?h)\<rparr>"
    unfolding cell_world_new_def by (rule update_begins) simp_all
  have 2: "cell_steps ?ops \<lparr>cw_lock = 1, cw_mem = v, cw_phase = (\<lambda>_. CIdle)(0 := ?h)\<rparr> \<lparr>cw_lock = 1, cw_mem = v, cw_phase = P\<rparr>"
    unfolding P_def by (rule update_begins) simp_all
  have 3: "cell_steps ?ops \<lparr>cw_lock = 1, cw_mem = v, cw_phase = P\<rparr> \<lparr>cw_lock = seq_drop 1, cw_mem = f v, cw_phase = P(0 := CRet v)\<rparr>"
    by (rule update_ends [where m = v and P = P and t = 0 and f = f and old = v, OF p(1) refl l])
  have "(P(0 := CRet v)) 1 = ?h" using p(2) by simp
  from update_ends [where m = "f v" and P = "P(0 := CRet v)" and t = 1 and f = f and old = v, OF this l [symmetric] refl]
  have 4: "cell_steps ?ops \<lparr>cw_lock = seq_drop 1, cw_mem = f v, cw_phase = P(0 := CRet v)\<rparr> ?w" .
  have "cell_reach ?ops v ?w" using 1 2 3 4 unfolding cell_reach_def by (meson rtranclp_trans)
  then show ?thesis by (intro exI [of _ ?w] conjI) simp_all
qed

text \<open>A load whose second word is read after a whole store: the stamp is the same as before.\<close>

lemma load_torn:
  "\<exists>w. cell_reach {OStore [a, b], OStore [c, d]} [a, b] w \<and> cw_phase w 1 = CRet [a, d]"
proof -
  let ?ops = "{OStore [a, b], OStore [c, d]}" and ?r = "CRead (seq_drop 1)"
  let ?w = "\<lambda>m p q. \<lparr>cw_lock = seq_drop 1, cw_mem = m, cw_phase = (\<lambda>_. CIdle)(1 := q, 0 := p)\<rparr>"
  have s: "optimistic_read (seq_drop 1) = Some (seq_drop 1)" "validate_read (seq_drop 1) (seq_drop 1)"
    by (simp_all add: optimistic_read_def validate_read_def seq_drop_def)
  have st: "cell_steps ?ops (\<lparr>cw_lock = l, cw_mem = m, cw_phase = (\<lambda>_. CIdle)(1 := q, 0 := CIdle)\<rparr>) (?w v (CRet []) q)"
    if "v \<in> {[a, b], [c, d]}" "length m = 2" for l m q v
  proof -
    have "cell_steps ?ops (\<lparr>cw_lock = l, cw_mem = m, cw_phase = (\<lambda>_. CIdle)(1 := q, 0 := CIdle)\<rparr>)
        \<lparr>cw_lock = seq_drop 1, cw_mem = v, cw_phase = ((\<lambda>_. CIdle)(1 := q, 0 := CIdle))(0 := CRet [])\<rparr>"
      by (rule store_runs) (use that in auto)
    then show ?thesis by simp
  qed
  have "cell_world_new [a, b] = \<lparr>cw_lock = 0, cw_mem = [a, b], cw_phase = (\<lambda>_. CIdle)(1 := CIdle, 0 := CIdle)\<rparr>"
    by (simp add: cell_world_new_def seq_new_def fun_eq_iff)
  with st [of "[a, b]" "[a, b]" 0 CIdle] have "cell_steps ?ops (cell_world_new [a, b]) (?w [a, b] (CRet []) CIdle)" by simp
  also have "cell_step ?ops \<dots> (?w [a, b] (CRet []) COptimistic)"
    using c_load [of "?w [a, b] (CRet []) CIdle" 1 ?ops] by (simp add: fun_upd_twist)
  also have "cell_step ?ops \<dots> (?w [a, b] (CRet []) (?r []))"
    using c_optimistic [of "?w [a, b] (CRet []) COptimistic" 1 ?ops] s(1) by (simp add: fun_upd_twist)
  also have "cell_step ?ops \<dots> (?w [a, b] (CRet []) (?r [a]))"
    using c_read [of "?w [a, b] (CRet []) (?r [])" 1 "seq_drop 1" "[]" ?ops] by (simp add: fun_upd_twist)
  also have "cell_step ?ops \<dots> (?w [a, b] CIdle (?r [a]))"
    using c_next [of "?w [a, b] (CRet []) (?r [a])" 0 "[]" ?ops] by simp
  also have "cell_steps ?ops \<dots> (?w [c, d] (CRet []) (?r [a]))" by (rule st) simp_all
  also have "cell_step ?ops \<dots> (?w [c, d] (CRet []) (?r [a, d]))"
    using c_read [of "?w [c, d] (CRet []) (?r [a])" 1 "seq_drop 1" "[a]" ?ops] by (simp add: fun_upd_twist)
  also have "cell_step ?ops \<dots> (?w [c, d] (CRet []) (CRet [a, d]))"
    using c_validate [of "?w [c, d] (CRet []) (?r [a, d])" 1 "seq_drop 1" "[a, d]" ?ops] s(2) by (simp add: fun_upd_twist)
  finally have "cell_reach ?ops [a, b] (?w [c, d] (CRet []) (CRet [a, d]))" unfolding cell_reach_def .
  moreover have "cw_phase (?w [c, d] (CRet []) (CRet [a, d])) 1 = CRet [a, d]" by simp
  ultimately show ?thesis by blast
qed

end
