(* ===== verification/Coroutine_Runtime.thy ===== *)
theory Coroutine_Runtime
  imports Memory
begin

text \<open>
  The generator runtime (\<open>coroutine/src/runtime.rs\<close>, \<open>guard.rs\<close>, \<open>error.rs\<close>): the contexts of the
  generators of a thread, linked from the root by \<open>parent\<close>, and the typed slots through which values
  are passed to a generator and back.

  Contexts and slots live at addresses, and 0 is the null pointer. A slot is an \<open>Option<T>\<close> behind a
  \<open>*mut dyn Any\<close>: it carries the identity of \<open>T\<close>. Looking behind a pointer to nothing, or at a slot as
  if it had another type, is undefined behaviour.
\<close>

section \<open>Contexts\<close>

datatype coroutine_error = ErrDone | ErrCancel | ErrTypeErr | ErrStackErr | ErrContextErr

record gen_context =
  regs :: "usize list"
  child :: nat
  parent :: nat
  para :: nat
  ret_ptr :: nat
  ref_cnt :: usize
  local_data :: nat
  err :: "coroutine_error option"
  stack_guard :: "usize \<times> usize"

definition register_new :: "usize list" where
  "register_new = replicate 8 0"

definition context_new :: gen_context where
  "context_new =
     \<lparr>regs = register_new, child = 0, parent = 0, para = 0, ret_ptr = 0, ref_cnt = 1,
      local_data = 0, err = None, stack_guard = (0, 0)\<rparr>"

text \<open>The thread: its contexts, the slots, the thread-local root and the next free address.\<close>

record 'v runtime =
  ctxs :: "nat \<Rightarrow> gen_context option"
  slots :: "nat \<Rightarrow> (nat \<times> 'v option) option"
  root_context_p :: nat
  next_addr :: nat

definition deref_ctx :: "'v runtime \<Rightarrow> nat \<Rightarrow> gen_context outcome" where
  "deref_ctx rt p = (case ctxs rt p of Some c \<Rightarrow> Ok c | None \<Rightarrow> Fault UndefinedBehaviour)"

text \<open>\<open>Context::is_generator\<close> of the context at \<open>p\<close>.\<close>

definition ctx_is_generator :: "nat \<Rightarrow> gen_context \<Rightarrow> bool" where
  "ctx_is_generator p self = (parent self \<noteq> p)"

section \<open>Passing values\<close>

definition deref_slot :: "'v runtime \<Rightarrow> nat \<Rightarrow> (nat \<times> 'v option) outcome" where
  "deref_slot rt p = (case slots rt p of Some s \<Rightarrow> Ok s | None \<Rightarrow> Fault UndefinedBehaviour)"

text \<open>\<open>T\<close> is the identity of the type; \<open>type_error\<close> is a panic.\<close>

definition get_para :: "nat \<Rightarrow> gen_context \<Rightarrow> 'v runtime \<Rightarrow> ('v option \<times> 'v runtime) outcome" where
  "get_para T self rt =
     obind (guard (para self \<noteq> 0) PanicAssert) (\<lambda>_.
     obind (deref_slot rt (para self)) (\<lambda>(tid, v).
       if tid = T then Ok (v, rt\<lparr>slots := (slots rt)(para self \<mapsto> (tid, None))\<rparr>)
       else Fault PanicExplicit))"

definition coroutine_get_para ::
    "build \<Rightarrow> nat \<Rightarrow> gen_context \<Rightarrow> 'v runtime \<Rightarrow> ('v option \<times> 'v runtime) outcome" where
  "coroutine_get_para E T self rt =
     obind (guard (debug E \<longrightarrow> para self \<noteq> 0) PanicAssert) (\<lambda>_.
     obind (deref_slot rt (para self)) (\<lambda>(tid, v).
       if tid = T then Ok (v, rt\<lparr>slots := (slots rt)(para self \<mapsto> (tid, None))\<rparr>)
       else Fault UndefinedBehaviour))"

definition coroutine_set_para ::
    "build \<Rightarrow> nat \<Rightarrow> 'v \<Rightarrow> gen_context \<Rightarrow> 'v runtime \<Rightarrow> 'v runtime outcome" where
  "coroutine_set_para E T data self rt =
     obind (guard (debug E \<longrightarrow> para self \<noteq> 0) PanicAssert) (\<lambda>_.
     obind (deref_slot rt (para self)) (\<lambda>(tid, v).
       if tid = T then Ok (rt\<lparr>slots := (slots rt)(para self \<mapsto> (tid, Some data))\<rparr>)
       else Fault UndefinedBehaviour))"

definition set_ret :: "build \<Rightarrow> nat \<Rightarrow> 'v \<Rightarrow> gen_context \<Rightarrow> 'v runtime \<Rightarrow> 'v runtime outcome" where
  "set_ret E T v self rt =
     obind (guard (debug E \<longrightarrow> ret_ptr self \<noteq> 0) PanicAssert) (\<lambda>_.
     obind (deref_slot rt (ret_ptr self)) (\<lambda>(tid, _).
       if tid = T then Ok (rt\<lparr>slots := (slots rt)(ret_ptr self \<mapsto> (tid, Some v))\<rparr>)
       else Fault PanicExplicit))"

definition coroutine_set_ret ::
    "build \<Rightarrow> nat \<Rightarrow> 'v \<Rightarrow> gen_context \<Rightarrow> 'v runtime \<Rightarrow> 'v runtime outcome" where
  "coroutine_set_ret E T v self rt =
     obind (guard (debug E \<longrightarrow> ret_ptr self \<noteq> 0) PanicAssert) (\<lambda>_.
     obind (deref_slot rt (ret_ptr self)) (\<lambda>(tid, _).
       if tid = T then Ok (rt\<lparr>slots := (slots rt)(ret_ptr self \<mapsto> (tid, Some v))\<rparr>)
       else Fault UndefinedBehaviour))"

section \<open>The stack of contexts\<close>

definition init_root :: "'v runtime \<Rightarrow> nat \<times> 'v runtime" where
  "init_root rt =
     (let p = next_addr rt
      in (p, rt\<lparr>ctxs := (ctxs rt)(p \<mapsto> context_new\<lparr>parent := p\<rparr>), root_context_p := p,
                next_addr := Suc p\<rparr>))"

definition current :: "'v runtime \<Rightarrow> nat \<times> 'v runtime" where
  "current rt = (let root = root_context_p rt in if root = 0 then init_root rt else (root, rt))"

text \<open>\<open>top\<close> and \<open>coroutine_ctx\<close> return the address of the context.\<close>

definition top_ctx :: "nat \<Rightarrow> 'v runtime \<Rightarrow> nat outcome" where
  "top_ctx root rt =
     obind (deref_ctx rt root) (\<lambda>r. obind (deref_ctx rt (parent r)) (\<lambda>_. Ok (parent r)))"

text \<open>
  The loop of \<open>coroutine_ctx\<close> and of \<open>get_local_data\<close>: it stops at a context with local data or at the
  root.
\<close>

definition search_local :: "nat \<Rightarrow> 'v runtime \<Rightarrow> nat \<Rightarrow> nat outcome" where
  "search_local root rt ctx =
     loop (\<lambda>ctx. ctx \<noteq> root \<and> local_data (the (ctxs rt ctx)) = 0)
       (\<lambda>ctx. obind (deref_ctx rt ctx) (\<lambda>c. obind (deref_ctx rt (parent c)) (\<lambda>_. Ok (parent c)))) ctx"

definition coroutine_ctx :: "nat \<Rightarrow> 'v runtime \<Rightarrow> nat option outcome" where
  "coroutine_ctx root rt =
     obind (top_ctx root rt) (\<lambda>ctx.
     obind (search_local root rt ctx) (\<lambda>ctx.
       Ok (if ctx = root then None else Some ctx)))"

definition is_generator :: "'v runtime \<Rightarrow> (bool \<times> 'v runtime) outcome" where
  "is_generator rt =
     (case current rt of (root, rt) \<Rightarrow>
        obind (deref_ctx rt root) (\<lambda>r. Ok (child r \<noteq> 0, rt)))"

definition get_local_data :: "'v runtime \<Rightarrow> (nat \<times> 'v runtime) outcome" where
  "get_local_data rt =
     (case current rt of (root, rt) \<Rightarrow>
        obind (top_ctx root rt) (\<lambda>ctx.
        obind (search_local root rt ctx) (\<lambda>ctx.
          if ctx = root then Ok (0, rt)
          else obind (deref_ctx rt ctx) (\<lambda>c. Ok (local_data c, rt)))))"

definition is_coroutine :: "'v runtime \<Rightarrow> (bool \<times> 'v runtime) outcome" where
  "is_coroutine rt = omap (\<lambda>(p, rt). (p \<noteq> 0, rt)) (get_local_data rt)"

text \<open>\<open>guard::current\<close>: the range of addresses of the guard page and the stack.\<close>

definition guard_current :: "build \<Rightarrow> usize \<Rightarrow> 'v runtime \<Rightarrow> ((usize \<times> usize) \<times> 'v runtime) outcome" where
  "guard_current E page_size rt =
     obind (is_generator rt) (\<lambda>(b, rt).
     obind (guard b PanicAssert) (\<lambda>_.
     case current rt of (root, rt) \<Rightarrow>
     obind (deref_ctx rt root) (\<lambda>r.
     obind (deref_ctx rt (child r)) (\<lambda>c.
     obind (usize_sub E (fst (stack_guard c)) page_size) (\<lambda>lo.
       Ok ((lo, snd (stack_guard c)), rt))))))"

section \<open>The parent chain\<close>

text \<open>The contexts from \<open>p\<close> to the root, which is not one of them.\<close>

fun chain_to_root :: "(nat \<Rightarrow> gen_context option) \<Rightarrow> nat \<Rightarrow> nat \<Rightarrow> nat list \<Rightarrow> bool" where
  "chain_to_root H root p [] \<longleftrightarrow> p = root"
| "chain_to_root H root p (q # qs) \<longleftrightarrow>
     p = q \<and> q \<noteq> root \<and> (case H q of None \<Rightarrow> False | Some c \<Rightarrow> chain_to_root H root (parent c) qs)"

definition has_local :: "'v runtime \<Rightarrow> nat \<Rightarrow> bool" where
  "has_local rt p \<longleftrightarrow> (case ctxs rt p of Some c \<Rightarrow> local_data c \<noteq> 0 | None \<Rightarrow> False)"

lemma chain_start:
  "chain_to_root H root p qs \<Longrightarrow> H root \<noteq> None \<Longrightarrow> H p \<noteq> None"
  by (cases qs) (auto split: option.splits)

lemma search_local_chain:
  assumes "chain_to_root (ctxs rt) root p qs" "ctxs rt root \<noteq> None"
  shows "search_local root rt p = Ok (case find (has_local rt) qs of Some q \<Rightarrow> q | None \<Rightarrow> root)"
  using assms(1)
proof (induction qs arbitrary: p)
  case Nil
  then show ?case by (simp add: search_local_def loop_done)
next
  case (Cons q qs)
  then obtain c where c: "ctxs rt q = Some c" "p = q" "q \<noteq> root" "chain_to_root (ctxs rt) root (parent c) qs"
    by (auto split: option.splits)
  show ?case
  proof (cases "local_data c = 0")
    case True
    obtain d where "ctxs rt (parent c) = Some d" using chain_start [OF c(4) assms(2)] by blast
    then have "search_local root rt p = search_local root rt (parent c)"
      using c True unfolding search_local_def by (subst loop_step) (auto simp: deref_ctx_def)
    then show ?thesis using Cons.IH [OF c(4)] c True by (simp add: has_local_def)
  next
    case False
    then show ?thesis using c by (simp add: search_local_def loop_done has_local_def)
  qed
qed

end
