(* ===== verification/Coroutine_Stack.thy ===== *)
theory Coroutine_Stack
  imports Memory
begin

text \<open>
  The stacks of the generators (\<open>coroutine/src/stack\<close>): the memory of a stack with its guard page
  (\<open>sys_stack.rs\<close>, \<open>unix/mod.rs\<close>), the measuring of its use (\<open>mod.rs\<close>) and the first call frame
  (\<open>unix/x86_64.rs\<close>, \<open>asm/mod.rs\<close>).

  The system calls are parameters, collected in the record \<open>os\<close>. The words of a stack are a
  partial function from addresses; an access where it is undefined is undefined behaviour.
\<close>

section \<open>The system\<close>

text \<open>
  The page size, the limit that \<open>getrlimit\<close> gives when it succeeds, the address that \<open>mmap\<close> returns
  for a size when it succeeds, and whether \<open>mprotect\<close> of a range succeeds.
\<close>

record os =
  os_sysconf :: usize
  os_getrlimit :: "usize option"
  os_mmap :: "usize \<Rightarrow> usize option"
  os_mprotect :: "usize \<Rightarrow> usize \<Rightarrow> bool"

text \<open>The value of the static that caches the page size, with the page size.\<close>

definition page_size :: "os \<Rightarrow> usize \<Rightarrow> usize \<times> usize" where
  "page_size S cached = (if cached = 0 then (os_sysconf S, os_sysconf S) else (cached, cached))"

abbreviation page :: "os \<Rightarrow> usize" where
  "page S \<equiv> fst (page_size S 0)"

definition min_stack_size :: "os \<Rightarrow> usize" where
  "min_stack_size S = page S"

definition RLIM_INFINITY :: nat where
  "RLIM_INFINITY = 18446744073709551615"

definition max_stack_size :: "os \<Rightarrow> usize \<Rightarrow> usize \<times> usize" where
  "max_stack_size S cached =
     (if cached = 0
      then case os_getrlimit S of
             Some rlim_max \<Rightarrow>
               (let r = (if rlim_max = RLIM_INFINITY \<or> rlim_max > usize_max then usize_max else rlim_max)
                in (r, r))
           | None \<Rightarrow> (1024 * 1024 * 1024, cached)
      else (cached, cached))"

abbreviation max_stack :: "os \<Rightarrow> usize" where
  "max_stack S \<equiv> fst (max_stack_size S 0)"

section \<open>The memory of a stack\<close>

record sys_stack =
  ss_top :: usize
  ss_bottom :: usize

datatype stack_error = ExceedsMaximumSize usize | IoError

definition sys_stack_new :: "build \<Rightarrow> usize \<Rightarrow> usize \<Rightarrow> sys_stack outcome" where
  "sys_stack_new E t b =
     obind (guard (debug E \<longrightarrow> b \<le> t) PanicAssert) (\<lambda>_. Ok \<lparr>ss_top = t, ss_bottom = b\<rparr>)"

definition sys_stack_len :: "build \<Rightarrow> sys_stack \<Rightarrow> usize outcome" where
  "sys_stack_len E self = usize_sub E (ss_top self) (ss_bottom self)"

text \<open>\<open>Ok\<close> is \<open>Inr\<close> and \<open>Err\<close> is \<open>Inl\<close>.\<close>

definition allocate_stack :: "build \<Rightarrow> os \<Rightarrow> usize \<Rightarrow> (unit + sys_stack) outcome" where
  "allocate_stack E S sz =
     (case os_mmap S sz of
        None \<Rightarrow> Ok (Inl ())
      | Some p \<Rightarrow>
          obind (usize_add E p sz) (\<lambda>t. obind (sys_stack_new E t p) (\<lambda>s. Ok (Inr s))))"

definition protect_stack :: "build \<Rightarrow> os \<Rightarrow> sys_stack \<Rightarrow> (unit + sys_stack) outcome" where
  "protect_stack E S stack =
     obind (sys_stack_len E stack) (\<lambda>len.
     obind (guard (debug E \<longrightarrow> len mod page S = 0 \<and> len \<noteq> 0) PanicAssert) (\<lambda>_.
       if \<not> os_mprotect S (ss_bottom stack) (page S) then Ok (Inl ())
       else obind (usize_add E (ss_bottom stack) (page S)) (\<lambda>b.
            obind (sys_stack_new E (ss_top stack) b) (\<lambda>s. Ok (Inr s)))))"

text \<open>\<open>!(page_size.overflowing_sub(1).0)\<close>.\<close>

definition page_mask :: "usize \<Rightarrow> usize" where
  "page_mask ps = usize_max - (ps + 2 ^ 64 - 1) mod 2 ^ 64"

text \<open>The block of \<open>allocate\<close> for a size that is allowed.\<close>

definition map_stack :: "build \<Rightarrow> os \<Rightarrow> usize \<Rightarrow> bool \<Rightarrow> (stack_error + sys_stack) outcome" where
  "map_stack E S sz protected =
     obind (allocate_stack E S sz) (\<lambda>r.
     obind (case r of
              Inr stack \<Rightarrow> if protected then protect_stack E S stack else Ok r
            | Inl e \<Rightarrow> Ok r) (\<lambda>r.
       Ok (case r of Inr s \<Rightarrow> Inr s | Inl e \<Rightarrow> Inl IoError)))"

definition sys_stack_allocate ::
    "build \<Rightarrow> os \<Rightarrow> usize \<Rightarrow> bool \<Rightarrow> (stack_error + sys_stack) outcome" where
  "sys_stack_allocate E S sz protected =
     (let extra = push_bit (if protected then 1 else 0) (page S) mod 2 ^ 64;
          sz = (if sz < min_stack_size S then min_stack_size S else sz)
      in obind (usize_sub E sz 1) (\<lambda>sz.
         let sz = sz AND page_mask (page S);
             too_large = obind (usize_sub E (max_stack S) extra) (\<lambda>m. Ok (Inl (ExceedsMaximumSize m)))
         in case checked_add sz extra of
              Some sz \<Rightarrow> if sz \<le> max_stack S then map_stack E S sz protected else too_large
            | None \<Rightarrow> too_large))"

section \<open>Stacks\<close>

text \<open>The words at addresses that are a multiple of 8 from the bottom.\<close>

type_synonym words = "usize \<Rightarrow> u64 option"

definition read_word :: "words \<Rightarrow> usize \<Rightarrow> u64 outcome" where
  "read_word M a = (case M a of Some w \<Rightarrow> Ok w | None \<Rightarrow> Fault UndefinedBehaviour)"

definition write_word :: "words \<Rightarrow> usize \<Rightarrow> u64 \<Rightarrow> words outcome" where
  "write_word M a w = (if M a = None then Fault UndefinedBehaviour else Ok (M(a \<mapsto> w)))"

text \<open>\<open>ptr::write_bytes(buf, 0xEE, count)\<close> over words.\<close>

definition magic :: u64 where
  "magic = 0xEEEEEEEEEEEEEEEE"

primrec write_magic :: "words \<Rightarrow> usize \<Rightarrow> nat \<Rightarrow> words outcome" where
  "write_magic M a 0 = Ok M"
| "write_magic M a (Suc n) = obind (write_word M a magic) (\<lambda>M. write_magic M (a + 8) n)"

text \<open>The words of a new mapping, which the system has zeroed.\<close>

definition fresh_words :: "sys_stack \<Rightarrow> words" where
  "fresh_words s a = (if ss_bottom s \<le> a \<and> a + 8 \<le> ss_top s \<and> (a - ss_bottom s) mod 8 = 0 then Some 0 else None)"

record gen_stack =
  buf :: sys_stack

definition stack_size :: "build \<Rightarrow> gen_stack \<Rightarrow> usize outcome" where
  "stack_size E self = omap (\<lambda>n. n div 8) (sys_stack_len E (buf self))"

text \<open>\<open>get_offset\<close>, \<open>begin\<close> and \<open>end\<close> are addresses.\<close>

definition get_offset :: "gen_stack \<Rightarrow> usize" where
  "get_offset self = ss_top (buf self) + 8"

definition stack_begin :: "gen_stack \<Rightarrow> usize" where
  "stack_begin self = ss_bottom (buf self)"

definition stack_end :: "words \<Rightarrow> gen_stack \<Rightarrow> usize outcome" where
  "stack_end M self =
     obind (read_word M (get_offset self)) (\<lambda>off.
       let a = int (ss_top (buf self)) - 8 * sint off
       in if 0 \<le> a \<and> a \<le> int usize_max then Ok (nat a) else Fault UndefinedBehaviour)"

definition stack_new :: "build \<Rightarrow> os \<Rightarrow> usize \<Rightarrow> (gen_stack \<times> words) outcome" where
  "stack_new E S sz =
     (let track = (sz AND 1 \<noteq> 0)
      in obind (if sz * 8 \<le> usize_max then Ok (sz * 8)
                else if debug E then Fault PanicOverflow else Ok (sz * 8 mod 2 ^ 64)) (\<lambda>n.
         let bytes = max n (min_stack_size S)
         in obind (sys_stack_allocate E S bytes True) (\<lambda>r.
            case r of
              Inl e \<Rightarrow> Fault PanicExpect
            | Inr b \<Rightarrow>
                (let stack = \<lparr>buf = b\<rparr>
                 in obind (if track then stack_size E stack else Ok 8) (\<lambda>count.
                    obind (write_magic (fresh_words b) (ss_bottom b) count) (\<lambda>M.
                    obind (write_word M (get_offset stack) 1) (\<lambda>M. Ok (stack, M))))))))"

text \<open>The loop of \<open>get_used_size\<close> over the offset and the address.\<close>

definition get_used_size :: "build \<Rightarrow> words \<Rightarrow> gen_stack \<Rightarrow> usize outcome" where
  "get_used_size E M self =
     obind (read_word M (ss_bottom (buf self))) (\<lambda>_.
     obind (loop (\<lambda>(off, a). M a = Some magic)
              (\<lambda>(off, a). obind (read_word M (a + 8)) (\<lambda>_. Ok (off + 1, a + 8)))
              (0, ss_bottom (buf self))) (\<lambda>(off, _).
     obind (stack_size E self) (\<lambda>cap. usize_sub E cap off)))"

text \<open>\<open>drop_stack\<close>: the range it gives to \<open>munmap\<close>, or nothing for a stack of length 0.\<close>

definition drop_stack :: "build \<Rightarrow> os \<Rightarrow> gen_stack \<Rightarrow> (usize \<times> usize) option outcome" where
  "drop_stack E S self =
     obind (sys_stack_len E (buf self)) (\<lambda>len.
       if len = 0 then Ok None
       else obind (usize_sub E (ss_bottom (buf self)) (page S)) (\<lambda>g.
            obind (usize_add E len (page S)) (\<lambda>n. Ok (Some (g, n)))))"

section \<open>The first call frame\<close>

definition align_down :: "usize \<Rightarrow> usize" where
  "align_down sp = sp AND (usize_max - 15)"

definition mut_offset :: "usize \<Rightarrow> int \<Rightarrow> int" where
  "mut_offset p count = int p + 8 * count"

text \<open>
  \<open>fptr\<close> and \<open>bootstrap\<close> are the addresses of the functions. The registers 4, 5, 6, 2 and 1 are R12,
  R13, R14, RBP and RSP.
\<close>

definition initialize_call_frame ::
    "usize \<Rightarrow> usize list \<Rightarrow> usize \<Rightarrow> usize \<Rightarrow> usize \<Rightarrow> usize \<Rightarrow> words \<Rightarrow> (usize list \<times> words) outcome" where
  "initialize_call_frame bootstrap gpr fptr arg arg2 high_end M =
     (let sp = align_down high_end;
          gpr = gpr[4 := arg, 5 := arg2, 6 := fptr, 2 := 0, 1 := nat (mut_offset sp (- 2))]
      in obind (guard (0 \<le> mut_offset sp (- 2)) UndefinedBehaviour) (\<lambda>_.
         obind (write_word M (nat (mut_offset sp (- 2))) (of_nat bootstrap)) (\<lambda>M.
         obind (write_word M (nat (mut_offset sp (- 1))) 0) (\<lambda>M. Ok (gpr, M)))))"

end
