(* ===== verification/Coroutine_Tasks.thy ===== *)
theory Coroutine_Tasks
  imports Coroutine_Runtime
begin

text \<open>
  The parts of the coroutine crate around the runtime that stand on their own: the cancel state
  of a coroutine (\<open>cancel.rs\<close>), the configuration of a new one (\<open>builder.rs\<close>), its handle (\<open>lib.rs\<close>), the
  parking of coroutines and threads (\<open>park.rs\<close>, \<open>sync/thread_park.rs\<close>, \<open>sync/blocker.rs\<close>), the state of a
  join (\<open>join.rs\<close>, \<open>join_handle.rs\<close>), the local storage (\<open>coroutine_local.rs\<close>), the parameters of a yield
  (\<open>yield_now.rs\<close>), the hasher of type identities (\<open>id_hasher.rs\<close>) and the branch hints.
\<close>

section \<open>Cancel\<close>

text \<open>
  \<open>'c\<close> is the type of what is registered in \<open>coroutine\<close>, an \<open>AtomicOption\<close> whose \<open>take\<close> is a parameter of
  \<open>cancel\<close>, as is what the scheduler does with the coroutine it takes out.
\<close>

record 'c cancel =
  cancel_state :: u64
  cancel_coroutine :: 'c

definition cancel_new :: "'c \<Rightarrow> 'c cancel" where
  "cancel_new none = \<lparr>cancel_state = 0, cancel_coroutine = none\<rparr>"

definition is_cancelled :: "'c cancel \<Rightarrow> bool" where
  "is_cancelled self = (cancel_state self = 1)"

definition is_disabled :: "'c cancel \<Rightarrow> bool" where
  "is_disabled self = (cancel_state self \<ge> 2)"

definition disable_cancel :: "'c cancel \<Rightarrow> 'c cancel" where
  "disable_cancel self = self\<lparr>cancel_state := cancel_state self + 2\<rparr>"

definition enable_cancel :: "'c cancel \<Rightarrow> 'c cancel" where
  "enable_cancel self = self\<lparr>cancel_state := cancel_state self - 2\<rparr>"

definition unlikely :: "bool \<Rightarrow> bool" where
  "unlikely b = b"

definition likely :: "bool \<Rightarrow> bool" where
  "likely b = b"

text \<open>\<open>check_cancel\<close>: \<open>take_para\<close> is \<open>get_coroutine_para\<close>, whose value is dropped.\<close>

definition check_cancel :: "('w \<Rightarrow> 'w outcome) \<Rightarrow> 'c cancel \<Rightarrow> 'w \<Rightarrow> 'w outcome" where
  "check_cancel take_para self w =
     (if unlikely (cancel_state self = 1) then take_para w else Ok w)"

text \<open>\<open>CancelIoImpl::cancel\<close>: there is nothing to cancel.\<close>

definition io_cancel :: "unit outcome option" where
  "io_cancel = None"

text \<open>
  \<open>cancel\<close>: \<open>tk\<close> takes out the registered cell, \<open>inner\<close> takes the coroutine out of that cell, and \<open>resume\<close>
  is the setting of the parameter and the scheduling.
\<close>

definition cancel_cancel ::
    "('c \<Rightarrow> 'a option \<times> 'c) \<Rightarrow> ('a \<Rightarrow> 'w \<Rightarrow> 'co option \<times> 'w) \<Rightarrow> ('co \<Rightarrow> 'w \<Rightarrow> 'w)
     \<Rightarrow> 'c cancel \<Rightarrow> 'w \<Rightarrow> 'c cancel \<times> 'w" where
  "cancel_cancel tk inner resume self w =
     (let self = self\<lparr>cancel_state := or (cancel_state self) 1\<rparr>
      in case io_cancel of
           Some (Ok _) \<Rightarrow> (self, w)
         | _ \<Rightarrow>
             (case tk (cancel_coroutine self) of
                (None, rest) \<Rightarrow> (self\<lparr>cancel_coroutine := rest\<rparr>, w)
              | (Some cell, rest) \<Rightarrow>
                  (self\<lparr>cancel_coroutine := rest\<rparr>,
                   case inner cell w of (Some co, w) \<Rightarrow> resume co w | (None, w) \<Rightarrow> w)))"

section \<open>Parking a coroutine\<close>

text \<open>
  \<open>'c\<close> is the \<open>AtomicOption\<close> of the waiting coroutine and \<open>'d\<close> the \<open>AtomicDuration\<close>; the handle of the timer
  is an address. \<open>tk\<close> is \<open>take\<close>, \<open>run\<close> is \<open>run_coroutine\<close> and \<open>schedule\<close> the scheduler.
\<close>

record ('c, 'd) park =
  wait_coroutine :: 'c
  park_state :: bool
  park_check_cancel :: bool
  park_timeout :: 'd
  timeout_handle :: nat
  wait_kernel :: bool

definition park_new :: "'c \<Rightarrow> 'd \<Rightarrow> ('c, 'd) park" where
  "park_new none d =
     \<lparr>wait_coroutine = none, park_state = False, park_check_cancel = True, park_timeout = d,
      timeout_handle = 0, wait_kernel = False\<rparr>"

definition ignore_cancel :: "('c, 'd) park \<Rightarrow> bool \<Rightarrow> ('c, 'd) park" where
  "ignore_cancel self ignore = self\<lparr>park_check_cancel := \<not> ignore\<rparr>"

definition wake_up ::
    "('c \<Rightarrow> 'co option \<times> 'c) \<Rightarrow> ('co \<Rightarrow> 'w \<Rightarrow> 'w) \<Rightarrow> ('co \<Rightarrow> 'w \<Rightarrow> 'w)
     \<Rightarrow> ('c, 'd) park \<Rightarrow> bool \<Rightarrow> 'w \<Rightarrow> ('c, 'd) park \<times> 'w" where
  "wake_up tk run schedule self b_sync w =
     (case tk (wait_coroutine self) of
        (Some co, rest) \<Rightarrow> (self\<lparr>wait_coroutine := rest\<rparr>, if b_sync then run co w else schedule co w)
      | (None, rest) \<Rightarrow> (self\<lparr>wait_coroutine := rest\<rparr>, w))"

definition park_unpark ::
    "('c \<Rightarrow> 'co option \<times> 'c) \<Rightarrow> ('co \<Rightarrow> 'w \<Rightarrow> 'w) \<Rightarrow> ('co \<Rightarrow> 'w \<Rightarrow> 'w)
     \<Rightarrow> ('c, 'd) park \<Rightarrow> 'w \<Rightarrow> ('c, 'd) park \<times> 'w" where
  "park_unpark tk run schedule self w =
     (let old = park_state self; self = self\<lparr>park_state := True\<rparr>
      in if \<not> old then wake_up tk run schedule self False w else (self, w))"

section \<open>The builder and the handle\<close>

record builder =
  b_name :: "string option"
  b_stack_size :: "usize option"
  b_id :: "usize option"

definition builder_new :: builder where
  "builder_new = \<lparr>b_name = None, b_stack_size = None, b_id = None\<rparr>"

definition builder_name :: "builder \<Rightarrow> string \<Rightarrow> builder" where
  "builder_name self n = self\<lparr>b_name := Some n\<rparr>"

definition builder_stack_size :: "builder \<Rightarrow> usize \<Rightarrow> builder" where
  "builder_stack_size self s = self\<lparr>b_stack_size := Some s\<rparr>"

definition builder_id :: "builder \<Rightarrow> usize \<Rightarrow> builder" where
  "builder_id self i = self\<lparr>b_id := Some i\<rparr>"

text \<open>The handle of a coroutine; \<open>'p\<close> is its \<open>Park\<close>.\<close>

record ('p, 'c) coroutine =
  co_name :: "string option"
  co_stack_size :: usize
  co_park :: 'p
  co_cancel :: "'c cancel"

definition coroutine_new :: "'p \<Rightarrow> 'c \<Rightarrow> string \<Rightarrow> usize \<Rightarrow> ('p, 'c) coroutine" where
  "coroutine_new park none n s =
     \<lparr>co_name = Some n, co_stack_size = s, co_park = park, co_cancel = cancel_new none\<rparr>"

definition coroutine_unpark ::
    "('c \<Rightarrow> 'co option \<times> 'c) \<Rightarrow> ('co \<Rightarrow> 'w \<Rightarrow> 'w) \<Rightarrow> ('co \<Rightarrow> 'w \<Rightarrow> 'w)
     \<Rightarrow> (('c, 'd) park, 'k) coroutine \<Rightarrow> 'w \<Rightarrow> (('c, 'd) park, 'k) coroutine \<times> 'w" where
  "coroutine_unpark tk run schedule self w =
     (case park_unpark tk run schedule (co_park self) w of (p, w) \<Rightarrow> (self\<lparr>co_park := p\<rparr>, w))"

definition coroutine_cancel ::
    "('c \<Rightarrow> 'a option \<times> 'c) \<Rightarrow> ('a \<Rightarrow> 'w \<Rightarrow> 'co option \<times> 'w) \<Rightarrow> ('co \<Rightarrow> 'w \<Rightarrow> 'w)
     \<Rightarrow> ('p, 'c) coroutine \<Rightarrow> 'w \<Rightarrow> ('p, 'c) coroutine \<times> 'w" where
  "coroutine_cancel tk inner resume self w =
     (case cancel_cancel tk inner resume (co_cancel self) w of (c, w) \<Rightarrow> (self\<lparr>co_cancel := c\<rparr>, w))"

text \<open>\<open>yield_back\<close> of an event source.\<close>

definition yield_back :: "('w \<Rightarrow> 'w outcome) \<Rightarrow> 'c cancel \<Rightarrow> 'w \<Rightarrow> 'w outcome" where
  "yield_back take_para cancel w = check_cancel take_para cancel w"

section \<open>Waiting\<close>

text \<open>The count that the mutex of \<open>ThreadPark\<close> guards; \<open>unpark\<close> says whether it notifies.\<close>

definition thread_park_new :: usize where
  "thread_park_new = 0"

definition thread_unpark :: "usize \<Rightarrow> bool \<times> usize" where
  "thread_unpark token = (if token = 0 then (True, 1) else (False, token))"

text \<open>
  The flag of a join and the blocker that waits for it. \<open>tk\<close> is \<open>take\<close> of \<open>AtomicOption\<close>, and \<open>unpark\<close>
  that of \<open>Blocker\<close>.
\<close>

record ('t, 'q) join =
  to_wake :: 't
  join_state :: bool
  join_panic :: 'q

definition join_new :: "'t \<Rightarrow> 'q \<Rightarrow> ('t, 'q) join" where
  "join_new none panic = \<lparr>to_wake = none, join_state = True, join_panic = panic\<rparr>"

text \<open>\<open>st\<close> is \<open>store\<close> of the \<open>AtomicOption\<close> that holds what the coroutine panicked with.\<close>

definition set_panic_data :: "('e \<Rightarrow> 'q \<Rightarrow> 'q) \<Rightarrow> ('t, 'q) join \<Rightarrow> 'e \<Rightarrow> ('t, 'q) join" where
  "set_panic_data st self panic = self\<lparr>join_panic := st panic (join_panic self)\<rparr>"

definition join_trigger :: "('t \<Rightarrow> 'b option \<times> 't) \<Rightarrow> ('b \<Rightarrow> 'w \<Rightarrow> 'w) \<Rightarrow> ('t, 'q) join \<Rightarrow> 'w \<Rightarrow> ('t, 'q) join \<times> 'w" where
  "join_trigger tk unpark self w =
     (let self = self\<lparr>join_state := False\<rparr>
      in case tk (to_wake self) of
           (Some blocker, rest) \<Rightarrow> (self\<lparr>to_wake := rest\<rparr>, unpark blocker w)
         | (None, rest) \<Rightarrow> (self\<lparr>to_wake := rest\<rparr>, w))"

definition is_done :: "('t, 'q) join \<Rightarrow> bool" where
  "is_done self = (\<not> join_state self)"

text \<open>
  \<open>JoinHandle::join\<close> after \<open>wait\<close>: the result of the coroutine, or what it panicked with, or \<open>Cancel\<close>.
  \<open>tk\<close> and \<open>tkp\<close> take out the result and the panic.
\<close>

datatype 'e join_error = Panicked 'e | JoinErr coroutine_error

definition handle_join ::
    "('p \<Rightarrow> 'r option \<times> 'p) \<Rightarrow> ('q \<Rightarrow> 'e option \<times> 'q) \<Rightarrow> 'p \<Rightarrow> 'q \<Rightarrow> 'e join_error + 'r" where
  "handle_join tk tkp packet panic =
     (case fst (tk packet) of
        Some r \<Rightarrow> Inr r
      | None \<Rightarrow> Inl (case fst (tkp panic) of Some e \<Rightarrow> Panicked e | None \<Rightarrow> JoinErr ErrCancel))"

text \<open>A blocker parks a coroutine or a thread, depending on where it is made.\<close>

datatype ('c, 'd) parker = CoroutinePark "('c, 'd) park" | ThreadPark usize

definition blocker_new :: "'c \<Rightarrow> 'd \<Rightarrow> bool \<Rightarrow> 'v runtime \<Rightarrow> (('c, 'd) parker \<times> 'v runtime) outcome" where
  "blocker_new none d ignore rt =
     obind (is_coroutine rt) (\<lambda>(b, rt).
       Ok (if b then CoroutinePark (ignore_cancel (park_new none d) ignore) else ThreadPark thread_park_new, rt))"

section \<open>Local storage and yielding\<close>

text \<open>\<open>'m\<close> is the map of the local data. The storages of the coroutines are found by their address.\<close>

record ('co, 'j, 'm) coroutine_local =
  cl_coroutine :: 'co
  cl_join :: 'j
  cl_data :: 'm

definition coroutine_local_new :: "'m \<Rightarrow> 'co \<Rightarrow> 'j \<Rightarrow> ('co, 'j, 'm) coroutine_local" where
  "coroutine_local_new data co j = \<lparr>cl_coroutine = co, cl_join = j, cl_data = data\<rparr>"

definition get_coroutine_local_data :: "'v runtime \<Rightarrow> (nat option \<times> 'v runtime) outcome" where
  "get_coroutine_local_data rt =
     omap (\<lambda>(p, rt). (if p = 0 then None else Some p, rt)) (get_local_data rt)"

definition local_with ::
    "('m \<Rightarrow> 'r) \<Rightarrow> 'm \<Rightarrow> (nat \<Rightarrow> ('co, 'j, 'm) coroutine_local option) \<Rightarrow> 'v runtime \<Rightarrow> 'r outcome" where
  "local_with f localmap locals rt =
     obind (get_coroutine_local_data rt) (\<lambda>(c, _).
       case c of
         None \<Rightarrow> Ok (f localmap)
       | Some p \<Rightarrow> (case locals p of Some l \<Rightarrow> Ok (f (cl_data l)) | None \<Rightarrow> Fault UndefinedBehaviour))"

text \<open>\<open>done\<close> ends with a panic in every case.\<close>

definition yield_done :: "'v runtime \<Rightarrow> 'a outcome" where
  "yield_done rt =
     obind (is_generator rt) (\<lambda>(b, rt). obind (guard b PanicAssert) (\<lambda>_. Fault PanicExplicit))"

definition coroutine_get_yield :: "build \<Rightarrow> nat \<Rightarrow> 'v runtime \<Rightarrow> ('v option \<times> 'v runtime) outcome" where
  "coroutine_get_yield E T rt =
     (case current rt of (root, rt) \<Rightarrow>
        obind (coroutine_ctx root rt) (\<lambda>c.
          case c of
            None \<Rightarrow> Ok (None, rt)
          | Some p \<Rightarrow> obind (deref_ctx rt p) (\<lambda>ctx. coroutine_get_para E T ctx rt)))"

section \<open>The hasher\<close>

record id_hasher =
  hasher_id :: u64

definition id_hasher_default :: id_hasher where
  "id_hasher_default = \<lparr>hasher_id = 0\<rparr>"

definition hasher_write :: "id_hasher \<Rightarrow> u8 list \<Rightarrow> id_hasher outcome" where
  "hasher_write self bs = Fault PanicExplicit"

definition hasher_write_u64 :: "id_hasher \<Rightarrow> u64 \<Rightarrow> id_hasher" where
  "hasher_write_u64 self i = self\<lparr>hasher_id := i\<rparr>"

definition hasher_finish :: "id_hasher \<Rightarrow> u64" where
  "hasher_finish self = hasher_id self"

end
