(* ===== verification/Coroutine_Join.thy ===== *)
theory Coroutine_Join
  imports Coroutine_Tasks
begin

text \<open>
  Waiting for a coroutine (\<open>join.rs\<close>): the thread that calls \<open>wait\<close> and the one that calls \<open>trigger\<close> as a
  step relation over the flag and the registered blocker. Each step is one atomic access or one
  call of the blocker.

  The crate defines \<open>Blocker::new\<close> only. Its \<open>current\<close>, \<open>park\<close> and \<open>unpark\<close> are the record \<open>blocker_ops\<close>, over
  an environment of any type that other code may change too, and \<open>blocker_laws\<close> says what is relied
  on. \<open>tk\<close> and \<open>st\<close> are \<open>take\<close> and \<open>store\<close> of \<open>AtomicOption\<close>, which the crate does not define either;
  \<open>option_law\<close> says what they are relied on for.
\<close>

section \<open>Blockers\<close>

datatype park_error = ParkCancelled | ParkTimeout

text \<open>\<open>bl_park\<close> is \<open>park(None)\<close>: nothing while it blocks, and otherwise what it returns.\<close>

record ('b, 'e) blocker_ops =
  bl_current :: "'e \<Rightarrow> 'b \<times> 'e"
  bl_park :: "'b \<Rightarrow> 'e \<Rightarrow> ((park_error + unit) \<times> 'e) option"
  bl_unpark :: "'b \<Rightarrow> 'e \<Rightarrow> 'e"

text \<open>
  \<open>notified e b\<close>: the blocker has been unparked. A new blocker has not; one that has been does not block;
  \<open>park\<close> returns without an error only then, but may return an error at any time. What other
  code does, a step of \<open>env\<close>, neither notifies a blocker nor takes a notification back.
\<close>

definition blocker_laws :: "('b, 'e) blocker_ops \<Rightarrow> ('e \<Rightarrow> 'e \<Rightarrow> bool) \<Rightarrow> ('e \<Rightarrow> 'b \<Rightarrow> bool) \<Rightarrow> bool" where
  "blocker_laws B env notified \<longleftrightarrow>
     (\<forall>e b e'. bl_current B e = (b, e') \<longrightarrow> \<not> notified e' b)
     \<and> (\<forall>b e. notified (bl_unpark B b e) b)
     \<and> (\<forall>b e. notified e b \<longrightarrow> bl_park B b e \<noteq> None)
     \<and> (\<forall>b e e'. bl_park B b e = Some (Inr (), e') \<longrightarrow> notified e b)
     \<and> (\<forall>b e e'. env e e' \<longrightarrow> notified e' b = notified e b)"

text \<open>\<open>take\<close> gives what was stored last.\<close>

definition option_law :: "('t \<Rightarrow> 'b option \<times> 't) \<Rightarrow> ('b \<Rightarrow> 't \<Rightarrow> 't) \<Rightarrow> bool" where
  "option_law tk st \<longleftrightarrow> (\<forall>b t. fst (tk (st b t)) = Some b)"

section \<open>The two threads\<close>

text \<open>\<open>WDone\<close> keeps the result of \<open>park\<close>, if it was called, which the code drops with \<open>.ok()\<close>.\<close>

datatype 'b waiter = WStart | WStore 'b | WRecheck 'b | WUnregister | WPark 'b | WDone "(park_error + unit) option"

datatype 'b trigger = TStart | TTake | TUnpark 'b | TDone

record ('t, 'q, 'b, 'e) join_world =
  jw_join :: "('t, 'q) join"
  jw_env :: 'e
  waiter :: "'b waiter"
  trigger :: "'b trigger"

definition join_world_new :: "'t \<Rightarrow> 'q \<Rightarrow> 'e \<Rightarrow> ('t, 'q, 'b, 'e) join_world" where
  "join_world_new none panic e = \<lparr>jw_join = join_new none panic, jw_env = e, waiter = WStart, trigger = TStart\<rparr>"

text \<open>\<open>wait\<close> and \<open>trigger\<close>, one access at a time; nothing when the thread blocks or has returned.\<close>

definition wait_step ::
    "('t \<Rightarrow> 'b option \<times> 't) \<Rightarrow> ('b \<Rightarrow> 't \<Rightarrow> 't) \<Rightarrow> ('b, 'e) blocker_ops
     \<Rightarrow> ('t, 'q, 'b, 'e) join_world \<Rightarrow> ('t, 'q, 'b, 'e) join_world option" where
  "wait_step tk st B w =
     (case waiter w of
        WStart \<Rightarrow>
          if join_state (jw_join w)
          then case bl_current B (jw_env w) of (b, e) \<Rightarrow> Some (w\<lparr>jw_env := e, waiter := WStore b\<rparr>)
          else Some (w\<lparr>waiter := WDone None\<rparr>)
      | WStore b \<Rightarrow> Some (w\<lparr>jw_join := (jw_join w)\<lparr>to_wake := st b (to_wake (jw_join w))\<rparr>, waiter := WRecheck b\<rparr>)
      | WRecheck b \<Rightarrow> Some (w\<lparr>waiter := if join_state (jw_join w) then WPark b else WUnregister\<rparr>)
      | WUnregister \<Rightarrow>
          Some (w\<lparr>jw_join := (jw_join w)\<lparr>to_wake := snd (tk (to_wake (jw_join w)))\<rparr>, waiter := WDone None\<rparr>)
      | WPark b \<Rightarrow>
          (case bl_park B b (jw_env w) of
             None \<Rightarrow> None
           | Some (r, e) \<Rightarrow> Some (w\<lparr>jw_env := e, waiter := WDone (Some r)\<rparr>))
      | WDone r \<Rightarrow> None)"

definition trigger_step ::
    "('t \<Rightarrow> 'b option \<times> 't) \<Rightarrow> ('b, 'e) blocker_ops
     \<Rightarrow> ('t, 'q, 'b, 'e) join_world \<Rightarrow> ('t, 'q, 'b, 'e) join_world option" where
  "trigger_step tk B w =
     (case trigger w of
        TStart \<Rightarrow> Some (w\<lparr>jw_join := (jw_join w)\<lparr>join_state := False\<rparr>, trigger := TTake\<rparr>)
      | TTake \<Rightarrow>
          (case tk (to_wake (jw_join w)) of (r, rest) \<Rightarrow>
             Some (w\<lparr>jw_join := (jw_join w)\<lparr>to_wake := rest\<rparr>,
                     trigger := case r of None \<Rightarrow> TDone | Some b \<Rightarrow> TUnpark b\<rparr>))
      | TUnpark b \<Rightarrow> Some (w\<lparr>jw_env := bl_unpark B b (jw_env w), trigger := TDone\<rparr>)
      | TDone \<Rightarrow> None)"

inductive join_reach ::
    "('t \<Rightarrow> 'b option \<times> 't) \<Rightarrow> ('b \<Rightarrow> 't \<Rightarrow> 't) \<Rightarrow> ('b, 'e) blocker_ops \<Rightarrow> ('e \<Rightarrow> 'e \<Rightarrow> bool)
     \<Rightarrow> ('t, 'q, 'b, 'e) join_world \<Rightarrow> bool"
  for tk st B env where
  start: "join_reach tk st B env (join_world_new none panic e)"
| wait: "join_reach tk st B env w \<Longrightarrow> wait_step tk st B w = Some w' \<Longrightarrow> join_reach tk st B env w'"
| trig: "join_reach tk st B env w \<Longrightarrow> trigger_step tk B w = Some w' \<Longrightarrow> join_reach tk st B env w'"
| other: "join_reach tk st B env w \<Longrightarrow> env (jw_env w) e \<Longrightarrow> join_reach tk st B env (w\<lparr>jw_env := e\<rparr>)"

text \<open>\<open>n\<close> steps of the waiter alone.\<close>

primrec wait_run ::
    "('t \<Rightarrow> 'b option \<times> 't) \<Rightarrow> ('b \<Rightarrow> 't \<Rightarrow> 't) \<Rightarrow> ('b, 'e) blocker_ops \<Rightarrow> nat
     \<Rightarrow> ('t, 'q, 'b, 'e) join_world \<Rightarrow> ('t, 'q, 'b, 'e) join_world option" where
  "wait_run tk st B 0 w = Some w"
| "wait_run tk st B (Suc n) w = Option.bind (wait_step tk st B w) (wait_run tk st B n)"

section \<open>No wake-up is lost\<close>

definition registered :: "('t \<Rightarrow> 'b option \<times> 't) \<Rightarrow> ('t, 'q, 'b, 'e) join_world \<Rightarrow> 'b \<Rightarrow> bool" where
  "registered tk w b \<longleftrightarrow> fst (tk (to_wake (jw_join w))) = Some b"

definition join_inv ::
    "('t \<Rightarrow> 'b option \<times> 't) \<Rightarrow> ('e \<Rightarrow> 'b \<Rightarrow> bool) \<Rightarrow> ('t, 'q, 'b, 'e) join_world \<Rightarrow> bool" where
  "join_inv tk notified w \<longleftrightarrow>
     (join_state (jw_join w) \<longleftrightarrow> trigger w = TStart)
     \<and> (case waiter w of
          WStart \<Rightarrow> True
        | WStore b \<Rightarrow> notified (jw_env w) b \<longrightarrow> trigger w = TDone
        | WRecheck b \<Rightarrow> (notified (jw_env w) b \<longrightarrow> trigger w = TDone) \<and> (trigger w = TStart \<longrightarrow> registered tk w b)
        | WUnregister \<Rightarrow> trigger w \<noteq> TStart
        | WPark b \<Rightarrow> (notified (jw_env w) b \<longrightarrow> trigger w = TDone) \<and>
            (case trigger w of TStart \<Rightarrow> registered tk w b | TTake \<Rightarrow> registered tk w b
             | TUnpark b' \<Rightarrow> b' = b | TDone \<Rightarrow> notified (jw_env w) b)
        | WDone r \<Rightarrow> r \<in> {None, Some (Inr ())} \<longrightarrow> trigger w \<noteq> TStart)"

lemma wait_step_inv:
  assumes "option_law tk st" "blocker_laws B env notified" "join_inv tk notified w" "wait_step tk st B w = Some w'"
  shows "join_inv tk notified w'"
proof -
  have new: "\<not> notified e' b" if "bl_current B e = (b, e')" for e b e'
    using assms(2) that by (simp add: blocker_laws_def)
  have parked: "notified e b" if "bl_park B b e = Some (Inr (), e')" for e b e'
    using assms(2) that unfolding blocker_laws_def by blast
  show ?thesis
    using assms(1,3,4) new
    by (cases "waiter w") (auto simp: wait_step_def join_inv_def registered_def option_law_def dest: parked
        split: if_splits prod.splits option.splits trigger.splits)
qed

lemma trigger_step_inv:
  assumes "blocker_laws B env notified" "join_inv tk notified w" "trigger_step tk B w = Some w'"
  shows "join_inv tk notified w'"
proof -
  have "notified (bl_unpark B b e) b" for b e using assms(1) by (simp add: blocker_laws_def)
  then show ?thesis
    using assms(2,3)
    by (cases "trigger w"; cases "waiter w")
      (auto simp: trigger_step_def join_inv_def registered_def split: prod.splits option.splits)
qed

lemma join_reach_inv:
  assumes "join_reach tk st B env w" "option_law tk st" "blocker_laws B env notified"
  shows "join_inv tk notified w"
  using assms
proof (induction rule: join_reach.induct)
  case (start none panic e)
  then show ?case by (simp add: join_inv_def join_world_new_def join_new_def)
next
  case (other w e)
  then have "notified e b = notified (jw_env w) b" for b unfolding blocker_laws_def by blast
  then show ?case using other by (simp add: join_inv_def registered_def cong: waiter.case_cong trigger.case_cong)
qed (auto intro: wait_step_inv trigger_step_inv)

text \<open>Once the trigger is done the waiter needs at most three more steps.\<close>

lemma wait_run_ends:
  assumes "join_inv tk notified w" "blocker_laws B env notified" "trigger w = TDone"
  shows "\<exists>n w' r. n \<le> 3 \<and> wait_run tk st B n w = Some w' \<and> waiter w' = WDone r"
proof -
  have s: "\<not> join_state (jw_join w)" using assms(1,3) by (simp add: join_inv_def)
  note steps = wait_step_def numeral_eq_Suc
  show ?thesis
  proof (cases "waiter w")
    case WStart
    then show ?thesis using s by (intro exI [of _ 1]) (simp add: steps)
  next
    case (WStore b)
    then show ?thesis using s by (intro exI [of _ 3]) (simp add: steps)
  next
    case (WRecheck b)
    then show ?thesis using s by (intro exI [of _ 2]) (simp add: steps)
  next
    case WUnregister
    then show ?thesis by (intro exI [of _ 1]) (simp add: steps)
  next
    case (WPark b)
    then have "bl_park B b (jw_env w) \<noteq> None" using assms by (auto simp: join_inv_def blocker_laws_def)
    then show ?thesis using WPark by (intro exI [of _ 1]) (auto simp: steps split: option.splits)
  next
    case (WDone r)
    then show ?thesis by (intro exI [of _ 0]) simp
  qed
qed

end
