(* ===== verification/Coroutine_Spawn.thy ===== *)
theory Coroutine_Spawn
  imports Coroutine_Tasks
begin

text \<open>
  The end of a coroutine: the code that a spawned coroutine runs (\<open>builder.rs\<close>), what happens when it
  returns or panics (\<open>lib.rs\<close>, \<open>done.rs\<close>), and what the handle then gives (\<open>join_handle.rs\<close>).

  The coroutine itself, \<open>CoroutineImpl\<close>, is not defined in the crate; the operations that are called
  on it are the record \<open>coroutine_impl\<close>. \<open>tk\<close> and \<open>st\<close> are \<open>take\<close> and \<open>store\<close> of \<open>AtomicOption\<close>.
\<close>

section \<open>The tasks of a process\<close>

text \<open>
  Joins and local storages are found by their addresses. The pool holds coroutines for reuse,
  and \<open>blockers\<close> stands for what \<open>unpark\<close> changes.
\<close>

record ('co, 'c, 't, 'q, 'm, 'w) tasks =
  joins :: "nat \<Rightarrow> ('t, 'q) join option"
  locals :: "nat \<Rightarrow> ('c, nat, 'm) coroutine_local option"
  pool :: "'co list"
  blockers :: 'w

text \<open>
  \<open>resume\<close> gives the subscriber of the event the coroutine waits for, as what its \<open>subscribe\<close> does, or
  nothing after a panic.
\<close>

record ('co, 'e, 's) coroutine_impl =
  ci_resume :: "'co \<Rightarrow> 's \<Rightarrow> ('co \<Rightarrow> 's \<Rightarrow> 's outcome) option \<times> 'co \<times> 's"
  ci_local :: "'co \<Rightarrow> nat"
  ci_panic_data :: "'co \<Rightarrow> 'e option"
  ci_stack_usage :: "'co \<Rightarrow> usize \<times> usize"

section \<open>Finishing\<close>

text \<open>
  \<open>drop_coroutine\<close> takes the local storage back and frees it. \<open>config\<close> is the configured size of stacks.
  The messages it logs are left out.
\<close>

definition drop_coroutine ::
    "('co, 'e, 's) coroutine_impl \<Rightarrow> usize \<Rightarrow> 'co \<Rightarrow> ('co, 'c, 't, 'q, 'm, 'w) tasks
     \<Rightarrow> ('co, 'c, 't, 'q, 'm, 'w) tasks outcome" where
  "drop_coroutine I config co s =
     (case locals s (ci_local I co) of
        None \<Rightarrow> Fault UndefinedBehaviour
      | Some local \<Rightarrow>
          (case ci_stack_usage I co of (sz, used) \<Rightarrow>
             if used = sz then Fault ExitProcess
             else Ok (s\<lparr>pool := if sz = config then co # pool s else pool s,
                        locals := (locals s)(ci_local I co := None)\<rparr>)))"

text \<open>\<open>Done::subscribe\<close>, the subscriber that the code of a spawned coroutine ends with.\<close>

definition done_subscribe ::
    "('co, 'e, 's) coroutine_impl \<Rightarrow> usize \<Rightarrow> 'co \<Rightarrow> ('co, 'c, 't, 'q, 'm, 'w) tasks
     \<Rightarrow> ('co, 'c, 't, 'q, 'm, 'w) tasks outcome" where
  "done_subscribe I config co s = drop_coroutine I config co s"

definition run_coroutine ::
    "('t \<Rightarrow> 'b option \<times> 't) \<Rightarrow> ('e \<Rightarrow> 'q \<Rightarrow> 'q) \<Rightarrow> ('b \<Rightarrow> 'w \<Rightarrow> 'w)
     \<Rightarrow> ('co, 'e, ('co, 'c, 't, 'q, 'm, 'w) tasks) coroutine_impl \<Rightarrow> usize \<Rightarrow> 'co
     \<Rightarrow> ('co, 'c, 't, 'q, 'm, 'w) tasks \<Rightarrow> ('co, 'c, 't, 'q, 'm, 'w) tasks outcome" where
  "run_coroutine tk st unpark I config co s =
     (case ci_resume I co s of
        (Some subscribe, co, s) \<Rightarrow> subscribe co s
      | (None, co, s) \<Rightarrow>
          (case locals s (ci_local I co) of
             None \<Rightarrow> Fault UndefinedBehaviour
           | Some local \<Rightarrow>
               (case joins s (cl_join local) of
                  None \<Rightarrow> Fault UndefinedBehaviour
                | Some join \<Rightarrow>
                    (let join = (case ci_panic_data I co of Some panic \<Rightarrow> set_panic_data st join panic | None \<Rightarrow> join)
                     in case join_trigger tk unpark join (blockers s) of
                          (join, w) \<Rightarrow>
                            drop_coroutine I config co
                              (s\<lparr>joins := (joins s)(cl_join local \<mapsto> join), blockers := w\<rparr>)))))"

text \<open>The closure of a spawned coroutine, for the result \<open>r\<close> of the function it runs.\<close>

definition spawn_closure ::
    "('r \<Rightarrow> 'p \<Rightarrow> 'p) \<Rightarrow> ('t \<Rightarrow> 'b option \<times> 't) \<Rightarrow> ('b \<Rightarrow> 'w \<Rightarrow> 'w) \<Rightarrow> 'r \<Rightarrow> 'p \<Rightarrow> ('t, 'q) join \<Rightarrow> 'w
     \<Rightarrow> 'p \<times> ('t, 'q) join \<times> 'w" where
  "spawn_closure st tk unpark r their_packet their_join w =
     (let their_packet = st r their_packet in (their_packet, join_trigger tk unpark their_join w))"

text \<open>The handle that \<open>spawn\<close> returns; the join is found by its address.\<close>

record ('co, 'p, 'q) join_handle =
  jh_coroutine :: 'co
  jh_join :: nat
  jh_packet :: 'p
  jh_panic :: 'q

definition make_join_handle :: "'co \<Rightarrow> nat \<Rightarrow> 'p \<Rightarrow> 'q \<Rightarrow> ('co, 'p, 'q) join_handle" where
  "make_join_handle coroutine join packet panic =
     \<lparr>jh_coroutine = coroutine, jh_join = join, jh_packet = packet, jh_panic = panic\<rparr>"

section \<open>What a trigger does\<close>

text \<open>The blocker that is registered, and nothing else, is woken.\<close>

definition woken :: "('t \<Rightarrow> 'b option \<times> 't) \<Rightarrow> ('b \<Rightarrow> 'w \<Rightarrow> 'w) \<Rightarrow> 't \<Rightarrow> 'w \<Rightarrow> 'w" where
  "woken tk unpark t w = (case fst (tk t) of Some b \<Rightarrow> unpark b w | None \<Rightarrow> w)"

lemma join_trigger_eq:
  "join_trigger tk unpark j w =
     (j\<lparr>join_state := False, to_wake := snd (tk (to_wake j))\<rparr>, woken tk unpark (to_wake j) w)"
  by (cases "tk (to_wake j)") (simp add: join_trigger_def woken_def Let_def split: option.split)

lemma run_coroutine_panic:
  assumes "ci_resume I co s = (None, co', s')" "locals s' (ci_local I co') = Some l" "joins s' (cl_join l) = Some j"
    and "ci_panic_data I co' = Some e" "ci_stack_usage I co' = (sz, used)"
  shows "run_coroutine tk st unpark I config co s =
    (if used = sz then Fault ExitProcess
     else Ok (s'\<lparr>joins := (joins s')(cl_join l \<mapsto>
                   j\<lparr>join_panic := st e (join_panic j), join_state := False, to_wake := snd (tk (to_wake j))\<rparr>),
                 blockers := woken tk unpark (to_wake j) (blockers s'),
                 pool := if sz = config then co' # pool s' else pool s',
                 locals := (locals s')(ci_local I co' := None)\<rparr>))"
  using assms by (simp add: run_coroutine_def set_panic_data_def join_trigger_eq drop_coroutine_def)

end
