(* ===== verification/Coroutine_Signal.thy ===== *)
theory Coroutine_Signal
  imports Coroutine_Runtime
begin

text \<open>
  The handler of the signals that a stack overflow raises (\<open>stack/unix/overflow.rs\<close>).

  The state of the system is of any type \<open>'k\<close>; \<open>os_sigaction\<close> and \<open>os_unblock\<close> of the record \<open>sig_os\<close> are
  \<open>sigaction\<close>, which gives the action that was installed before, and \<open>sigprocmask\<close> with \<open>SIG_UNBLOCK\<close>.
  \<open>sigaction_law\<close> says what the system promises. The messages that the handler prints are left out.
\<close>

section \<open>Signals\<close>

definition SIGBUS :: nat where
  "SIGBUS = 7"

definition SIGSEGV :: nat where
  "SIGSEGV = 11"

definition SA_SIGINFO :: "32 word" where
  "SA_SIGINFO = 0x00000004"

definition SA_ONSTACK :: "32 word" where
  "SA_ONSTACK = 0x08000000"

record sigaction =
  sa_sigaction :: usize
  sa_mask :: "u64 list"
  sa_flags :: "32 word"
  sa_restorer :: "usize option"

record 'k sig_os =
  os_sigaction :: "nat \<Rightarrow> sigaction \<Rightarrow> 'k \<Rightarrow> sigaction \<times> 'k"
  os_unblock :: "nat \<Rightarrow> 'k \<Rightarrow> 'k"

text \<open>\<open>cur k signum\<close> is the action installed for a signal.\<close>

definition sigaction_law :: "'k sig_os \<Rightarrow> ('k \<Rightarrow> nat \<Rightarrow> sigaction) \<Rightarrow> bool" where
  "sigaction_law S cur \<longleftrightarrow>
     (\<forall>signum a k. fst (os_sigaction S signum a k) = cur k signum
        \<and> cur (snd (os_sigaction S signum a k)) = (cur k)(signum := a))"

text \<open>The static \<open>SIG_ACTION\<close>, which is uninitialised at first, the flag of \<open>INIT_ONCE\<close> and the system.\<close>

record 'k signals =
  sig_action :: "sigaction option"
  init_done :: bool
  kernel :: 'k

section \<open>Installing the handler\<close>

text \<open>\<open>handler\<close> is the address of \<open>signal_handler\<close>. The old action is stored through a pointer to the static.\<close>

definition init_action :: "usize \<Rightarrow> sigaction" where
  "init_action handler =
     \<lparr>sa_sigaction = handler, sa_mask = replicate 16 0, sa_flags = or SA_SIGINFO SA_ONSTACK, sa_restorer = None\<rparr>"

primrec init_loop :: "'k sig_os \<Rightarrow> sigaction \<Rightarrow> nat list \<Rightarrow> 'k signals \<Rightarrow> 'k signals" where
  "init_loop S action [] w = w"
| "init_loop S action (signal # rest) w =
     (case os_sigaction S signal action (kernel w) of
        (old_action, k) \<Rightarrow> init_loop S action rest (w\<lparr>sig_action := Some old_action, kernel := k\<rparr>))"

definition signal_init :: "'k sig_os \<Rightarrow> usize \<Rightarrow> 'k signals \<Rightarrow> 'k signals" where
  "signal_init S handler w = init_loop S (init_action handler) [SIGSEGV, SIGBUS] w"

definition init_once :: "'k sig_os \<Rightarrow> usize \<Rightarrow> 'k signals \<Rightarrow> 'k signals" where
  "init_once S handler w = (if init_done w then w else (signal_init S handler w)\<lparr>init_done := True\<rparr>)"

section \<open>The handler\<close>

text \<open>A panic cannot leave a function with the C calling convention: it aborts the process.\<close>

definition no_unwind :: "'a outcome \<Rightarrow> 'a outcome" where
  "no_unwind x =
     (case x of
        Ok a \<Rightarrow> Ok a
      | Fault UndefinedBehaviour \<Rightarrow> Fault UndefinedBehaviour
      | Fault Diverges \<Rightarrow> Fault Diverges
      | Fault _ \<Rightarrow> Fault AbortProcess)"

text \<open>The assignment to \<open>err\<close> of the context at \<open>p\<close>.\<close>

definition set_err :: "nat \<Rightarrow> coroutine_error \<Rightarrow> 'v runtime \<Rightarrow> 'v runtime outcome" where
  "set_err p e rt = obind (deref_ctx rt p) (\<lambda>c. Ok (rt\<lparr>ctxs := (ctxs rt)(p \<mapsto> c\<lparr>err := Some e\<rparr>)\<rparr>))"

text \<open>
  \<open>a\<close> is the address of the fault. In the overflow case \<open>yield_now\<close> is that of \<open>std::thread\<close>, which comes
  back, so the handler goes on to \<open>process::abort\<close>.
\<close>

definition signal_handler ::
    "build \<Rightarrow> 'k sig_os \<Rightarrow> usize \<Rightarrow> nat \<Rightarrow> usize \<Rightarrow> 'v runtime \<Rightarrow> 'k signals \<Rightarrow> ('v runtime \<times> 'k signals) outcome" where
  "signal_handler E S page_size signum a rt w =
     no_unwind
      (obind (guard_current E page_size rt) (\<lambda>((lo, hi), rt).
         if \<not> (lo \<le> a \<and> a < hi)
         then case sig_action w of
                None \<Rightarrow> Fault UndefinedBehaviour
              | Some old_action \<Rightarrow> Ok (rt, w\<lparr>kernel := snd (os_sigaction S signum old_action (kernel w))\<rparr>)
         else case current rt of (root, rt) \<Rightarrow>
              obind (top_ctx root rt) (\<lambda>p.
              obind (set_err p ErrStackErr rt) (\<lambda>rt.
              let w = w\<lparr>kernel := os_unblock S signum (kernel w)\<rparr>
              in Fault AbortProcess))))"

section \<open>What the handler does\<close>

lemma init_once_twice: "init_once S handler (init_once S handler w) = init_once S handler w"
  by (simp add: init_once_def)

lemma signal_init_installs:
  assumes "sigaction_law S cur" "\<not> init_done w"
  shows "cur (kernel (init_once S handler w)) = (cur (kernel w))(SIGSEGV := init_action handler, SIGBUS := init_action handler)"
    and "sig_action (init_once S handler w) = Some (cur (kernel w) SIGBUS)"
proof -
  obtain o1 k1 where 1: "os_sigaction S SIGSEGV (init_action handler) (kernel w) = (o1, k1)" by fastforce
  obtain o2 k2 where 2: "os_sigaction S SIGBUS (init_action handler) k1 = (o2, k2)" by fastforce
  have l: "fst (os_sigaction S n a k) = cur k n" "cur (snd (os_sigaction S n a k)) = (cur k)(n := a)" for n a k
    using assms(1) by (simp_all add: sigaction_law_def)
  have "cur k1 = (cur (kernel w))(SIGSEGV := init_action handler)" "o2 = cur k1 SIGBUS"
    "cur k2 = (cur k1)(SIGBUS := init_action handler)"
    using l [of SIGSEGV "init_action handler" "kernel w"] l [of SIGBUS "init_action handler" k1] 1 2 by simp_all
  moreover have "init_once S handler w = w\<lparr>sig_action := Some o2, kernel := k2, init_done := True\<rparr>"
    using assms(2) 1 2 by (simp add: init_once_def signal_init_def)
  ultimately show "cur (kernel (init_once S handler w)) = (cur (kernel w))(SIGSEGV := init_action handler, SIGBUS := init_action handler)"
    "sig_action (init_once S handler w) = Some (cur (kernel w) SIGBUS)"
    by (simp_all add: SIGSEGV_def SIGBUS_def)
qed

text \<open>A thread that runs a generator, whose root is at \<open>root\<close> and whose stack ends at \<open>hi\<close>.\<close>

definition runs_generator :: "'v runtime \<Rightarrow> nat \<Rightarrow> usize \<Rightarrow> usize \<Rightarrow> bool" where
  "runs_generator rt root bottom hi \<longleftrightarrow>
     root_context_p rt = root \<and> root \<noteq> 0 \<and>
     (\<exists>r c. ctxs rt root = Some r \<and> child r \<noteq> 0 \<and> ctxs rt (child r) = Some c \<and> stack_guard c = (bottom, hi)
        \<and> ctxs rt (parent r) \<noteq> None)"

lemma guard_of_generator:
  assumes "runs_generator rt root bottom hi" "page_size \<le> bottom"
  shows "guard_current E page_size rt = Ok ((bottom - page_size, hi), rt)"
  using assms by (auto simp: runs_generator_def guard_current_def is_generator_def current_def deref_ctx_def usize_sub_def)

lemma handler_overflow:
  assumes "runs_generator rt root bottom hi" "page_size \<le> bottom" "bottom - page_size \<le> a" "a < hi"
  shows "signal_handler E S page_size signum a rt w = Fault AbortProcess"
  using assms
  by (auto simp: signal_handler_def guard_of_generator [OF assms(1,2)] runs_generator_def current_def top_ctx_def
      deref_ctx_def set_err_def no_unwind_def)

lemma handler_elsewhere:
  assumes "runs_generator rt root bottom hi" "page_size \<le> bottom" "a < bottom - page_size \<or> hi \<le> a"
    and "sig_action w = Some old"
  shows "signal_handler E S page_size signum a rt w = Ok (rt, w\<lparr>kernel := snd (os_sigaction S signum old (kernel w))\<rparr>)"
  using assms(3,4) by (auto simp: signal_handler_def guard_of_generator [OF assms(1,2)] no_unwind_def)

text \<open>A thread that runs none: the root context has no child.\<close>

definition runs_none :: "'v runtime \<Rightarrow> bool" where
  "runs_none rt \<longleftrightarrow> root_context_p rt \<noteq> 0 \<and> (\<exists>r. ctxs rt (root_context_p rt) = Some r \<and> child r = 0)"

lemma handler_outside_generators:
  "runs_none rt \<Longrightarrow> signal_handler E S page_size signum a rt w = Fault AbortProcess"
  by (auto simp: runs_none_def signal_handler_def guard_current_def is_generator_def current_def deref_ctx_def no_unwind_def)

end
