(* ===== verification/Coroutine_Theorems.thy ===== *)
theory Coroutine_Theorems
  imports Coroutine_Cells Coroutine_Runtime Coroutine_Stack Coroutine_Join Coroutine_Spawn Coroutine_Signal
begin

text \<open>
  Properties of the coroutine crate: what its lock, its cells and its back-off do, how the
  contexts of a thread are searched, and how large the stacks are.
\<close>

section \<open>Back-off\<close>

datatype backoff_call = Reset | Spin | Snooze

primrec backoff_run :: "backoff_call \<Rightarrow> backoff \<Rightarrow> backoff" where
  "backoff_run Reset b = backoff_reset b"
| "backoff_run Spin b = snd (backoff_spin b)"
| "backoff_run Snooze b = snd (backoff_snooze b)"

lemma step_up: "step b < (10 :: u32) \<Longrightarrow> step b + 1 \<le> 10"
  by (simp add: word_le_nat_alt word_less_nat_alt unat_word_ariths)

lemma backoff_run_bound: "step b \<le> 10 \<Longrightarrow> step (backoff_run c b) \<le> 10"
proof (cases c)
  case Spin
  assume b: "step b \<le> 10"
  have "step b < 10" if "step b \<le> 6" using that by (simp add: word_le_nat_alt word_less_nat_alt)
  then show ?thesis using Spin b step_up [of b] by (auto simp: backoff_spin_def SPIN_LIMIT_def)
next
  case Snooze
  assume b: "step b \<le> 10"
  then show ?thesis using Snooze step_up [of b] by (auto simp: backoff_snooze_def YIELD_LIMIT_def)
qed (simp add: backoff_reset_def)

text \<open>
  However a \<open>Backoff\<close> is used, its step stays at most \<open>YIELD_LIMIT\<close>, so \<open>spin\<close> makes at most 64
  turns, and \<open>is_completed\<close>, which asks for a step above the limit, never holds.
\<close>

lemma backoff_never_completes:
  "step (fold backoff_run cs backoff_new) \<le> YIELD_LIMIT
   \<and> fst (backoff_spin (fold backoff_run cs backoff_new)) \<le> 64
   \<and> \<not> is_completed (fold backoff_run cs backoff_new)"
proof -
  have "step (fold backoff_run cs b) \<le> 10" if "step b \<le> 10" for b
    using that by (induction cs arbitrary: b) (simp_all add: backoff_run_bound)
  then have s: "step (fold backoff_run cs backoff_new) \<le> 10" by (simp add: backoff_new_def)
  have "min (step b) 6 \<le> (6 :: u32)" for b :: backoff by simp
  then have "unat (min (step b) 6) \<le> 6" for b :: backoff by (simp add: word_le_nat_alt)
  then have "(2 :: nat) ^ unat (min (step b) 6) \<le> 2 ^ 6" for b :: backoff by (intro power_increasing) simp_all
  then show ?thesis using s by (simp add: YIELD_LIMIT_def SPIN_LIMIT_def backoff_spin_def is_completed_def not_less)
qed

section \<open>The lock\<close>

lemma seq_write_1: "seq_write 1 b = (1, 1)"
  by (subst seq_write.simps) (simp add: seq_swap_def)

lemma seq_write_eq: "seq_write s b = (1, 1)"
  using seq_write_1 by (subst seq_write.simps) (simp add: seq_swap_def)

definition lock_inv :: "lock_world \<Rightarrow> bool" where
  "lock_inv w \<longleftrightarrow> state w \<in> {0, 1, 3} \<and> (\<forall>t g. threads w t = Holding g \<longrightarrow> g = 1)"

lemma seq_drop_1: "seq_drop 1 = 3" "seq_drop (Suc 0) = 3"
  by (simp_all add: seq_drop_def)

lemma lock_inv_guard: "lock_inv w \<Longrightarrow> threads w t = Holding g \<Longrightarrow> g = 1"
  by (simp add: lock_inv_def)

lemma lock_inv_upd:
  assumes "lock_inv w" "s \<in> {0, 1, 3}" "\<And>g. x = Holding g \<Longrightarrow> g = 1"
  shows "lock_inv (w\<lparr>state := s, threads := (threads w)(t := x)\<rparr>)"
  using assms(2,3) lock_inv_guard [OF assms(1)] unfolding lock_inv_def by (simp split: if_split)

lemma lock_step_inv:
  assumes "lock_step w w'" "lock_inv w"
  shows "lock_inv w'"
  using assms(1)
proof (cases rule: lock_step.cases)
  case (call t)
  have "lock_inv (w\<lparr>state := state w, threads := (threads w)(t := Spinning)\<rparr>)"
    by (rule lock_inv_upd [OF assms(2)]) (use assms(2) in \<open>simp_all add: lock_inv_def\<close>)
  then show ?thesis using call by simp
next
  case (acquire t g s)
  then show ?thesis by (auto simp: seq_swap_def Let_def intro!: lock_inv_upd [OF assms(2)] split: if_splits)
next
  case (again t s)
  then have "s = 1" by (simp add: seq_swap_def Let_def)
  then show ?thesis using again assms(2) by (simp add: lock_inv_def)
next
  case (abort t g)
  then have "g = 1" by (intro lock_inv_guard [OF assms(2)])
  then show ?thesis using abort by (auto simp: seq_abort_def intro!: lock_inv_upd [OF assms(2)])
next
  case (release t g)
  then have "g = 1" by (intro lock_inv_guard [OF assms(2)])
  then show ?thesis using release by (auto simp: seq_drop_1 intro!: lock_inv_upd [OF assms(2)])
qed

lemma lock_reach_inv: "lock_reach w \<Longrightarrow> lock_inv w"
proof -
  have "lock_step\<^sup>*\<^sup>* w w' \<Longrightarrow> lock_inv w \<Longrightarrow> lock_inv w'" for w w'
    by (induction rule: rtranclp_induct) (auto intro: lock_step_inv)
  then show "lock_reach w \<Longrightarrow> ?thesis" by (auto simp: lock_reach_def lock_inv_def world_new_def seq_new_def)
qed

text \<open>A thread that is idle can get the guard, whatever the others do.\<close>

lemma get_guard:
  assumes "threads w t = Idle"
  obtains w' where "lock_step\<^sup>*\<^sup>* w w'" "state w' = 1" "threads w' = (threads w)(t := Holding 1)"
proof -
  let ?w1 = "w\<lparr>threads := (threads w)(t := Spinning)\<rparr>"
  let ?w2 = "?w1\<lparr>state := 1\<rparr>"
  let ?w3 = "?w2\<lparr>state := 1, threads := (threads ?w2)(t := Holding 1)\<rparr>"
  have 1: "lock_step w ?w1" using assms by (rule call)
  have 2: "lock_step\<^sup>*\<^sup>* ?w1 ?w2"
  proof (cases "state w = 1")
    case True
    then have "?w2 = ?w1" by (cases w) simp
    then show ?thesis by simp
  next
    case False
    then have "lock_step ?w1 ?w2" by (intro again [of _ t]) (simp_all add: seq_swap_def)
    then show ?thesis by blast
  qed
  have 3: "lock_step ?w2 ?w3" by (rule acquire) (simp_all add: seq_swap_def)
  have "lock_step\<^sup>*\<^sup>* w ?w3"
    using converse_rtranclp_into_rtranclp [of lock_step, OF 1 2] 3 by (rule rtranclp.rtrancl_into_rtrancl)
  then show thesis by (rule that) simp_all
qed

text \<open>
  C18. The lock does not exclude. \<open>write\<close> returns when the state was already 1, that is, when the
  lock was taken: from the new lock, two different threads can hold its guard at the same
  time. In every reachable state each guard carries the stamp 1 and the state is 0, 1 or 3.
\<close>

theorem seq_lock_no_exclusion:
  "(\<exists>w. lock_reach w \<and> threads w 0 = Holding 1 \<and> threads w 1 = Holding 1)
   \<and> (\<forall>w. lock_reach w \<longrightarrow> state w \<in> {0, 1, 3} \<and> (\<forall>t g. threads w t = Holding g \<longrightarrow> g = 1))"
proof
  obtain a where a: "lock_step\<^sup>*\<^sup>* world_new a" "threads a = (threads world_new)(0 := Holding 1)"
    by (rule get_guard [of world_new 0]) (simp_all add: world_new_def)
  obtain b where b: "lock_step\<^sup>*\<^sup>* a b" "threads b = (threads a)(1 := Holding 1)"
    by (rule get_guard [of a 1]) (simp_all add: a(2) world_new_def)
  have "lock_reach b" using a(1) b(1) by (simp add: lock_reach_def)
  then show "\<exists>w. lock_reach w \<and> threads w 0 = Holding 1 \<and> threads w 1 = Holding 1"
    using a(2) b(2) by (intro exI [of _ b]) simp
  show "\<forall>w. lock_reach w \<longrightarrow> state w \<in> {0, 1, 3} \<and> (\<forall>t g. threads w t = Holding g \<longrightarrow> g = 1)"
    using lock_reach_inv by (simp add: lock_inv_def)
qed

theorem seq_lock_no_exclusion_witness:
  "lock_reach world_new \<and> state world_new \<in> {0, 1, 3}"
  using seq_lock_no_exclusion by (simp add: lock_reach_def)

text \<open>
  Stamps do not tell writes apart. Once a write has been made, the stamp of the free lock is
  3; a reader that takes it and, before it validates, lets any number of whole writes pass, still
  validates its read.
\<close>

lemma seq_lock_stale_read:
  assumes "lock_reach w" "threads w t = Idle" "optimistic_read (state w) = Some stamp" "stamp \<noteq> 0"
  shows "\<exists>w1 w2. lock_step\<^sup>*\<^sup>* w w1 \<and> threads w1 t = Holding 1 \<and> lock_step w1 w2
    \<and> threads w2 = threads w \<and> validate_read (state w2) stamp"
proof -
  have "state w \<in> {0, 1, 3}" using lock_reach_inv [OF assms(1)] by (simp add: lock_inv_def)
  then have stamp: "stamp = 3" using assms(3,4) by (auto simp: optimistic_read_def split: if_splits)
  obtain w1 where w1: "lock_step\<^sup>*\<^sup>* w w1" "threads w1 = (threads w)(t := Holding 1)"
    by (rule get_guard [OF assms(2)])
  let ?w2 = "w1\<lparr>state := seq_drop 1, threads := (threads w1)(t := Idle)\<rparr>"
  have "lock_step w1 ?w2" by (rule release) (simp add: w1(2))
  moreover have "threads ?w2 = threads w" using w1(2) assms(2) by (auto simp: fun_eq_iff)
  moreover have "validate_read (state ?w2) stamp" "threads w1 t = Holding 1"
    by (simp_all add: stamp validate_read_def seq_drop_1 w1(2))
  ultimately show ?thesis using w1(1) by blast
qed

lemma reach_stamp_3:
  obtains w where "lock_reach w" "state w = 3" "threads w = (\<lambda>_. Idle)"
proof -
  obtain w where w: "lock_step\<^sup>*\<^sup>* world_new w" "threads w = (threads world_new)(0 := Holding 1)"
    by (rule get_guard [of world_new 0]) (simp_all add: world_new_def)
  let ?w = "w\<lparr>state := seq_drop 1, threads := (threads w)(0 := Idle)\<rparr>"
  have "lock_step w ?w" by (rule release) (simp add: w(2))
  then have "lock_reach ?w" using w(1) by (simp add: lock_reach_def)
  then show thesis
    by (rule that) (auto simp: seq_drop_1 w(2) world_new_def)
qed

section \<open>Cells\<close>

lemma locked_update_eq: "locked_update f c = (ac_value c, c\<lparr>ac_value := f (ac_value c), ac_lock := 3\<rparr>)"
  by (simp add: locked_update_def seq_write_eq seq_drop_1 Let_def)

lemmas rmw_defs = fetch_add_def fetch_sub_def fetch_and_def fetch_nand_def fetch_or_def fetch_xor_def
  fetch_max_def fetch_min_def fallback_fetch_add_def fallback_fetch_sub_def fallback_fetch_and_def
  fallback_fetch_nand_def fallback_fetch_or_def fallback_fetch_xor_def fallback_fetch_max_def
  fallback_fetch_min_def

text \<open>
  The new values, for a thread that nobody disturbs and both ways of updating: sums and differences
  wrap, and the order of the type decides the maximum.
\<close>

lemma rmw_values:
  fixes c :: "'n::len word atomic_cell"
  shows "ac_value (snd (fetch_add T x c)) = ac_value c + x" "ac_value (snd (fetch_sub T x c)) = ac_value c - x"
    "ac_value (snd (fetch_nand T x c)) = not (and (ac_value c) x)"
    "ac_value (snd (fetch_max (\<le>) T x c)) = max (ac_value c) x" "ac_value (snd (fetch_min (\<le>) T x c)) = min (ac_value c) x"
    "sint (ac_value (snd (fetch_max (\<lambda>a b. sint a \<le> sint b) T x c))) = max (sint (ac_value c)) (sint x)"
    "sint (ac_value (snd (fetch_min (\<lambda>a b. sint a \<le> sint b) T x c))) = min (sint (ac_value c)) (sint x)"
  by (simp_all add: rmw_defs atomic_def instr_update_def locked_update_eq max_def min_def)

text \<open>
  C26. The fallback of \<open>AtomicCell\<close> is not atomic, because its lock does not exclude. A thread that runs an
  update alone does what \<open>locked_update\<close> says, from every reachable state and whatever the other threads
  hold. But two overlapping updates can both return the old value and leave the effect of one, and a
  load can return the first word of one stored value with the second word of another: its stamp
  validates although a whole store came in between.
\<close>

theorem fallback_not_atomic:
  assumes f: "\<forall>xs. length xs = length v \<longrightarrow> length (f xs) = length v"
  shows "(\<forall>w t. cell_reach {OUpdate f} v w \<and> cw_phase w t = CIdle \<longrightarrow>
        (case locked_update f (cell_new (cw_mem w) (cw_lock w)) of (old, c) \<Rightarrow>
           cell_steps {OUpdate f} w
             \<lparr>cw_lock = ac_lock c, cw_mem = ac_value c, cw_phase = (cw_phase w)(t := CRet old)\<rparr>))
    \<and> (\<exists>w. cell_reach {OUpdate f} v w \<and> cw_phase w 0 = CRet v \<and> cw_phase w 1 = CRet v \<and> cw_mem w = f v)
    \<and> (\<exists>w. cell_reach {OStore [a, b], OStore [c, d]} [a, b] w \<and> cw_phase w 1 = CRet [a, d])"
proof (intro conjI allI impI)
  fix w t assume w: "cell_reach {OUpdate f} v w \<and> cw_phase w t = CIdle"
  obtain l m P where e: "w = \<lparr>cw_lock = l, cw_mem = m, cw_phase = P\<rparr>" by (cases w)
  have t: "P t = CIdle" "length (f m) = length m" using w f reach_length [of "{OUpdate f}" v w] by (simp_all add: e)
  have "(P(t := CHold 1 (OUpdate f) m)) t = CHold 1 (OUpdate f) m" by simp
  note u = update_ends [where P = "P(t := CHold 1 (OUpdate f) m)" and t = t and f = f and old = m and m = m, OF this refl t(2)]
  have "cell_steps {OUpdate f} w \<lparr>cw_lock = 1, cw_mem = m, cw_phase = P(t := CHold 1 (OUpdate f) m)\<rparr>"
    unfolding e by (rule update_begins [where P = P and t = t and f = f, OF t(1)]) simp
  from rtranclp_trans [of "cell_step {OUpdate f}", OF this u [of _ 1]]
  show "case locked_update f (cell_new (cw_mem w) (cw_lock w)) of (old, c) \<Rightarrow>
      cell_steps {OUpdate f} w \<lparr>cw_lock = ac_lock c, cw_mem = ac_value c, cw_phase = (cw_phase w)(t := CRet old)\<rparr>"
    by (simp add: e locked_update_eq cell_new_def seq_drop_1)
next
  show "\<exists>w. cell_reach {OUpdate f} v w \<and> cw_phase w 0 = CRet v \<and> cw_phase w 1 = CRet v \<and> cw_mem w = f v"
    by (rule update_lost) (use f in simp)
  show "\<exists>w. cell_reach {OStore [a, b], OStore [c, d]} [a, b] w \<and> cw_phase w 1 = CRet [a, d]" by (rule load_torn)
qed

theorem fallback_not_atomic_witness:
  "\<exists>w. cell_reach {OUpdate (map (\<lambda>x. x + 1))} [5, 0] w \<and> cw_phase w 0 = CRet [5, 0] \<and> cw_phase w 1 = CRet [5, 0]
     \<and> cw_mem w = [6, 1 :: u64]"
proof -
  have "\<forall>xs. length xs = length [5, 0 :: u64] \<longrightarrow> length (map (\<lambda>x. x + 1) xs) = length [5, 0 :: u64]" by simp
  from fallback_not_atomic [OF this, of 1 2 3 "4 :: nat"]
  have "\<exists>w. cell_reach {OUpdate (map (\<lambda>x. x + 1))} [5, 0 :: u64] w \<and> cw_phase w 0 = CRet [5, 0] \<and> cw_phase w 1 = CRet [5, 0]
     \<and> cw_mem w = map (\<lambda>x. x + 1) [5, 0]" by blast
  then show ?thesis by simp
qed










text \<open>
  Which types use an instruction is decided by their size alone. The comment on
  \<open>can_transmute\<close> asks for an alignment at least that of the atomic type, but the code compares the
  sizes twice: a type of 8 bytes with alignment 1 is treated as an \<open>AtomicU64\<close>, whose alignment is 8.
\<close>

lemma lock_free_by_size:
  "atomic_is_lock_free T = (size_of T \<in> {0, 1, 2, 4, 8})
   \<and> can_transmute \<lparr>size_of = 8, align_of = 1\<rparr> \<lparr>size_of = 8, align_of = 8\<rparr>"
  by (auto simp: atomic_is_lock_free_def atomic_types_def can_transmute_def)

section \<open>Contexts\<close>

lemma coroutine_ctx_chain:
  assumes "ctxs rt root = Some r" "chain_to_root (ctxs rt) root (parent r) qs"
  shows "coroutine_ctx root rt = Ok (find (has_local rt) qs)"
proof -
  obtain c where c: "ctxs rt (parent r) = Some c" using chain_start [OF assms(2)] assms(1) by auto
  have "find (has_local rt) qs \<noteq> Some root"
    using assms(2) by (induction qs arbitrary: r) (auto split: option.splits if_splits)
  then show ?thesis
    using search_local_chain [OF assms(2)] assms(1) c
    by (auto simp: coroutine_ctx_def top_ctx_def deref_ctx_def split: option.split)
qed

text \<open>
  C23. The search for the coroutine of a thread ends and finds the right context: when the parents
  of the contexts lead from the top to the root, \<open>coroutine_ctx\<close> returns the first context on the way
  that has local data, or none, and \<open>get_local_data\<close> is the data of that context, or null.
\<close>

theorem coroutine_ctx_finds:
  assumes "root_context_p rt = root" "root \<noteq> 0" "ctxs rt root = Some r"
    and "chain_to_root (ctxs rt) root (parent r) qs"
  shows "coroutine_ctx root rt = Ok (find (has_local rt) qs)
    \<and> get_local_data rt =
        Ok (case find (has_local rt) qs of None \<Rightarrow> 0 | Some p \<Rightarrow> local_data (the (ctxs rt p)), rt)"
proof
  show *: "coroutine_ctx root rt = Ok (find (has_local rt) qs)"
    by (rule coroutine_ctx_chain [OF assms(3,4)])
  have "has_local rt p" if "find (has_local rt) qs = Some p" for p
    using that by (auto simp: find_Some_iff)
  then show "get_local_data rt =
        Ok (case find (has_local rt) qs of None \<Rightarrow> 0 | Some p \<Rightarrow> local_data (the (ctxs rt p)), rt)"
    using * search_local_chain [OF assms(4)] assms(1-3)
    by (auto simp: get_local_data_def current_def coroutine_ctx_def obind_Ok_conv has_local_def deref_ctx_def
        split: option.splits if_splits)
qed

theorem coroutine_ctx_finds_witness:
  "let rt = \<lparr>ctxs = [1 \<mapsto> context_new\<lparr>parent := 3\<rparr>, 2 \<mapsto> context_new\<lparr>parent := 1, local_data := 40\<rparr>,
                    3 \<mapsto> context_new\<lparr>parent := 2\<rparr>], slots = (\<lambda>_. None), root_context_p = 1,
            next_addr = 4\<rparr> :: nat runtime
   in coroutine_ctx 1 rt = Ok (Some 2) \<and> get_local_data rt = Ok (40, rt)"
  using coroutine_ctx_finds [of "\<lparr>ctxs = [1 \<mapsto> context_new\<lparr>parent := 3\<rparr>, 2 \<mapsto> context_new\<lparr>parent := 1, local_data := 40\<rparr>,
                    3 \<mapsto> context_new\<lparr>parent := 2\<rparr>], slots = (\<lambda>_. None), root_context_p = 1,
            next_addr = 4\<rparr> :: nat runtime" 1 "context_new\<lparr>parent := 3\<rparr>" "[3, 2]"]
  by (simp add: has_local_def context_new_def)

section \<open>Cancelling\<close>

datatype cancel_call = Disable | Enable | Cancel

text \<open>One call at the state and the world; and how deeply disabled it is after a list of calls, if no
  \<open>enable_cancel\<close> lacks its \<open>disable_cancel\<close>.\<close>

primrec cancel_run ::
    "('c \<Rightarrow> 'a option \<times> 'c) \<Rightarrow> ('a \<Rightarrow> 'w \<Rightarrow> 'co option \<times> 'w) \<Rightarrow> ('co \<Rightarrow> 'w \<Rightarrow> 'w)
     \<Rightarrow> cancel_call \<Rightarrow> 'c cancel \<times> 'w \<Rightarrow> 'c cancel \<times> 'w" where
  "cancel_run tk inner resume Disable s = (disable_cancel (fst s), snd s)"
| "cancel_run tk inner resume Enable s = (enable_cancel (fst s), snd s)"
| "cancel_run tk inner resume Cancel s = cancel_cancel tk inner resume (fst s) (snd s)"

fun depth :: "nat \<Rightarrow> cancel_call list \<Rightarrow> nat option" where
  "depth d [] = Some d"
| "depth d (Disable # cs) = depth (Suc d) cs"
| "depth d (Enable # cs) = (if d = 0 then None else depth (d - 1) cs)"
| "depth d (Cancel # cs) = depth d cs"

lemma cancel_state_cancelled:
  "cancel_state (fst (cancel_cancel tk inner resume c w)) = or (cancel_state c) 1"
  by (simp add: cancel_cancel_def io_cancel_def Let_def split: prod.split option.split)

lemma or_one_state: "or (of_nat (2 * d + of_bool k) :: u64) 1 = of_nat (2 * d + 1)"
  by (cases k) (simp_all add: or_one_eq)

lemma cancel_run_state:
  assumes "depth d cs = Some e" "cancel_state (fst s) = of_nat (2 * d + of_bool k)"
  shows "cancel_state (fst (fold (cancel_run tk inner resume) cs s)) = of_nat (2 * e + of_bool (k \<or> Cancel \<in> set cs))"
    "e \<le> d + length cs"
  using assms
proof (induction d cs arbitrary: s k rule: depth.induct)
  case (2 d cs)
  {
    case 1
    then show ?case using 2(1) [of "cancel_run tk inner resume Disable s" k]
      by (simp add: disable_cancel_def algebra_simps)
  next
    case 2
    then show ?case using "2.IH"(2) [of "cancel_run tk inner resume Disable s" k]
      by (simp add: disable_cancel_def algebra_simps)
  }
next
  case (3 d cs)
  {
    case 1
    then show ?case using 3(1) [of "cancel_run tk inner resume Enable s" k]
      by (cases d) (simp_all add: enable_cancel_def algebra_simps)
  next
    case 2
    then show ?case using 3(2) [of "cancel_run tk inner resume Enable s" k]
      by (cases d) (simp_all add: enable_cancel_def algebra_simps)
  }
next
  case (4 d cs)
  {
    case 1
    then show ?case using 4(1) [of "cancel_run tk inner resume Cancel s" True] or_one_state [of d k]
      by (simp add: cancel_state_cancelled)
  next
    case 2
    then show ?case using 4(2) [of "cancel_run tk inner resume Cancel s" True] or_one_state [of d k]
      by (simp add: cancel_state_cancelled)
  }
qed simp_all

lemma unat_small: "x < 2 ^ 64 \<Longrightarrow> unat (of_nat x :: u64) = x"
  by (simp add: unsigned_of_nat take_bit_nat_eq_self)

text \<open>
  C28. Disabling nests. After any sequence of \<open>disable_cancel\<close>, \<open>enable_cancel\<close> and \<open>cancel\<close> on a fresh state, in which
  every enable has its disable before it, the state is disabled exactly while a disable is open, and
  \<open>is_cancelled\<close> holds exactly when none is open and a cancel has come at any point.
\<close>

theorem cancel_nests:
  assumes "cancel_state c = 0" "depth 0 cs = Some d" "length cs < 2 ^ 62"
  shows "let k = fst (fold (cancel_run tk inner resume) cs (c, w))
    in is_disabled k = (0 < d) \<and> is_cancelled k = (d = 0 \<and> Cancel \<in> set cs)
       \<and> cancel_state k = of_nat (2 * d + of_bool (Cancel \<in> set cs))"
proof -
  let ?k = "fst (fold (cancel_run tk inner resume) cs (c, w))" and ?x = "2 * d + of_bool (Cancel \<in> set cs)"
  have s: "cancel_state ?k = of_nat ?x" and d: "d \<le> length cs"
    using cancel_run_state(1) [OF assms(2), where s = "(c, w)" and k = False and tk = tk and inner = inner and resume = resume]
      cancel_run_state(2) [OF assms(2), where s = "(c, w)" and k = False] assms(1) by simp_all
  have "?x < 2 ^ 64" using d assms(3) by (cases "Cancel \<in> set cs") simp_all
  then have u: "unat (cancel_state ?k) = ?x" unfolding s by (rule unat_small)
  have "is_disabled ?k = (2 \<le> ?x)" using u by (simp add: is_disabled_def word_le_nat_alt)
  moreover have "is_cancelled ?k = (?x = 1)"
    using u unat_1 by (simp add: is_cancelled_def word_unat_eq_iff del: unat_1)
  ultimately show ?thesis using s by (cases "Cancel \<in> set cs"; cases d) (simp_all add: Let_def)
qed

theorem cancel_nests_witness:
  "let run = (\<lambda>cs. fst (fold (cancel_run (\<lambda>c. (c, None)) (\<lambda>a w. (Some a, w)) (\<lambda>co w. w + co)) cs
       (cancel_new (Some (1 :: nat)), 5 :: nat)))
   in is_disabled (run [Disable, Disable, Cancel, Enable]) \<and> \<not> is_cancelled (run [Disable, Disable, Cancel, Enable])
      \<and> is_cancelled (run [Disable, Disable, Cancel, Enable, Enable])"
proof -
  have c: "cancel_state (cancel_new (Some (1 :: nat))) = 0" by (simp add: cancel_new_def)
  note n = cancel_nests [OF c, unfolded Let_def, where tk = "\<lambda>c. (c, None)" and inner = "\<lambda>a w. (Some a, w)"
      and resume = "\<lambda>co w. w + co" and w = "5 :: nat"]
  show ?thesis
    using n [of "[Disable, Disable, Cancel, Enable]" 1] n [of "[Disable, Disable, Cancel, Enable, Enable]" 0]
    by (simp add: Let_def)
qed

section \<open>Stacks\<close>

lemma and_high: "x AND push_bit k (mask m) = push_bit k (take_bit m (drop_bit k (x :: nat)))"
  by (rule bit_eqI) (auto simp: bit_simps)

lemma page_mask_eq: "k < 64 \<Longrightarrow> page_mask (2 ^ k) = push_bit k (mask (64 - k))"
proof -
  assume k: "k < 64"
  have "(2 :: nat) ^ k * (2 ^ (64 - k) - 1) = 2 ^ k * 2 ^ (64 - k) - 2 ^ k" by (simp add: diff_mult_distrib2)
  also have "(2 :: nat) ^ k * 2 ^ (64 - k) = 2 ^ 64" using k by (simp flip: power_add)
  finally have *: "push_bit k (mask (64 - k)) = (2 ^ 64 - 2 ^ k :: nat)"
    by (simp add: push_bit_eq_mult mask_eq_exp_minus_1 mult.commute)
  have b: "(2 :: nat) ^ k < 2 ^ 64" by (rule power_strict_increasing [OF k]) simp
  have p: "(1 :: nat) \<le> 2 ^ k" by simp
  have "((2 :: nat) ^ k + 2 ^ 64 - 1) mod 2 ^ 64 = 2 ^ k - 1"
    using p b by (simp add: mod_if)
  with * p b show ?thesis by (simp add: page_mask_def usize_max_def)
qed

lemma page_round:
  assumes "k < 64" "x < 2 ^ 64"
  shows "x AND page_mask (2 ^ k) = x div 2 ^ k * 2 ^ k"
proof -
  have "x div 2 ^ k < 2 ^ (64 - k)"
    using assms by (simp add: less_mult_imp_div_less flip: power_add)
  then have "take_bit (64 - k) (drop_bit k x) = x div 2 ^ k"
    by (simp add: drop_bit_eq_div take_bit_nat_eq_self)
  then show ?thesis using assms(1)
    by (simp add: page_mask_eq and_high) (simp add: push_bit_eq_mult)
qed

lemma max_stack_bound: "max_stack S \<le> usize_max"
  by (simp add: max_stack_size_def usize_max_def Let_def split: option.split)

definition mmap_fits :: "os \<Rightarrow> bool" where
  "mmap_fits S \<longleftrightarrow> (\<forall>n p. os_mmap S n = Some p \<longrightarrow> p + n \<le> usize_max)"

definition round_up :: "nat \<Rightarrow> nat \<Rightarrow> nat" where
  "round_up ps n = (n - 1) div ps * ps + ps"

lemma round_up_bounds: "0 < ps \<Longrightarrow> 0 < n \<Longrightarrow> n \<le> round_up ps n \<and> round_up ps n < n + ps"
  unfolding round_up_def
  using div_mult_mod_eq [of "n - 1" ps] mod_less_divisor [of ps "n - 1"] by linarith

lemma protected_stack:
  assumes "page S = ps" "0 < ps" "len mod ps = 0" "0 < len" "mmap_fits S"
  shows "map_stack E S (len + ps) True =
    Ok (case os_mmap S (len + ps) of
          None \<Rightarrow> Inl IoError
        | Some p \<Rightarrow> if os_mprotect S p ps then Inr \<lparr>ss_top = p + len + ps, ss_bottom = p + ps\<rparr> else Inl IoError)"
proof (cases "os_mmap S (len + ps)")
  case (Some p)
  have fit: "p + (len + ps) \<le> usize_max" using assms(5) Some unfolding mmap_fits_def by blast
  then have 1: "allocate_stack E S (len + ps) = Ok (Inr \<lparr>ss_top = p + (len + ps), ss_bottom = p\<rparr>)"
    using Some by (simp add: allocate_stack_def usize_add_def sys_stack_new_def)
  have "sys_stack_len E \<lparr>ss_top = p + (len + ps), ss_bottom = p\<rparr> = Ok (len + ps)"
    by (simp add: sys_stack_len_def usize_sub_def)
  moreover have "usize_add E p ps = Ok (p + ps)" using fit by (simp add: usize_add_def)
  moreover have "(len + ps) mod ps = 0" using assms(3) by simp
  ultimately have 2: "protect_stack E S \<lparr>ss_top = p + (len + ps), ss_bottom = p\<rparr> =
      Ok (if os_mprotect S p ps then Inr \<lparr>ss_top = p + len + ps, ss_bottom = p + ps\<rparr> else Inl ())"
    using assms(1,2,4) by (simp add: protect_stack_def sys_stack_new_def add.assoc)
  show ?thesis by (simp add: map_stack_def 1 2 Some)
qed (simp add: map_stack_def allocate_stack_def)

lemma allocate_protected:
  assumes "os_sysconf S = 2 ^ k" "k < 63" "sz \<le> usize_max" "2 * 2 ^ k \<le> max_stack S" "mmap_fits S"
  defines "len \<equiv> round_up (2 ^ k) (max sz (2 ^ k))"
  shows "sys_stack_allocate E S sz True =
    Ok (if len + 2 ^ k \<le> max_stack S
        then case os_mmap S (len + 2 ^ k) of
               None \<Rightarrow> Inl IoError
             | Some p \<Rightarrow> if os_mprotect S p (2 ^ k)
                          then Inr \<lparr>ss_top = p + len + 2 ^ k, ss_bottom = p + 2 ^ k\<rparr> else Inl IoError
        else Inl (ExceedsMaximumSize (max_stack S - 2 * 2 ^ k)))"
proof -
  let ?ps = "2 ^ k :: nat"
  let ?n = "max sz ?ps"
  have ps: "page S = ?ps" "min_stack_size S = ?ps" "0 < ?ps" using assms(1) by (simp_all add: page_size_def min_stack_size_def)
  have k: "?ps \<le> 2 ^ 62" by (rule power_increasing) (use assms(2) in simp_all)
  have extra: "push_bit 1 (page S) mod 2 ^ 64 = 2 * ?ps" using k ps(1) by (simp add: push_bit_eq_mult)
  have n: "(if sz < min_stack_size S then min_stack_size S else sz) = ?n" by (simp add: ps max_def)
  have sub: "usize_sub E ?n 1 = Ok (?n - 1)" "usize_sub E (max_stack S) (2 * ?ps) = Ok (max_stack S - 2 * ?ps)"
    using ps(3) assms(4) by (simp_all add: usize_sub_def le_max_iff_disj Suc_le_eq)
  have "?n - 1 < 2 ^ 64" using assms(3) k by (simp add: usize_max_def)
  then have "(?n - 1) AND page_mask ?ps = len - ?ps"
    unfolding len_def round_up_def using page_round [of k "?n - 1"] assms(2) by simp
  moreover have "?ps \<le> len" by (simp add: len_def round_up_def)
  moreover have m: "len mod ?ps = 0" "0 < len" by (simp_all add: len_def round_up_def)
  ultimately have "checked_add ((?n - 1) AND page_mask ?ps) (2 * ?ps) = (if len + ?ps \<le> usize_max then Some (len + ?ps) else None)"
    by (simp add: checked_add_def)
  then show ?thesis
    using max_stack_bound [of S] protected_stack [OF ps(1,3) m assms(5), of E] sub extra
    unfolding sys_stack_allocate_def n ps(1) by (auto simp: Let_def)
qed

lemma round_up_le: "0 < ps \<Longrightarrow> 0 < n \<Longrightarrow> round_up ps n \<le> q * ps \<longleftrightarrow> n \<le> q * ps"
proof
  assume p: "0 < ps" "0 < n" and n: "n \<le> q * ps"
  then have "(n - 1) div ps < q" by (intro less_mult_imp_div_less) simp
  then have "((n - 1) div ps + 1) * ps \<le> q * ps" by (intro mult_le_mono1) simp
  then show "round_up ps n \<le> q * ps" by (simp add: round_up_def)
qed (use round_up_bounds [of ps n] in linarith)

text \<open>The sizes that fit under a limit of whole pages: all but the last page, the guard page.\<close>

lemma largest_stack:
  assumes "(ps :: nat) dvd m" "0 < ps" "2 * ps \<le> m"
  shows "round_up ps (max sz ps) + ps \<le> m \<longleftrightarrow> sz \<le> m - ps"
proof -
  obtain q where q: "m = ps * q" using assms(1) by (rule dvdE)
  then have "2 \<le> q" using assms(2,3) by simp
  then obtain k where "q = Suc k" "1 \<le> k" by (cases q) simp_all
  then have k: "m = k * ps + ps" "1 \<le> k" using q by simp_all
  have "ps \<le> k * ps" using k(2) by simp
  moreover have "round_up ps (max sz ps) + ps \<le> m \<longleftrightarrow> max sz ps \<le> k * ps"
    using round_up_le [of ps "max sz ps" k] assms(2) k(1) by (simp add: less_max_iff_disj)
  ultimately show ?thesis using k(1) by simp
qed

text \<open>
  C24. The memory of a protected stack. With a page size that is a power of two and room for two
  pages under the limit, \<open>SysStack::allocate\<close> gives, above a guard page, the requested size rounded up
  to whole pages: at least the size asked for and less than one page more, at least one page. When
  that and the guard page exceed the limit it returns the error, which names the limit less two
  pages; but under a limit of whole pages a size fits exactly when it leaves one page, so this is one
  page less than the largest size that is accepted. A failing system call gives \<open>IoError\<close>.
  \<open>drop_stack\<close> unmaps exactly what was mapped.
\<close>

theorem stack_allocation:
  assumes "os_sysconf S = 2 ^ k" "k < 63" "sz \<le> usize_max" "2 * 2 ^ k \<le> max_stack S" "mmap_fits S"
  defines "len \<equiv> round_up (2 ^ k) (max sz (2 ^ k))"
  shows "sys_stack_allocate E S sz True =
      Ok (if len + 2 ^ k \<le> max_stack S
          then case os_mmap S (len + 2 ^ k) of
                 None \<Rightarrow> Inl IoError
               | Some p \<Rightarrow> if os_mprotect S p (2 ^ k)
                            then Inr \<lparr>ss_top = p + len + 2 ^ k, ss_bottom = p + 2 ^ k\<rparr> else Inl IoError
          else Inl (ExceedsMaximumSize (max_stack S - 2 * 2 ^ k)))
    \<and> max sz (2 ^ k) \<le> len \<and> len < max sz (2 ^ k) + 2 ^ k
    \<and> (2 ^ k dvd max_stack S \<longrightarrow> (len + 2 ^ k \<le> max_stack S \<longleftrightarrow> sz \<le> max_stack S - 2 ^ k))
    \<and> (\<forall>s. sys_stack_allocate E S sz True = Ok (Inr s) \<longrightarrow>
         (\<exists>p. os_mmap S (len + 2 ^ k) = Some p \<and> drop_stack E S \<lparr>buf = s\<rparr> = Ok (Some (p, len + 2 ^ k))))"
proof (intro conjI allI impI)
  let ?ps = "2 ^ k :: nat"
  have a: "sys_stack_allocate E S sz True =
      Ok (if len + ?ps \<le> max_stack S
          then case os_mmap S (len + ?ps) of
                 None \<Rightarrow> Inl IoError
               | Some p \<Rightarrow> if os_mprotect S p ?ps
                            then Inr \<lparr>ss_top = p + len + ?ps, ss_bottom = p + ?ps\<rparr> else Inl IoError
          else Inl (ExceedsMaximumSize (max_stack S - 2 * ?ps)))"
    unfolding len_def by (rule allocate_protected [OF assms(1-5)])
  then show "sys_stack_allocate E S sz True = \<dots>" .
  have "0 < max sz ?ps" by (simp add: less_max_iff_disj)
  then show r: "max sz ?ps \<le> len" "len < max sz ?ps + ?ps" unfolding len_def using round_up_bounds [of ?ps "max sz ?ps"] by simp_all
  show "len + ?ps \<le> max_stack S \<longleftrightarrow> sz \<le> max_stack S - ?ps" if "?ps dvd max_stack S"
    unfolding len_def using largest_stack [OF that _ assms(4), of sz] by simp
  fix s assume s: "sys_stack_allocate E S sz True = Ok (Inr s)"
  then obtain p where p: "len + ?ps \<le> max_stack S" "os_mmap S (len + ?ps) = Some p"
      "s = \<lparr>ss_top = p + len + ?ps, ss_bottom = p + ?ps\<rparr>"
    using a by (auto split: if_splits option.splits)
  have "page S = ?ps" using assms(1) by (simp add: page_size_def)
  moreover have "len + ?ps \<le> usize_max" "0 < len" using p(1) max_stack_bound [of S] r(1) \<open>0 < max sz ?ps\<close> by linarith+
  ultimately have "drop_stack E S \<lparr>buf = s\<rparr> = Ok (Some (p, len + ?ps))"
    using p(3) by (simp add: drop_stack_def sys_stack_len_def usize_sub_def usize_add_def)
  with p(2) show "\<exists>p. os_mmap S (len + ?ps) = Some p \<and> drop_stack E S \<lparr>buf = s\<rparr> = Ok (Some (p, len + ?ps))" by blast
qed

theorem stack_allocation_witness:
  "let S = \<lparr>os_sysconf = 4096, os_getrlimit = Some 8388608, os_mmap = (\<lambda>n. if n \<le> 8388608 then Some 4096 else None),
            os_mprotect = (\<lambda>_ _. True)\<rparr>
   in sys_stack_allocate plain_build S 5000 True = Ok (Inr \<lparr>ss_top = 16384, ss_bottom = 8192\<rparr>)
      \<and> sys_stack_allocate plain_build S 8384512 True = Ok (Inr \<lparr>ss_top = 8392704, ss_bottom = 8192\<rparr>)
      \<and> sys_stack_allocate plain_build S 8384513 True = Ok (Inl (ExceedsMaximumSize 8380416))"
proof -
  let ?S = "\<lparr>os_sysconf = 4096, os_getrlimit = Some 8388608, os_mmap = (\<lambda>n. if n \<le> 8388608 then Some 4096 else None),
            os_mprotect = (\<lambda>_ _. True)\<rparr>"
  have p: "os_sysconf ?S = 2 ^ 12" by simp
  have m: "max_stack ?S = 8388608" by (simp add: max_stack_size_def RLIM_INFINITY_def usize_max_def)
  have f: "mmap_fits ?S" by (simp add: mmap_fits_def usize_max_def)
  have r: "2 * 2 ^ 12 \<le> max_stack ?S" unfolding m by simp
  from stack_allocation [OF p _ _ r f, of 5000 plain_build] stack_allocation [OF p _ _ r f, of 8384512 plain_build]
    stack_allocation [OF p _ _ r f, of 8384513 plain_build]
  show ?thesis by (simp add: m round_up_def usize_max_def)
qed

lemma write_magic_cases:
  "write_magic M a n = Fault UndefinedBehaviour \<or> (\<exists>M'. write_magic M a n = Ok M' \<and> (\<forall>x. M x = None \<longrightarrow> M' x = None))"
proof (induction n arbitrary: M a)
  case (Suc n)
  show ?case
  proof (cases "M a")
    case (Some w)
    then have "write_magic M a (Suc n) = write_magic (M(a \<mapsto> magic)) (a + 8) n" by (simp add: write_word_def)
    then show ?thesis using Suc [of "M(a \<mapsto> magic)" "a + 8"] Some by (metis fun_upd_other option.distinct(1))
  qed (simp add: write_word_def)
qed simp

lemma sys_stack_new_order: "sys_stack_new E t b = Ok s \<Longrightarrow> debug E \<Longrightarrow> ss_bottom s \<le> ss_top s"
  by (auto simp: sys_stack_new_def obind_Ok_conv guard_def split: if_splits)

lemma allocate_stack_order: "allocate_stack E S n = Ok (Inr s) \<Longrightarrow> debug E \<Longrightarrow> ss_bottom s \<le> ss_top s"
  by (auto simp: allocate_stack_def obind_Ok_conv split: option.splits intro: sys_stack_new_order)

lemma protect_stack_order: "protect_stack E S u = Ok (Inr s) \<Longrightarrow> debug E \<Longrightarrow> ss_bottom s \<le> ss_top s"
  by (auto simp: protect_stack_def obind_Ok_conv split: if_splits intro: sys_stack_new_order)

lemma map_stack_order:
  assumes "map_stack E S n p = Ok (Inr s)" "debug E"
  shows "ss_bottom s \<le> ss_top s"
proof -
  obtain r t where r: "allocate_stack E S n = Ok r" and
    t: "(case r of Inr stack \<Rightarrow> if p then protect_stack E S stack else Ok r | Inl e \<Rightarrow> Ok r) = Ok t" and
    s: "(case t of Inr s \<Rightarrow> Inr s | Inl e \<Rightarrow> Inl IoError) = Inr s"
    using assms(1) unfolding map_stack_def by (auto elim!: obind_OkE)
  have ts: "t = Inr s" using s by (cases t) simp_all
  show ?thesis
  proof (cases r)
    case (Inr u)
    then show ?thesis
      using r t ts allocate_stack_order [of E S n s] protect_stack_order [of E S u s] assms(2) by (cases p) simp_all
  qed (use t ts in simp)
qed

lemma allocate_maps:
  assumes "sys_stack_allocate E S sz p = Ok (Inr b)"
  obtains n where "map_stack E S n p = Ok (Inr b)"
proof -
  define extra where "extra = push_bit (if p then 1 else 0) (page S) mod 2 ^ 64"
  define too_large :: "(stack_error + sys_stack) outcome" where
    "too_large = obind (usize_sub E (max_stack S) extra) (\<lambda>m. Ok (Inl (ExceedsMaximumSize m)))"
  have no: "too_large \<noteq> Ok (Inr b)" unfolding too_large_def by (auto elim!: obind_OkE)
  obtain n where "(case checked_add n extra of
      Some n \<Rightarrow> if n \<le> max_stack S then map_stack E S n p else too_large | None \<Rightarrow> too_large) = Ok (Inr b)"
    using assms unfolding sys_stack_allocate_def Let_def too_large_def extra_def by (elim obind_OkE) blast
  with no that show thesis by (cases "checked_add n extra") (simp_all split: if_split_asm)
qed

text \<open>
  C40. No stack can be made. Once its memory is allocated, \<open>Stack::new\<close> stores the initial usage one
  word above the top, outside the mapping, so it never returns and its run is undefined.
\<close>

theorem stack_new_out_of_bounds:
  assumes "sz * 8 \<le> usize_max" "sys_stack_allocate E S (max (sz * 8) (min_stack_size S)) True = Ok (Inr b)"
  shows "stack_new E S sz = Fault UndefinedBehaviour"
proof -
  obtain n where u: "map_stack E S n True = Ok (Inr b)" by (rule allocate_maps [OF assms(2)])
  have "\<exists>n. stack_size E \<lparr>buf = b\<rparr> = Ok n"
    using map_stack_order [OF u] by (auto simp: stack_size_def sys_stack_len_def usize_sub_def)
  then obtain count where c: "(if sz AND 1 \<noteq> 0 then stack_size E \<lparr>buf = b\<rparr> else Ok 8) = Ok count"
    by (cases "sz AND 1 \<noteq> 0") auto
  have "fresh_words b (ss_top b + 8) = None" by (simp add: fresh_words_def)
  then have "obind (write_magic (fresh_words b) (ss_bottom b) count)
      (\<lambda>M. obind (write_word M (get_offset \<lparr>buf = b\<rparr>) 1) (\<lambda>M. Ok (\<lparr>buf = b\<rparr>, M))) = Fault UndefinedBehaviour"
    using write_magic_cases [of "fresh_words b" "ss_bottom b" count] by (auto simp: write_word_def get_offset_def)
  then show ?thesis
    using c assms unfolding stack_new_def Let_def by (cases "sz AND 1 = 0") simp_all
qed

theorem stack_new_out_of_bounds_witness:
  "stack_new plain_build \<lparr>os_sysconf = 4096, os_getrlimit = Some 8388608, os_mmap = (\<lambda>n. if n \<le> 65536 then Some 4096 else None),
     os_mprotect = (\<lambda>_ _. True)\<rparr> 1024 = Fault UndefinedBehaviour"
proof -
  let ?S = "\<lparr>os_sysconf = 4096, os_getrlimit = Some 8388608, os_mmap = (\<lambda>n. if n \<le> 65536 then Some 4096 else None),
     os_mprotect = (\<lambda>_ _. True)\<rparr>"
  have "sys_stack_allocate plain_build ?S (max (1024 * 8) (min_stack_size ?S)) True = Ok (Inr \<lparr>ss_top = 16384, ss_bottom = 8192\<rparr>)"
    using allocate_protected [of ?S 12 "max (1024 * 8) (min_stack_size ?S)" plain_build]
    by (simp add: mmap_fits_def min_stack_size_def page_size_def max_stack_size_def RLIM_INFINITY_def usize_max_def round_up_def)
  from stack_new_out_of_bounds [OF _ this] show ?thesis by (simp add: usize_max_def)
qed

section \<open>Joining\<close>

text \<open>
  C12. No wake-up of a join is lost, however \<open>wait\<close>, \<open>trigger\<close> and other code interleave, for blockers that keep
  their laws: once \<open>trigger\<close> has returned, the waiter returns after at most three more steps of its own,
  wherever it is. A waiter that did not park, or whose \<open>park\<close> returned \<open>Ok\<close>, finds the coroutine done. But
  when \<open>park\<close> returns an error, which \<open>wait\<close> drops, the waiter returns whether or not the coroutine is
  done.
\<close>

theorem join_wakes:
  assumes "option_law tk st" "blocker_laws B env notified" "join_reach tk st B env w"
  shows "(trigger w = TDone \<longrightarrow> (\<exists>n w' r. n \<le> 3 \<and> wait_run tk st B n w = Some w' \<and> waiter w' = WDone r))
    \<and> (waiter w \<in> {WDone None, WDone (Some (Inr ()))} \<longrightarrow> is_done (jw_join w))
    \<and> (\<forall>b x e. waiter w = WPark b \<and> bl_park B b (jw_env w) = Some (Inl x, e) \<longrightarrow>
         (\<exists>w'. wait_step tk st B w = Some w' \<and> waiter w' = WDone (Some (Inl x)) \<and> is_done (jw_join w') = is_done (jw_join w)))"
proof -
  note i = join_reach_inv [OF assms(3,1,2)]
  have "is_done (jw_join w)" if "waiter w \<in> {WDone None, WDone (Some (Inr ()))}"
    using i that by (auto simp: join_inv_def is_done_def)
  then show ?thesis using wait_run_ends [OF i assms(2), of st] by (auto simp: wait_step_def)
qed

text \<open>
  Blockers that are numbers. The environment has those that have been unparked, and whether the
  waiting coroutine is cancelled, which other code may set.
\<close>

definition plain_blockers :: "(nat, nat set \<times> bool) blocker_ops" where
  "plain_blockers =
     \<lparr>bl_current = (\<lambda>(s, k). (7, (s - {7}, k))),
      bl_park = (\<lambda>b (s, k). if k then Some (Inl ParkCancelled, (s, k))
                            else if b \<in> s then Some (Inr (), (s - {b}, k)) else None),
      bl_unpark = (\<lambda>b (s, k). (insert b s, k))\<rparr>"

theorem join_wakes_witness:
  "let tk = (\<lambda>t :: nat option. (t, None)); st = (\<lambda>b t. Some b); env = (\<lambda>e e'. fst e' = fst e)
   in (\<exists>w n w' r. join_reach tk st plain_blockers env (w :: (nat option, unit, nat, nat set \<times> bool) join_world) \<and> waiter w = WPark 7 \<and> trigger w = TDone
         \<and> wait_run tk st plain_blockers n w = Some w' \<and> waiter w' = WDone r)
    \<and> (\<exists>w w'. join_reach tk st plain_blockers env (w :: (nat option, unit, nat, nat set \<times> bool) join_world)
         \<and> wait_step tk st plain_blockers w = Some w' \<and> waiter w' = WDone (Some (Inl ParkCancelled)) \<and> \<not> is_done (jw_join w'))"
proof -
  let ?tk = "\<lambda>t :: nat option. (t, None :: nat option)"
  let ?st = "\<lambda>b (t :: nat option). Some (b :: nat)"
  let ?env = "\<lambda>(e :: nat set \<times> bool) e'. fst e' = fst e"
  let ?w = "\<lambda>t e p q. \<lparr>jw_join = \<lparr>to_wake = t, join_state = (q = TStart), join_panic = ()\<rparr>, jw_env = e, waiter = p, trigger = q\<rparr>"
  let ?r = "join_reach ?tk ?st plain_blockers ?env"
  note steps = wait_step_def trigger_step_def plain_blockers_def join_world_new_def join_new_def
  have o: "option_law ?tk ?st" by (simp add: option_law_def)
  have l: "blocker_laws plain_blockers ?env (\<lambda>e b. b \<in> fst e)"
    by (auto simp: blocker_laws_def plain_blockers_def split: if_splits)
  have "?r (?w None ({}, False) WStart TStart)" using start [of ?tk ?st plain_blockers ?env None "()" "({}, False)"] by (simp add: steps)
  then have "?r (?w None ({}, False) (WStore 7) TStart)" by (rule wait) (simp add: steps)
  then have "?r (?w (Some 7) ({}, False) (WRecheck 7) TStart)" by (rule wait) (simp add: steps)
  then have p: "?r (?w (Some 7) ({}, False) (WPark 7) TStart)" by (rule wait) (simp add: steps)
  then have "?r (?w (Some 7) ({}, False) (WPark 7) TTake)" by (rule trig) (simp add: steps)
  then have "?r (?w None ({}, False) (WPark 7) (TUnpark 7))" by (rule trig) (simp add: steps)
  then have d: "?r (?w None ({7}, False) (WPark 7) TDone)" by (rule trig) (simp add: steps)
  from other [OF p, of "({}, True)"] have c: "?r (?w (Some 7) ({}, True) (WPark 7) TStart)" by simp
  have "\<exists>n w' r. wait_run ?tk ?st plain_blockers n (?w None ({7}, False) (WPark 7) TDone) = Some w' \<and> waiter w' = WDone r"
    using join_wakes [OF o l d] by auto
  moreover have "\<exists>w'. wait_step ?tk ?st plain_blockers (?w (Some 7) ({}, True) (WPark 7) TStart) = Some w'
      \<and> waiter w' = WDone (Some (Inl ParkCancelled)) \<and> \<not> is_done (jw_join w')"
  proof -
    let ?v = "?w (Some 7) ({}, True) (WPark 7) TStart"
    have "waiter ?v = WPark 7 \<and> bl_park plain_blockers 7 (jw_env ?v) = Some (Inl ParkCancelled, ({}, True))" "\<not> is_done (jw_join ?v)"
      by (simp_all add: plain_blockers_def is_done_def)
    then show ?thesis using conjunct2 [OF conjunct2 [OF join_wakes [OF o l c]]] by blast
  qed
  ultimately show ?thesis unfolding Let_def using c d by fastforce
qed

text \<open>
  C11. Joining gives what the coroutine ended with, for result and panic cells that give back what
  was stored last. After the code of a spawned coroutine the join is done, a registered blocker
  is woken and \<open>join\<close> returns the result. When the coroutine panics, \<open>run_coroutine\<close> does the same with
  the panic, which \<open>join\<close> then returns as the error if there is no result, and frees the local
  storage; but if the whole stack was used, the process exits after the trigger. With neither
  a result nor a panic the error is \<open>Cancel\<close>.
\<close>

theorem join_result:
  assumes cells: "\<forall>r p. fst (tkr (sr r p)) = Some r" "\<forall>e q. fst (tkq (sq e q)) = Some e"
    and co: "ci_resume I co s = (None, co', s')" "locals s' (ci_local I co') = Some l" "joins s' (cl_join l) = Some j"
      "ci_panic_data I co' = Some e" "ci_stack_usage I co' = (sz, used)"
  shows "(case spawn_closure sr tk unpark r packet j w of (packet', j', w') \<Rightarrow>
        is_done j' \<and> w' = woken tk unpark (to_wake j) w \<and> handle_join tkr tkq packet' (join_panic j') = Inr r)
    \<and> (case run_coroutine tk sq unpark I config co s of
         Ok s2 \<Rightarrow> used \<noteq> sz \<and> locals s2 (ci_local I co') = None
           \<and> blockers s2 = woken tk unpark (to_wake j) (blockers s')
           \<and> (\<exists>j2. joins s2 (cl_join l) = Some j2 \<and> is_done j2
                \<and> (fst (tkr packet) = None \<longrightarrow> handle_join tkr tkq packet (join_panic j2) = Inl (Panicked e)))
       | Fault f \<Rightarrow> used = sz \<and> f = ExitProcess)
    \<and> (fst (tkr packet) = None \<and> fst (tkq panic) = None \<longrightarrow> handle_join tkr tkq packet panic = Inl (JoinErr ErrCancel))"
  using cells
  by (simp add: run_coroutine_panic [OF co] spawn_closure_def join_trigger_eq is_done_def handle_join_def)

theorem join_result_witness:
  "let tk = (\<lambda>t :: nat option. (t, None)); st = (\<lambda>x (_ :: nat option). Some x);
       I = \<lparr>ci_resume = (\<lambda>co s. (None, co, s)), ci_local = (\<lambda>co. 5), ci_panic_data = (\<lambda>co :: nat. Some (3 :: nat)),
            ci_stack_usage = (\<lambda>co. (64, 10))\<rparr>;
       j = \<lparr>to_wake = Some 7, join_state = True, join_panic = None\<rparr>;
       s = \<lparr>joins = [9 \<mapsto> j], locals = [5 \<mapsto> \<lparr>cl_coroutine = (), cl_join = 9, cl_data = ()\<rparr>], pool = [], blockers = [] :: nat list\<rparr>
   in case run_coroutine tk st (#) I 64 (1 :: nat) s of
        Ok s2 \<Rightarrow> blockers s2 = [7] \<and> (\<exists>j2. joins s2 9 = Some j2 \<and> handle_join tk tk None (join_panic j2) = Inl (Panicked 3))
      | Fault f \<Rightarrow> False"
proof -
  let ?tk = "\<lambda>t :: nat option. (t, None :: nat option)"
  let ?st = "\<lambda>x (_ :: nat option). Some (x :: nat)"
  let ?j = "\<lparr>to_wake = Some 7, join_state = True, join_panic = None\<rparr> :: (nat option, nat option) join"
  let ?l = "\<lparr>cl_coroutine = (), cl_join = 9, cl_data = ()\<rparr>"
  let ?s = "\<lparr>joins = [9 \<mapsto> ?j], locals = [5 \<mapsto> ?l], pool = [] :: nat list, blockers = [] :: nat list\<rparr>"
  let ?I = "\<lparr>ci_resume = (\<lambda>co s. (None, co, s)), ci_local = (\<lambda>co. 5), ci_panic_data = (\<lambda>co :: nat. Some (3 :: nat)),
            ci_stack_usage = (\<lambda>co. (64, 10))\<rparr>"
  have "\<forall>r p. fst (?tk (?st r p)) = Some r" by simp
  from join_result [OF this this, where I = ?I and co = 1 and s = ?s and co' = 1 and s' = ?s and l = ?l and j = ?j and e = 3 and sz = 64 and used = 10
      and tk = ?tk and unpark = "(#)" and packet = None and config = 64 and r = 0 and w = "[]" and panic = None]
  show ?thesis by (auto simp: woken_def Let_def split: outcome.splits)
qed

section \<open>Stack overflow\<close>

text \<open>
  C21. Signals of the stack. After the first \<open>init_once\<close>, which works once, both signals go to the handler. On
  a thread that runs a generator, a fault inside the guard page or the stack of that generator
  aborts the process, and the recorded error is never seen. After a fault elsewhere the handler puts
  an old action back and returns, but for either signal this is the action that \<open>SIGBUS\<close> had: the one of
  \<open>SIGSEGV\<close>, stored first in the same place, is lost. On a thread that runs no generator every fault
  aborts the process, because the handler cannot ask for the guard.
\<close>

theorem overflow_handling:
  assumes "sigaction_law S cur" "\<not> init_done w"
  shows "let w' = init_once S handler w in
      cur (kernel w') = (cur (kernel w))(SIGSEGV := init_action handler, SIGBUS := init_action handler)
      \<and> init_once S handler w' = w'
      \<and> (runs_generator rt root bottom hi \<and> ps \<le> bottom \<longrightarrow>
          (if bottom - ps \<le> a \<and> a < hi
           then signal_handler E S ps signum a rt w' = Fault AbortProcess
           else \<exists>w2. signal_handler E S ps signum a rt w' = Ok (rt, w2)
                  \<and> cur (kernel w2) = (cur (kernel w'))(signum := cur (kernel w) SIGBUS)))
      \<and> (runs_none rt \<longrightarrow> signal_handler E S ps signum a rt w' = Fault AbortProcess)"
proof -
  let ?w = "init_once S handler w"
  note i = signal_init_installs [OF assms, of handler]
  have "\<exists>w2. signal_handler E S ps signum a rt ?w = Ok (rt, w2) \<and> cur (kernel w2) = (cur (kernel ?w))(signum := cur (kernel w) SIGBUS)"
    if "runs_generator rt root bottom hi" "ps \<le> bottom" "\<not> (bottom - ps \<le> a \<and> a < hi)"
  proof -
    have "a < bottom - ps \<or> hi \<le> a" using that(3) by linarith
    from handler_elsewhere [OF that(1,2) this i(2)] show ?thesis using assms(1) by (simp add: sigaction_law_def)
  qed
  then show ?thesis
    unfolding Let_def using i(1) init_once_twice [of S handler w] handler_outside_generators [of rt E S ps signum a ?w]
      handler_overflow [of rt root bottom hi ps a E S signum ?w] by simp
qed

text \<open>
  A thread whose generator has the stack from 8192 to 16384, a thread without one, and a system
  that records the actions.
\<close>

definition overflow_runtime :: "unit runtime" where
  "overflow_runtime =
     \<lparr>ctxs = [1 \<mapsto> context_new\<lparr>child := 2, parent := 2\<rparr>, 2 \<mapsto> context_new\<lparr>parent := 1, stack_guard := (8192, 16384)\<rparr>],
      slots = Map.empty, root_context_p = 1, next_addr = 3\<rparr>"

definition idle_runtime :: "unit runtime" where
  "idle_runtime = \<lparr>ctxs = [1 \<mapsto> context_new\<lparr>parent := 1\<rparr>], slots = Map.empty, root_context_p = 1, next_addr = 2\<rparr>"

definition plain_signals :: "(nat \<Rightarrow> sigaction) sig_os" where
  "plain_signals = \<lparr>os_sigaction = (\<lambda>n a k. (k n, k(n := a))), os_unblock = (\<lambda>n k. k)\<rparr>"

theorem overflow_handling_witness:
  "let old = (\<lambda>n. init_action n); w = \<lparr>sig_action = None, init_done = False, kernel = old\<rparr>;
       w' = init_once plain_signals 999 w
   in signal_handler plain_build plain_signals 4096 SIGSEGV 5000 overflow_runtime w' = Fault AbortProcess
    \<and> (\<exists>w2. signal_handler plain_build plain_signals 4096 SIGSEGV 20000 overflow_runtime w' = Ok (overflow_runtime, w2)
         \<and> kernel w2 SIGSEGV = old SIGBUS)
    \<and> signal_handler plain_build plain_signals 4096 SIGSEGV 20000 idle_runtime w' = Fault AbortProcess"
proof -
  let ?w = "\<lparr>sig_action = None, init_done = False, kernel = \<lambda>n. init_action n\<rparr>"
  have l: "sigaction_law plain_signals (\<lambda>k. k)" by (simp add: sigaction_law_def plain_signals_def)
  have w: "\<not> init_done ?w" by simp
  have g: "runs_generator overflow_runtime 1 8192 16384" by (simp add: runs_generator_def overflow_runtime_def)
  have n: "runs_none idle_runtime" by (simp add: runs_none_def idle_runtime_def context_new_def)
  note h = overflow_handling [OF l w, of 999 _ _ _ _ 4096 _ plain_build SIGSEGV, unfolded Let_def]
  have "signal_handler plain_build plain_signals 4096 SIGSEGV 5000 overflow_runtime (init_once plain_signals 999 ?w) = Fault AbortProcess"
    using h [of overflow_runtime 1 8192 16384 5000] g by simp
  moreover have "\<exists>w2. signal_handler plain_build plain_signals 4096 SIGSEGV 20000 overflow_runtime (init_once plain_signals 999 ?w)
      = Ok (overflow_runtime, w2) \<and> kernel w2 SIGSEGV = init_action SIGBUS"
    using h [of overflow_runtime 1 8192 16384 20000] g by auto
  moreover have "signal_handler plain_build plain_signals 4096 SIGSEGV 20000 idle_runtime (init_once plain_signals 999 ?w) = Fault AbortProcess"
    using h [of idle_runtime 1 8192 16384 20000] n by simp
  ultimately show ?thesis unfolding Let_def by blast
qed

end
