(* ===== verification/Date_Header.thy ===== *)
theory Date_Header
  imports Date_Time Bytes_Mut
begin

text \<open>
  Writing the cached date into a buffer (\<open>append_date\<close> of \<open>date/src/lib.rs\<close>). The cached date is an
  argument; the thread that updates it is not modelled.
\<close>

definition append_date :: "build \<Rightarrow> date \<Rightarrow> bytes_mut \<Rightarrow> bytes_mut act" where
  "append_date E date dst = bm_extend_from_slice E dst (date_as_bytes date)"

end
