(* ===== verification/Spec2Isabelle.thy ===== *)
theory Spec2Isabelle
  imports Buffer_Theorems Date_Theorems Bytes_Theorems Coroutine_Theorems Date_Header
begin

text \<open>
  Verification of \<open>chiya\<close>: the buffer traits and handles of \<open>bytes\<close>, the HTTP date of \<open>date\<close>, and the
  synchronisation, runtime and stack code of \<open>coroutine\<close>.

  \<^bold>\<open>Conventions.\<close> A \<open>usize\<close> is a natural number with the wrap-around or the overflow check written out
  (64 bits); the other integers are words. Every call returns an outcome: \<open>Ok\<close> with a value, or \<open>Fault\<close>
  with the kind of panic, an abort, undefined behaviour, or \<open>Diverges\<close> for a loop that does not end. A
  loop is \<open>loop\<close> over a loop combinator, so that not ending is a value and needs no fuel. A trait is a
  record of its operations, a contract on it a locale, and every implementation an interpretation.

  \<^bold>\<open>Theories.\<close>
  \<^item> \<open>Prelude\<close>: outcomes, loops, machine integers, lemmas on lists.
  \<^item> \<open>Buf\<close>, \<open>Read_Adapters\<close>: \<open>bytes/src/buf/buf_impl.rs\<close>, \<open>vec_deque.rs\<close>, and \<open>chain.rs\<close>, \<open>take.rs\<close>, \<open>iter.rs\<close>,
    \<open>reader.rs\<close>. The required methods of \<open>Buf\<close> are a record, its contract says that a buffer is the
    sequence of its remaining bytes, and the provided methods are proved from the contract.
  \<^item> \<open>BufMut\<close>, \<open>Write_Adapters\<close>: \<open>buf_mut.rs\<close>, \<open>uninit_slice.rs\<close>, and \<open>limit.rs\<close>, \<open>chain.rs\<close>, \<open>writer.rs\<close>, in the same way.
  \<^item> \<open>Buffer_Theorems\<close>: round trips of the numbers, copying between buffers, adapters, termination.
  \<^item> \<open>Memory\<close>: raw memory. A pointer has a provenance and an address, a block is a buffer of maybe
    uninitialised bytes, static bytes, or one of the reference-counted boxes; an access outside
    a live block is undefined behaviour. \<open>Vec\<close> is modelled as the handles use it. The build (debug
    assertions, growth of vectors, addresses the allocator picks) is a parameter; \<open>good_build\<close> states
    what the standard library documents.
  \<^item> \<open>Bytes_Mut\<close>, \<open>Bytes_Mut_Contract\<close>: \<open>bytes_mut.rs\<close>. The tagged data word, promotion to a shared box,
    growing, splitting. \<open>bm_ok\<close> is the invariant of the representation; every operation keeps it and
    changes only blocks of its own handle.
  \<^item> \<open>Bytes_Mut_World\<close>: any number of handles at once. \<open>world\<close> says that no handle reaches the bytes of
    another and that every box counts its handles; a run over handles refines a run over byte
    strings. \<open>Bytes_Mut_Unsplit\<close>: joining two handles of a world, by merging or by copying.
  \<^item> \<open>Bytes_Handle\<close>, \<open>Bytes_Contract\<close>: \<open>bytes.rs\<close> with its six vtables, \<open>freeze\<close> and \<open>copy_to_bytes\<close>.
    \<open>Bytes_Copy\<close>: the contract of \<open>copy_to_bytes\<close>, which the provided method meets for every buffer and
    \<open>Take\<close> and \<open>Chain\<close> hand on, and that of \<open>BytesMut\<close>, which shares the bytes.
  \<^item> \<open>Bytes_Iter\<close>, \<open>Compare\<close>, \<open>Fmt\<close>: iterators and hashing, comparison, \<open>fmt/debug.rs\<close> and \<open>fmt/hex.rs\<close>.
  \<^item> \<open>Bytes_Theorems\<close>: handles as byte strings and as buffers, dividing, copying out, freezing and
    thawing, comparing, and two ways in which memory is not safe.
  \<^item> \<open>Date_Time\<close>, \<open>Date_Cache\<close>, \<open>Date_Header\<close>: \<open>date/src\<close>, with the updating thread as a step relation. \<open>Calendar\<close> is the Gregorian calendar the conversions are compared
    with; \<open>Date_Theorems\<close> has the conversions, the printer, the parsers and the cached date.
  \<^item> \<open>Coroutine_Sync\<close>: \<open>sync/seq_lock.rs\<close> with its interleavings as a step relation, \<open>backoff.rs\<close>,
    \<open>atomic_cell.rs\<close>, \<open>atomic_macro.rs\<close>, \<open>mod.rs\<close>; the operations of a cell are as one thread runs them.
    \<open>Coroutine_Cells\<close>: the fallback of a cell with any number of threads, word by word, as a step relation.
  \<^item> \<open>Coroutine_Runtime\<close>: \<open>runtime.rs\<close>, \<open>guard.rs\<close>; contexts and slots live at addresses.
  \<^item> \<open>Coroutine_Tasks\<close>, \<open>Coroutine_Join\<close>: \<open>cancel.rs\<close>, \<open>park.rs\<close>, \<open>builder.rs\<close>, \<open>join.rs\<close>, \<open>join_handle.rs\<close>,
    \<open>coroutine_local.rs\<close>, \<open>id_hasher.rs\<close>, and the protocol of \<open>wait\<close> and \<open>trigger\<close> as a step relation,
    in which other code may take steps of its own.
  \<^item> \<open>Coroutine_Spawn\<close>: the end of a coroutine (\<open>run_coroutine\<close> of \<open>lib.rs\<close>, \<open>done.rs\<close>, the closure of \<open>builder.rs\<close>);
    the coroutine itself is a record of parameters.
  \<^item> \<open>Coroutine_Stack\<close>: \<open>stack/\<close>; the system calls are a record of parameters. \<open>Coroutine_Signal\<close>: the
    handler of stack overflows (\<open>stack/unix/overflow.rs\<close>), with the laws of \<open>sigaction\<close> as a hypothesis.
  \<^item> \<open>Coroutine_Theorems\<close>: what the lock, the cells, the context stack, cancelling, the stacks, the
    signals and joining promise, and where the lock, the cells, the stacks and the signals do not keep
    it.
  \<^item> This theory: messages sent through a \<open>BytesMut\<close> and received from the frozen \<open>Bytes\<close>, which composes
    the traits with the handles, and the date header, which composes \<open>date\<close> with \<open>bytes\<close>.

  \<^bold>\<open>Bounds.\<close> A handle grows to at most a quarter of the largest \<open>isize\<close> in the theorems that promise
  success, so that doubling a capacity does not overflow. Dates go from 1970 to the end of 9999,
  which the code itself requires. The page size of a stack is a power of two.

  \<^bold>\<open>Not modelled.\<close> Memory orderings, and races of two threads on one handle or on the cached date:
  the counts are plain numbers and an update of the date is one step. Overlap of blocks in the
  address space is not excluded, as provenance keeps them apart; \<open>unsplit\<close>, which compares addresses,
  takes it as a hypothesis that different boxes have different ones, and is therefore not an
  operation of the runs over many handles. Of \<open>coroutine\<close>: \<open>spawn\<close>, \<open>spawn_impl\<close> and \<open>park_timeout\<close>, which use
  values after they were moved and so have no meaning, and \<open>yield_now\<close>, which switches registers by
  functions that the crate does not define. \<open>CoroutineImpl\<close>, \<open>take\<close> and \<open>store\<close> of \<open>AtomicOption\<close>, \<open>current\<close>, \<open>park\<close> and
  \<open>unpark\<close> of \<open>Blocker\<close>, the swap and the exchange of \<open>AtomicCell\<close>, and the system calls are parameters, with their documented behaviour as
  hypotheses. The assembly that switches stacks is not part of the crate. Accessors, marker traits
  and forwarding implementations without behaviour of their own are left out, as are the
  \<open>Display\<close> texts of the errors.
\<close>

section \<open>Messages\<close>

text \<open>
  A client of the crate: a message is its length as 32 bits followed by its bytes, written to a
  \<open>BytesMut\<close> that is then frozen; the receiver reads the length and takes the bytes out.
\<close>

definition send :: "build \<Rightarrow> bytes_mut \<Rightarrow> u8 list \<Rightarrow> bytes act" where
  "send E m payload = (\<lambda>h.
     obind (put_u32 (bm_bufmut E) (m, h) (of_nat (length payload))) (\<lambda>s.
     obind (put_slice (bm_bufmut E) s payload) (\<lambda>(m, h). freeze E m h)))"

definition receive :: "build \<Rightarrow> bytes \<Rightarrow> (bytes \<times> bytes) act" where
  "receive E b = (\<lambda>h.
     obind (get_u32 (buf_defaults (bytes_required E)) (b, h)) (\<lambda>(n, b, h). bytes_copy_to_bytes E b (unat n) h))"

lemma send_ok:
  assumes E: "good_build E" and m: "bm_ok h m" "bm_view h m = []" and l: "4 + length payload \<le> bm_room m"
  obtains b h' where "send E m payload h = Ok (b, h')" "b_ok h' b"
    "b_view h' b = to_be_bytes 4 (of_nat (length payload) :: u32) @ payload"
proof -
  let ?n = "of_nat (length payload) :: u32"
  note M = bm_meets_bufmut [OF E]
  have i: "bm_invar (m, h)" "length (to_be_bytes 4 ?n) \<le> bm_room (fst (m, h))" using m(1) l by simp_all
  obtain s1 where s1: "put_slice (bm_bufmut E) (m, h) (to_be_bytes 4 ?n) = Ok s1" "bm_invar s1"
    "bm_bytes s1 = bm_bytes (m, h) @ to_be_bytes 4 ?n" "bm_room (fst s1) = bm_room (fst (m, h)) - length (to_be_bytes 4 ?n)"
    by (rule bufmut_contract.put_encoded [OF M i])
  have l1: "length payload \<le> bm_room (fst s1)" using s1(4) l by simp
  obtain m2 h2 where s2: "put_slice (bm_bufmut E) s1 payload = Ok (m2, h2)" "bm_invar (m2, h2)"
    "bm_bytes (m2, h2) = bm_bytes s1 @ payload"
    by (rule bufmut_contract.put_encoded [OF M s1(2) l1]) auto
  have "bm_ok h2 m2" using s2(2) by simp
  then obtain b h' where "freeze E m2 h2 = Ok (b, h')" "b_ok h' b" "b_view h' b = bm_view h2 m2"
    using freeze_ok [OF E] by metis
  then show thesis
    using that s1(1,3) s2(1,3) m(2) by (simp add: send_def put_u32_def)
qed

lemma receive_cases:
  assumes b: "b_ok h b"
  shows "b_len b < 4 \<Longrightarrow> receive E b h = Fault (PanicAdvance 4 (b_len b))"
    and "b_view h b = to_be_bytes 4 (n :: u32) @ rest \<Longrightarrow> length rest < unat n \<Longrightarrow> receive E b h = Fault PanicAssert"
    and "b_view h b = to_be_bytes 4 (n :: u32) @ rest \<Longrightarrow> length rest = unat n \<Longrightarrow>
      \<exists>c b' h'. receive E b h = Ok ((c, b'), h') \<and> b_ok h' c \<and> b_view h' c = rest \<and> b_ok h' b' \<and> b_view h' b' = []"
proof -
  note B = buf_required_contract.defaults_contract [OF bytes_meets_buf [of E]]
  have len: "length (b_view h b) = b_len b" by (rule view_length [OF b_okD(1) [OF b]])
  show "receive E b h = Fault (PanicAdvance 4 (b_len b))" if "b_len b < 4"
    using buf_contract.get_impl_panics [OF B, of "(b, h)" 4 "from_be_bytes :: u8 list \<Rightarrow> u32"] b len that by (simp add: receive_def get_u32_def)
  have get: "\<exists>b1 h1. get_u32 (buf_defaults (bytes_required E)) (b, h) = Ok (n, (b1, h1)) \<and> b_ok h1 b1 \<and> b_view h1 b1 = rest"
    if "b_view h b = to_be_bytes 4 (n :: u32) @ rest" for n rest
    using buf_contract.get_impl_ok [OF B, of "(b, h)" 4 "from_be_bytes :: u8 list \<Rightarrow> u32"] b that
    by (auto simp: get_u32_def reads_def from_to_be_bytes)
  show "receive E b h = Fault PanicAssert" if v: "b_view h b = to_be_bytes 4 (n :: u32) @ rest" "length rest < unat n"
  proof -
    obtain b1 h1 where g: "get_u32 (buf_defaults (bytes_required E)) (b, h) = Ok (n, (b1, h1))" "b_ok h1 b1" "b_view h1 b1 = rest"
      using get [OF v(1)] by blast
    then have "b_len b1 < unat n" using view_length [OF b_okD(1) [OF g(2)]] v(2) by simp
    then show ?thesis using g(1) by (simp add: receive_def bytes_copy_to_bytes_def bytes_split_to_def)
  qed
  show "\<exists>c b' h'. receive E b h = Ok ((c, b'), h') \<and> b_ok h' c \<and> b_view h' c = rest \<and> b_ok h' b' \<and> b_view h' b' = []"
    if v: "b_view h b = to_be_bytes 4 (n :: u32) @ rest" "length rest = unat n"
  proof -
    obtain b1 h1 where g: "get_u32 (buf_defaults (bytes_required E)) (b, h) = Ok (n, (b1, h1))" "b_ok h1 b1" "b_view h1 b1 = rest"
      using get [OF v(1)] by blast
    then have n: "b_len b1 = unat n" using view_length [OF b_okD(1) [OF g(2)]] v(2) by simp
    obtain e where "new_empty_with_ptr E (wrapping_add (b_ptr b1) (b_len b1)) h1 = Ok (e, h1)" "b_ok h1 e" "b_view h1 e = []"
      by (rule end_empty_ok [OF g(2)])
    then show ?thesis using g n by (simp add: receive_def bytes_copy_to_bytes_def bytes_split_to_def)
  qed
qed

text \<open>
  C2. Messages survive the way through the buffers: what is sent through \<open>BufMut\<close> of a \<open>BytesMut\<close>, \<open>freeze\<close>,
  and \<open>Buf\<close> of the \<open>Bytes\<close> is received as it was, and nothing is
  left over. A message that is cut short is not misread: fewer than four bytes, or fewer bytes
  than the length says, make the receiver panic.
\<close>

theorem message_roundtrip:
  assumes "good_build E" "bm_ok h m" "bm_view h m = []" "4 + length payload \<le> bm_room m" "length payload < 2 ^ 32"
    and "b_ok hc part" "b_view hc part = take j (to_be_bytes 4 (of_nat (length payload) :: u32) @ payload)" "j < 4 + length payload"
  shows "(\<exists>b h1 c b' h2. send E m payload h = Ok (b, h1) \<and> receive E b h1 = Ok ((c, b'), h2)
      \<and> b_ok h2 c \<and> b_view h2 c = payload \<and> b_ok h2 b' \<and> b_view h2 b' = [])
    \<and> receive E part hc = Fault (if j < 4 then PanicAdvance 4 j else PanicAssert)"
proof
  let ?n = "of_nat (length payload) :: u32"
  have n: "unat ?n = length payload" using assms(5) by (simp add: unsigned_of_nat take_bit_nat_eq_self)
  obtain b h1 where s: "send E m payload h = Ok (b, h1)" "b_ok h1 b" "b_view h1 b = to_be_bytes 4 ?n @ payload"
    by (rule send_ok [OF assms(1-4)])
  from receive_cases(3) [OF s(2,3)] n s(1)
  show "\<exists>b h1 c b' h2. send E m payload h = Ok (b, h1) \<and> receive E b h1 = Ok ((c, b'), h2)
      \<and> b_ok h2 c \<and> b_view h2 c = payload \<and> b_ok h2 b' \<and> b_view h2 b' = []" by fastforce
  have len: "b_len part = j" using view_length [OF b_okD(1) [OF assms(6)]] assms(7,8) by simp
  show "receive E part hc = Fault (if j < 4 then PanicAdvance 4 j else PanicAssert)"
  proof (cases "j < 4")
    case True
    then show ?thesis using receive_cases(1) [OF assms(6)] len by simp
  next
    case False
    then have "b_view hc part = to_be_bytes 4 ?n @ take (j - 4) payload" using assms(7) by simp
    from receive_cases(2) [OF assms(6) this] n assms(8) False show ?thesis by simp
  qed
qed

theorem message_roundtrip_witness:
  "\<exists>b h1 c b' h2. send plain_build \<lparr>bm_ptr = dangling, bm_len = 0, bm_cap = 0, bm_data = without_provenance (vec_tag 0 0)\<rparr> [7, 8, 9] empty_heap = Ok (b, h1)
    \<and> receive plain_build b h1 = Ok ((c, b'), h2) \<and> b_view h2 c = [7, 8, 9]
    \<and> receive plain_build bytes_new empty_heap = Fault (PanicAdvance 4 0)"
proof -
  let ?m = "\<lparr>bm_ptr = dangling, bm_len = 0, bm_cap = 0, bm_data = without_provenance (vec_tag 0 0)\<rparr>"
  have m: "bm_ok empty_heap ?m"
    by (rule bm_in_tag [of _ _ "\<lparr>rv_ptr = dangling, rv_len = 0, rv_cap = 0\<rparr>" 0 0]) (simp_all add: bm_in_def vec_ok_dangling)
  then have "bm_view empty_heap ?m = []" using length_bm_view by fastforce
  moreover have "4 + length [7, 8, 9 :: u8] \<le> bm_room ?m" by (simp add: bm_room_def isize_max_def)
  ultimately show ?thesis
    using message_roundtrip [OF good_plain_build m _ _ _ b_ok_new(1), of "[7, 8, 9]" empty_heap 0] b_ok_new(2)
    by force
qed

section \<open>The date header\<close>

text \<open>
  C9. Writing the date header composes the two crates: while the clock is between 1970 and the end
  of 9999, after an update \<open>append_date\<close> appends to any well-formed \<open>BytesMut\<close> with 29 bytes of room exactly the
  29 printed bytes of the converted time, keeps what the buffer held, and touches no block that the
  handle does not own.
\<close>

theorem append_date_appends:
  assumes "good_build E" "bm_ok h m" "29 \<le> bm_room m" "0 \<le> s" "s < 253402300800"
    and "length (date_bytes self) = DATE_VALUE_LENGTH"
  shows "\<exists>dt date m' h'. datetime_from \<lparr>st_secs = s, st_nanos = ns\<rparr> = Ok dt
    \<and> date_update \<lparr>st_secs = s, st_nanos = ns\<rparr> self = Ok date
    \<and> append_date E date m h = Ok (m', h') \<and> bm_ok h' m'
    \<and> bm_view h' m' = bm_view h m @ imf_fixdate dt \<and> bm_len m' = bm_len m + 29
    \<and> same_except (footprint m) h h'"
proof -
  obtain dt where dt: "datetime_from \<lparr>st_secs = s, st_nanos = ns\<rparr> = Ok dt" "printable dt"
    "date_update \<lparr>st_secs = s, st_nanos = ns\<rparr> self = Ok (self\<lparr>date_bytes := imf_fixdate dt\<rparr>)"
    by (rule date_update_writes [OF assms(4-6)])
  have n: "length (imf_fixdate dt) = 29" by (rule imf_fixdate_shape(1) [OF dt(2)])
  with assms(3) obtain m' h' where "bm_extend_from_slice E m (imf_fixdate dt) h = Ok (m', h')" "bm_ok h' m'"
    "bm_view h' m' = bm_view h m @ imf_fixdate dt" "same_except (footprint m) h h'"
    "bm_len m' = bm_len m + length (imf_fixdate dt)"
    by (metis extend_from_slice_ok [OF assms(1,2)])
  with dt n show ?thesis by (auto simp: append_date_def date_as_bytes_def)
qed

theorem append_date_appends_witness:
  "\<exists>m h dt date m' h'. bm_from_slice release_build [1, 2, 3] empty_heap = Ok (m, h)
    \<and> date_update \<lparr>st_secs = 1000000000, st_nanos = 0\<rparr> date_now = Ok date
    \<and> append_date release_build date m h = Ok (m', h') \<and> bm_view h' m' = [1, 2, 3] @ imf_fixdate dt"
proof -
  obtain m h where m: "bm_from_slice release_build [1, 2, 3] empty_heap = Ok (m, h)" "bm_ok h m"
    "bm_view h m = [1, 2, 3]" "sole h m" "bm_len m = 3"
    by (rule release_from_slice)
  have "29 \<le> bm_room m" using m(5) by (simp add: bm_room_def isize_max_def)
  from append_date_appends [OF good_release_build m(2) this, of 1000000000 date_now 0] m(1,3)
  show ?thesis by (auto simp: date_now_def)
qed

end
